(* ===== verification/C8_Prelude.thy ===== *)
theory C8_Prelude
  imports Main "HOL-Library.Word"
begin

text \<open>
  Shared vocabulary of the development: the C integer types as words, the truncation of a
  wide integer to a 32-bit \<open>int\<close>, the outcome of a C function that may run into undefined
  behaviour or never return, and the generic lemmas on words and lists the component
  theories share.
\<close>

unbundle bit_operations_syntax

type_synonym u8 = "8 word"
type_synonym u16 = "16 word"
type_synonym u32 = "32 word"
type_synonym u64 = "64 word"
type_synonym i8 = "8 word"

named_theorems c8_defs "definitions of the machine's operations, to unfold together"
named_theorems c8_frame "what an operation leaves unchanged"

text \<open>
  The outcome of calling a C function: it returns a status and a state, it never returns,
  or its behaviour is undefined.
\<close>

datatype 's outcome = Done u32 's | Hangs | UB

text \<open>Conversion of a wide integer to a 32-bit C \<open>int\<close>.\<close>

definition s32 :: "int \<Rightarrow> int" where
  "s32 n = sint (word_of_int n :: u32)"

lemma s32_id: "- (2 ^ 31) \<le> n \<Longrightarrow> n < 2 ^ 31 \<Longrightarrow> s32 n = n"
  by (simp add: s32_def signed_of_int signed_take_bit_int_eq_self)

subsection \<open>Nibbles and bytes\<close>

lemma unat_and_mask_less:
  "n < LENGTH('a::len) \<Longrightarrow> unat ((w::'a word) AND mask n) < 2 ^ n"
  by (metis take_bit_eq_mask unsigned_take_bit_eq take_bit_nat_less_exp)

lemma unat_and_15_less [simp]: "unat ((w::u16) AND 15) < 16"
  using unat_and_mask_less [of 4 w] by (simp add: mask_eq_exp_minus_1)

lemma unat_and_255_less [simp]: "unat ((w::u16) AND 255) < 256"
  using unat_and_mask_less [of 8 w] by (simp add: mask_eq_exp_minus_1)

lemma unat_and_4095_less [simp]: "unat ((w::u16) AND 4095) < 4096"
  using unat_and_mask_less [of 12 w] by (simp add: mask_eq_exp_minus_1)

lemma unat_u8_less: "unat (w::u8) < 256"
  using unsigned_less [of w, where ?'a = nat] by simp

lemma less_16_cases:
  assumes "k < (16::nat)"
  obtains "k = 0" | "k = 1" | "k = 2" | "k = 3" | "k = 4" | "k = 5" | "k = 6" | "k = 7"
    | "k = 8" | "k = 9" | "k = 10" | "k = 11" | "k = 12" | "k = 13" | "k = 14" | "k = 15"
proof -
  have "k \<in> set [0..<16]" using assms by simp
  then have "k \<in> {0, 1, 2, 3, 4, 5, 6, 7, 8, 9, 10, 11, 12, 13, 14, 15}"
    by (simp add: upt_rec numeral_eq_Suc)
  then show ?thesis using that by blast
qed

subsection \<open>Byte arithmetic on naturals\<close>

lemma unat_ucast_16 [simp]: "unat (ucast (a::u8) :: u16) = unat a"
  by (simp add: unsigned_ucast_eq take_bit_nat_eq_self_iff order_less_trans [OF unat_u8_less])

lemma unat_ucast_8: "unat (ucast (w::u16) :: u8) = unat w mod 256"
  by (simp add: unsigned_ucast_eq take_bit_eq_mod)

lemma unat_add16: "unat (ucast (a::u8) + ucast (b::u8) :: u16) = unat a + unat b"
proof -
  have "unat a + unat b < 2 ^ 16" using unat_u8_less [of a] unat_u8_less [of b] by simp
  then show ?thesis by (simp add: unat_word_ariths)
qed

lemma byte_add:
  fixes a b :: u8
  shows "unat (ucast (ucast a + ucast b :: u16) :: u8) = (unat a + unat b) mod 256"
    and "((ucast a + ucast b :: u16) > 0xff) = (unat a + unat b > 255)"
  by (simp_all only: unat_ucast_8 unat_add16 word_less_nat_alt) simp

lemma sub_mod_256: "b \<le> a \<Longrightarrow> a < 256 \<Longrightarrow> (a + 256 - b) mod 256 = a - (b::nat)"
  by (simp add: mod_if)

lemma byte_sub:
  fixes a b :: u8
  shows "unat (a - b) = (unat a + 256 - unat b) mod 256"
proof (cases "b \<le> a")
  case True
  then have "unat b \<le> unat a" by (simp add: word_le_nat_alt)
  then show ?thesis unfolding unat_sub [OF True] by (rule sub_mod_256 [symmetric, OF _ unat_u8_less])
next
  case False
  then have "unat a < unat b" by (simp add: word_le_nat_alt)
  then show ?thesis using unat_u8_less [of b] by (simp add: unat_sub_if')
qed

lemma byte_shift:
  fixes a :: u8
  shows "unat (drop_bit 1 a) = unat a div 2" "unat (a AND 1) = unat a mod 2"
    "unat (push_bit 1 a) = 2 * unat a mod 256" "unat (drop_bit (Suc 0) a) = unat a div 2"
    "unat (a * 2) = 2 * unat a mod 256"
proof -
  show "unat (drop_bit 1 a) = unat a div 2" "unat (drop_bit (Suc 0) a) = unat a div 2"
    by (simp_all only: unat_drop_bit_eq) (simp_all add: drop_bit_eq_div)
  show "unat (a * 2) = 2 * unat a mod 256"
    by (simp add: unat_word_ariths mult.commute)
  show "unat (a AND 1) = unat a mod 2"
    by (simp add: unsigned_and_eq and_one_eq unat_mod_distrib)
  show "unat (push_bit 1 a) = 2 * unat a mod 256"
    by (simp add: unsigned_push_bit_eq take_bit_eq_mod unat_word_ariths mult.commute)
qed

lemma odd_div_128: "n < 256 \<Longrightarrow> odd (n div 128) = (128 \<le> (n::nat))"
proof (cases "n < 128")
  case False
  assume "n < 256"
  with False have "n div 128 = 1" by (intro div_nat_eqI) simp_all
  with False show ?thesis by simp
qed simp

lemma byte_high_bit: "((a::u8) AND 0x80 \<noteq> 0) = (128 \<le> unat a)"
proof -
  have "a AND push_bit 7 1 \<noteq> 0 \<longleftrightarrow> bit a 7" by (metis and_exp_eq_0_iff_not_bit push_bit_of_1)
  also have "\<dots> \<longleftrightarrow> bit (unat a) 7" by (simp add: bit_unsigned_iff)
  also have "\<dots> \<longleftrightarrow> odd (unat a div 128)" by (simp add: bit_iff_odd)
  also have "\<dots> \<longleftrightarrow> 128 \<le> unat a" by (rule odd_div_128 [OF unat_u8_less])
  finally show ?thesis by simp
qed

subsection \<open>Numbers as text\<close>

definition newline :: string where "newline = [CHR 0x0A]"

definition hexd :: "nat \<Rightarrow> char" where
  "hexd n = char_of (if n < 10 then 48 + n else 55 + n)"

text \<open>\<^verbatim>\<open>%X\<close> and \<^verbatim>\<open>%d\<close>, and the zero padding of \<^verbatim>\<open>%0wX\<close>.\<close>

fun numeral_of :: "nat \<Rightarrow> nat \<Rightarrow> string" where
  "numeral_of b n =
     (if n < b \<or> b < 2 then [hexd n] else numeral_of b (n div b) @ [hexd (n mod b)])"

declare numeral_of.simps [simp del]

abbreviation hex :: "nat \<Rightarrow> string" where "hex \<equiv> numeral_of 16"
abbreviation dec :: "nat \<Rightarrow> string" where "dec \<equiv> numeral_of 10"

definition hexp :: "nat \<Rightarrow> nat \<Rightarrow> string" where
  "hexp w n = replicate (w - length (hex n)) CHR ''0'' @ hex n"

end
