(* ===== verification/C8_Asm.thy ===== *)
theory C8_Asm
  imports C8_Prelude "HOL-Library.Char_ord"
begin

text \<open>
  The assembler \<^verbatim>\<open>asm.c\<close>: the pieces of the C library it uses on characters and numbers
  (\<^verbatim>\<open>ctype.h\<close> in the C locale, \<^verbatim>\<open>strtoul\<close> with base 0, \<^verbatim>\<open>fgets\<close>), the tokenizer, the
  symbol table, the encoder and the two passes. A source file is its list of characters.
  The C \<^verbatim>\<open>unsigned\<close> values are naturals: none reaches 2 ^ 17 (numbers are checked against
  \<^verbatim>\<open>0xffff\<close> when read, addresses against \<^verbatim>\<open>0x1000\<close> on every line).
\<close>

section \<open>Characters and numbers of the C library\<close>

definition code :: "char \<Rightarrow> nat" where "code c = of_char c"

definition isspace :: "char \<Rightarrow> bool" where
  "isspace c \<longleftrightarrow> code c = 32 \<or> 9 \<le> code c \<and> code c \<le> 13"
definition isdigit :: "char \<Rightarrow> bool" where
  "isdigit c \<longleftrightarrow> 48 \<le> code c \<and> code c \<le> 57"
definition isupper :: "char \<Rightarrow> bool" where
  "isupper c \<longleftrightarrow> 65 \<le> code c \<and> code c \<le> 90"
definition islower :: "char \<Rightarrow> bool" where
  "islower c \<longleftrightarrow> 97 \<le> code c \<and> code c \<le> 122"
definition isalpha :: "char \<Rightarrow> bool" where
  "isalpha c \<longleftrightarrow> isupper c \<or> islower c"
definition isalnum :: "char \<Rightarrow> bool" where
  "isalnum c \<longleftrightarrow> isalpha c \<or> isdigit c"
definition isxdigit :: "char \<Rightarrow> bool" where
  "isxdigit c \<longleftrightarrow> isdigit c \<or> 65 \<le> code c \<and> code c \<le> 70 \<or> 97 \<le> code c \<and> code c \<le> 102"
definition toupper :: "char \<Rightarrow> char" where
  "toupper c = (if islower c then char_of (code c - 32) else c)"

text \<open>
  \<^verbatim>\<open>strtoul (s, &end, 0)\<close>: the value, the rest of the string from \<^verbatim>\<open>end\<close>, and whether
  \<^verbatim>\<open>errno\<close> was set. A digit's value is 36 or more when it is none.
\<close>

definition digit_val :: "char \<Rightarrow> nat" where
  "digit_val c =
     (if isdigit c then code c - 48
      else if isupper c then code c - 65 + 10
      else if islower c then code c - 97 + 10
      else 36)"

fun read_digits :: "nat \<Rightarrow> nat \<Rightarrow> string \<Rightarrow> nat \<times> string" where
  "read_digits b a [] = (a, [])"
| "read_digits b a (c # cs) =
     (if digit_val c < b then read_digits b (a * b + digit_val c) cs else (a, c # cs))"

definition read_sign :: "string \<Rightarrow> bool \<times> string" where
  "read_sign s =
     (case s of
        c # cs \<Rightarrow> if c = CHR ''-'' then (True, cs) else if c = CHR ''+'' then (False, cs) else (False, s)
      | [] \<Rightarrow> (False, s))"

fun read_base :: "string \<Rightarrow> nat \<times> string" where
  "read_base (z # x # d # cs) =
     (if z = CHR ''0'' \<and> (x = CHR ''x'' \<or> x = CHR ''X'') \<and> digit_val d < 16 then (16, d # cs)
      else if z = CHR ''0'' then (8, z # x # d # cs) else (10, z # x # d # cs))"
| "read_base (z # cs) = (if z = CHR ''0'' then (8, z # cs) else (10, z # cs))"
| "read_base [] = (10, [])"

definition strtoul :: "string \<Rightarrow> nat \<times> string \<times> bool" where
  "strtoul s =
     (let (neg, s1) = read_sign (dropWhile isspace s);
          (b, s2) = read_base s1;
          (n, rest) = read_digits b 0 s2
      in if rest = s2 then (0, s, False)
         else if n \<ge> 2 ^ 64 then (2 ^ 64 - 1, rest, True)
         else (if neg then (2 ^ 64 - n) mod 2 ^ 64 else n, rest, False))"

text \<open>
  \<^verbatim>\<open>fgets (line, 1024, fp)\<close> reads at most 1023 characters, up to a newline included; the
  line the program sees ends at the first NUL.
\<close>

definition MAX_LINE :: nat where "MAX_LINE = 1024"

fun fgets :: "nat \<Rightarrow> string \<Rightarrow> string \<times> string" where
  "fgets 0 cs = ([], cs)"
| "fgets (Suc n) [] = ([], [])"
| "fgets (Suc n) (c # cs) =
     (if c = CHR 0x0A then ([c], cs) else let (l, rest) = fgets n cs in (c # l, rest))"

lemma fgets_rest: "length (snd (fgets n cs)) \<le> length cs"
  by (induction n cs rule: fgets.induct) (auto split: prod.splits)

lemma fgets_progress: "0 < n \<Longrightarrow> cs \<noteq> [] \<Longrightarrow> length (snd (fgets n cs)) < length cs"
  using fgets_rest [of "n - 1" "tl cs"]
  by (cases n; cases cs) (auto split: prod.splits simp: less_Suc_eq_le)

function file_lines :: "string \<Rightarrow> string list" where
  "file_lines cs =
     (if cs = [] then []
      else let (l, rest) = fgets (MAX_LINE - 1) cs
           in takeWhile (\<lambda>c. c \<noteq> CHR 0x00) l # file_lines rest)"
  by pat_completeness auto
termination
proof (relation "measure length", simp, goal_cases)
  case (1 cs x l rest)
  have "snd (fgets (MAX_LINE - 1) cs) = rest" using 1(2,3) by (metis snd_conv)
  then show ?case using fgets_progress [of "MAX_LINE - 1" cs] 1(1) by (simp add: MAX_LINE_def)
qed

declare file_lines.simps [simp del]

section \<open>Errors\<close>

text \<open>
  One constructor per \<^verbatim>\<open>fail\<close>. \<open>Label_overflow\<close> stands for the \<^verbatim>\<open>strcpy\<close> of a label of 128
  characters or more into the 128-byte \<^verbatim>\<open>name\<close>, which is undefined.
\<close>

datatype asm_error =
    Too_many_tokens
  | Invalid_label string
  | Duplicate_label string
  | Too_many_labels
  | Label_overflow string
  | Number_too_large string
  | Undefined_symbol string
  | Expected_register string
  | Out_of_range string nat
  | Operand_count string
  | Jp_needs_V0
  | Unknown_instruction string
  | Org_needs_address
  | Org_range
  | Org_backwards
  | Byte_needs_value
  | Word_needs_value
  | Program_too_big

type_synonym 'a checked = "asm_error + 'a"

fun andthen :: "'e + 'a \<Rightarrow> ('a \<Rightarrow> 'e + 'b) \<Rightarrow> 'e + 'b" where
  "andthen (Inl e) f = Inl e"
| "andthen (Inr v) f = f v"

section \<open>Tokens\<close>

definition MAX_TOKENS :: nat where "MAX_TOKENS = 260"

definition comment_char :: "char \<Rightarrow> bool" where
  "comment_char c \<longleftrightarrow> c = CHR '';'' \<or> c = CHR ''#''"

definition token_char :: "char \<Rightarrow> bool" where
  "token_char c \<longleftrightarrow> \<not> isspace c \<and> c \<noteq> CHR '','' \<and> \<not> comment_char c"

text \<open>
  The tokens of the rest of a line after \<open>k\<close> tokens. The character that ends a token is
  overwritten by NUL and skipped, whatever it is.
\<close>

function tokens_from :: "nat \<Rightarrow> string \<Rightarrow> string list checked" where
  "tokens_from k [] = Inr []"
| "tokens_from k (c # cs) =
     (if comment_char c then Inr []
      else if isspace c \<or> c = CHR '','' then tokens_from k cs
      else if k = MAX_TOKENS then Inl Too_many_tokens
      else andthen (tokens_from (Suc k) (tl (dropWhile token_char (c # cs))))
             (\<lambda>ts. Inr (takeWhile token_char (c # cs) # ts)))"
  by pat_completeness auto
termination
proof (relation "measure (\<lambda>(k, cs). length cs)", simp_all, goal_cases)
  case (1 k c cs)
  then have "token_char c" by (simp add: token_char_def)
  then show ?case using length_dropWhile_le [of token_char cs] by simp
qed

definition tokenize :: "string \<Rightarrow> string list checked" where
  "tokenize line = andthen (tokens_from 0 line) (\<lambda>ts. Inr (map (map toupper) ts))"

section \<open>Symbols and operands\<close>

type_synonym symbols = "(string \<times> nat) list"

definition MAX_SYMBOLS :: nat where "MAX_SYMBOLS = 2048"

definition is_name :: "string \<Rightarrow> bool" where
  "is_name s \<longleftrightarrow>
     (case s of [] \<Rightarrow> False
      | c # cs \<Rightarrow> (isalpha c \<or> c = CHR ''_'') \<and> (\<forall>d\<in>set cs. isalnum d \<or> d = CHR ''_''))"

definition lookup :: "symbols \<Rightarrow> string \<Rightarrow> nat option" where
  "lookup syms name = map_of syms name"

definition define_label :: "symbols \<Rightarrow> string \<Rightarrow> nat \<Rightarrow> symbols checked" where
  "define_label syms name v =
     (if \<not> is_name name then Inl (Invalid_label name)
      else if lookup syms name \<noteq> None then Inl (Duplicate_label name)
      else if length syms = MAX_SYMBOLS then Inl Too_many_labels
      else if length name \<ge> 128 then Inl (Label_overflow name)
      else Inr (syms @ [(name, v)]))"

definition value_of :: "symbols \<Rightarrow> bool \<Rightarrow> string \<Rightarrow> nat checked" where
  "value_of syms resolve s =
     (let (n, rest, err) = strtoul s in
      if s \<noteq> [] \<and> rest = [] \<and> \<not> err
      then if n > 0xffff then Inl (Number_too_large s) else Inr n
      else case lookup syms s of
             Some v \<Rightarrow> Inr v
           | None \<Rightarrow> if resolve then Inl (Undefined_symbol s) else Inr 0)"

definition reg :: "string \<Rightarrow> nat checked" where
  "reg s =
     (case s of
        [v, d] \<Rightarrow>
          if v \<noteq> CHR ''V'' \<or> \<not> isxdigit d then Inl (Expected_register s)
          else let r = (if isdigit d then code d - 48 else code d - 65 + 10)
               in if r > 15 then Inl (Expected_register s) else Inr r
      | _ \<Rightarrow> Inl (Expected_register s))"

definition ranged :: "symbols \<Rightarrow> bool \<Rightarrow> string \<Rightarrow> nat \<Rightarrow> string \<Rightarrow> nat checked" where
  "ranged syms resolve s bound what =
     andthen (value_of syms resolve s)
       (\<lambda>z. if z > bound then Inl (Out_of_range what z) else Inr z)"

section \<open>Encoding\<close>

definition need :: "nat \<Rightarrow> string list \<Rightarrow> nat checked \<Rightarrow> nat checked" where
  "need k t r = (if length t \<noteq> k then Inl (Operand_count (t ! 0)) else r)"

definition starts_V :: "string \<Rightarrow> bool" where
  "starts_V s \<longleftrightarrow> take 1 s = ''V''"

text \<open>The bits of an opcode: \<^verbatim>\<open>base | (x << 8)\<close>, and \<^verbatim>\<open>base | (x << 8) | (y << 4) | low\<close>.\<close>

definition enc_x :: "nat \<Rightarrow> nat \<Rightarrow> nat" where
  "enc_x base x = base OR push_bit 8 x"
definition enc_xy :: "nat \<Rightarrow> nat \<Rightarrow> nat \<Rightarrow> nat" where
  "enc_xy base x y = base OR push_bit 8 x OR push_bit 4 y"

text \<open>
  The branches of \<^verbatim>\<open>instruction\<close>, in the order of its tests, for the operands of the
  tokens \<open>t\<close>.
\<close>

definition asm_jp :: "symbols \<Rightarrow> bool \<Rightarrow> string list \<Rightarrow> nat checked" where
  "asm_jp syms resolve t =
     (if length t = 2
      then andthen (ranged syms resolve (t ! 1) 0xfff ''address'') (\<lambda>z. Inr (0x1000 OR z))
      else need 3 t
        (if t ! 1 \<noteq> ''V0'' then Inl Jp_needs_V0
         else andthen (ranged syms resolve (t ! 2) 0xfff ''address'') (\<lambda>z. Inr (0xb000 OR z))))"

definition asm_skip :: "symbols \<Rightarrow> bool \<Rightarrow> nat \<Rightarrow> nat \<Rightarrow> string list \<Rightarrow> nat checked" where
  "asm_skip syms resolve base_reg base_byte t =
     need 3 t
       (andthen (reg (t ! 1)) (\<lambda>x.
          if starts_V (t ! 2) then andthen (reg (t ! 2)) (\<lambda>y. Inr (enc_xy base_reg x y))
          else andthen (ranged syms resolve (t ! 2) 0xff ''byte'') (\<lambda>z. Inr (enc_x base_byte x OR z))))"

definition asm_ld :: "symbols \<Rightarrow> bool \<Rightarrow> string list \<Rightarrow> nat checked" where
  "asm_ld syms resolve t =
     need 3 t
       (let special = (\<lambda>base. andthen (reg (t ! 2)) (\<lambda>x. Inr (enc_x base x))) in
        if t ! 1 = ''I'' then andthen (ranged syms resolve (t ! 2) 0xfff ''address'') (\<lambda>z. Inr (0xa000 OR z))
        else if t ! 1 = ''DT'' then special 0xf015
        else if t ! 1 = ''ST'' then special 0xf018
        else if t ! 1 = ''F'' then special 0xf029
        else if t ! 1 = ''B'' then special 0xf033
        else if t ! 1 = ''[I]'' then special 0xf055
        else andthen (reg (t ! 1)) (\<lambda>x.
          if t ! 2 = ''DT'' then Inr (enc_x 0xf007 x)
          else if t ! 2 = ''K'' then Inr (enc_x 0xf00a x)
          else if t ! 2 = ''[I]'' then Inr (enc_x 0xf065 x)
          else if starts_V (t ! 2) then andthen (reg (t ! 2)) (\<lambda>y. Inr (enc_xy 0x8000 x y))
          else andthen (ranged syms resolve (t ! 2) 0xff ''byte'') (\<lambda>z. Inr (enc_x 0x6000 x OR z))))"

definition asm_add :: "symbols \<Rightarrow> bool \<Rightarrow> string list \<Rightarrow> nat checked" where
  "asm_add syms resolve t =
     need 3 t
       (if t ! 1 = ''I'' then andthen (reg (t ! 2)) (\<lambda>x. Inr (enc_x 0xf01e x))
        else andthen (reg (t ! 1)) (\<lambda>x.
          if starts_V (t ! 2) then andthen (reg (t ! 2)) (\<lambda>y. Inr (enc_xy 0x8004 x y))
          else andthen (ranged syms resolve (t ! 2) 0xff ''byte'') (\<lambda>z. Inr (enc_x 0x7000 x OR z))))"

definition asm_alu :: "string list \<Rightarrow> nat checked" where
  "asm_alu t =
     need 3 t
       (andthen (reg (t ! 1)) (\<lambda>x. andthen (reg (t ! 2)) (\<lambda>y.
          let low = (if t ! 0 = ''OR'' then 1 else if t ! 0 = ''AND'' then 2 else if t ! 0 = ''XOR'' then 3
            else if t ! 0 = ''SUB'' then 5 else 7)
          in Inr (enc_xy 0x8000 x y OR low))))"

definition asm_shift :: "string list \<Rightarrow> nat checked" where
  "asm_shift t =
     (if length t \<noteq> 2 \<and> length t \<noteq> 3 then Inl (Operand_count (t ! 0))
      else andthen (reg (t ! 1)) (\<lambda>x. andthen (if length t = 3 then reg (t ! 2) else Inr 0) (\<lambda>y.
        Inr (enc_xy 0x8000 x y OR (if t ! 0 = ''SHR'' then 6 else 0xe)))))"

definition asm_rnd :: "symbols \<Rightarrow> bool \<Rightarrow> string list \<Rightarrow> nat checked" where
  "asm_rnd syms resolve t =
     need 3 t
       (andthen (reg (t ! 1)) (\<lambda>x.
        andthen (ranged syms resolve (t ! 2) 0xff ''byte'') (\<lambda>z. Inr (enc_x 0xc000 x OR z))))"

definition asm_drw :: "symbols \<Rightarrow> bool \<Rightarrow> string list \<Rightarrow> nat checked" where
  "asm_drw syms resolve t =
     need 4 t
       (andthen (reg (t ! 1)) (\<lambda>x. andthen (reg (t ! 2)) (\<lambda>y.
        andthen (ranged syms resolve (t ! 3) 0xf ''nibble'') (\<lambda>z. Inr (enc_xy 0xd000 x y OR z)))))"

definition instruction :: "symbols \<Rightarrow> bool \<Rightarrow> string list \<Rightarrow> nat checked" where
  "instruction syms resolve t =
     (let m = t ! 0 in
      if m = ''CLS'' then need 1 t (Inr 0x00e0)
      else if m = ''RET'' then need 1 t (Inr 0x00ee)
      else if m = ''JP'' then asm_jp syms resolve t
      else if m = ''CALL''
        then need 2 t (andthen (ranged syms resolve (t ! 1) 0xfff ''address'') (\<lambda>z. Inr (0x2000 OR z)))
      else if m = ''SE'' then asm_skip syms resolve 0x5000 0x3000 t
      else if m = ''SNE'' then asm_skip syms resolve 0x9000 0x4000 t
      else if m = ''LD'' then asm_ld syms resolve t
      else if m = ''ADD'' then asm_add syms resolve t
      else if m \<in> {''OR'', ''AND'', ''XOR'', ''SUB'', ''SUBN''} then asm_alu t
      else if m \<in> {''SHR'', ''SHL''} then asm_shift t
      else if m = ''RND'' then asm_rnd syms resolve t
      else if m = ''DRW'' then asm_drw syms resolve t
      else if m \<in> {''SKP'', ''SKNP''}
        then need 2 t (andthen (reg (t ! 1)) (\<lambda>x. Inr (enc_x (if m = ''SKP'' then 0xe09e else 0xe0a1) x)))
      else Inl (Unknown_instruction m))"

section \<open>Lines\<close>

definition word_bytes :: "nat \<Rightarrow> u8 list" where
  "word_bytes v = [of_nat (drop_bit 8 v), of_nat v]"

text \<open>The operands of \<^verbatim>\<open>.BYTE\<close> and \<^verbatim>\<open>.WORD\<close>, checked one after the other.\<close>

fun data_values :: "symbols \<Rightarrow> bool \<Rightarrow> nat \<Rightarrow> string \<Rightarrow> string list \<Rightarrow> nat list checked" where
  "data_values syms resolve bound what [] = Inr []"
| "data_values syms resolve bound what (s # ss) =
     andthen (ranged syms resolve s bound what) (\<lambda>v.
       andthen (data_values syms resolve bound what ss) (\<lambda>vs. Inr (v # vs)))"

definition org_size :: "symbols \<Rightarrow> bool \<Rightarrow> nat \<Rightarrow> string list \<Rightarrow> nat checked" where
  "org_size syms resolve pc t =
     (if length t \<noteq> 2 then Inl Org_needs_address
      else andthen (value_of syms resolve (t ! 1)) (\<lambda>p.
        if p < 0x200 \<or> p \<ge> 0x1000 then Inl Org_range
        else if p < pc then Inl Org_backwards
        else Inr (p - pc)))"

text \<open>
  \<^verbatim>\<open>line_size\<close> returns the size and fills the line's bytes; \<^verbatim>\<open>.ORG\<close> fills none (\<^verbatim>\<open>main\<close>
  writes zeros for it).
\<close>

definition line_size :: "symbols \<Rightarrow> bool \<Rightarrow> nat \<Rightarrow> string list \<Rightarrow> (nat \<times> u8 list) checked" where
  "line_size syms resolve pc t =
     (if t = [] then Inr (0, [])
      else if t ! 0 = ''.ORG'' then andthen (org_size syms resolve pc t) (\<lambda>n. Inr (n, []))
      else if t ! 0 = ''.BYTE''
        then if length t < 2 then Inl Byte_needs_value
             else andthen (data_values syms resolve 0xff ''byte'' (tl t))
               (\<lambda>vs. Inr (length t - 1, map of_nat vs))
      else if t ! 0 = ''.WORD''
        then if length t < 2 then Inl Word_needs_value
             else andthen (data_values syms resolve 0xffff ''word'' (tl t))
               (\<lambda>vs. Inr (2 * (length t - 1), concat (map word_bytes vs)))
      else andthen (instruction syms resolve t) (\<lambda>v. Inr (2, word_bytes v)))"

section \<open>The two passes\<close>

definition labelled :: "string list \<Rightarrow> bool" where
  "labelled t \<longleftrightarrow> t \<noteq> [] \<and> hd t \<noteq> [] \<and> last (hd t) = CHR '':''"

definition pass1_line :: "symbols \<Rightarrow> nat \<Rightarrow> string \<Rightarrow> (symbols \<times> nat) checked" where
  "pass1_line syms pc line =
     andthen (tokenize line) (\<lambda>t.
     andthen (if labelled t then define_label syms (butlast (hd t)) pc else Inr syms) (\<lambda>syms1.
     andthen (line_size syms1 False pc (if labelled t then tl t else t)) (\<lambda>(size, bytes).
       if pc + size > 0x1000 then Inl Program_too_big else Inr (syms1, pc + size))))"

definition pass2_line :: "symbols \<Rightarrow> nat \<Rightarrow> string \<Rightarrow> (nat \<times> u8 list) checked" where
  "pass2_line syms pc line =
     andthen (tokenize line) (\<lambda>t0.
       let t = (if labelled t0 then tl t0 else t0) in
       andthen (line_size syms True pc t) (\<lambda>(size, bytes).
         Inr (pc + size, if t \<noteq> [] \<and> t ! 0 = ''.ORG'' then replicate size 0 else take size bytes)))"

text \<open>Both passes count lines from 1 and stop at the first failing one.\<close>

fun pass1 :: "nat \<Rightarrow> symbols \<Rightarrow> nat \<Rightarrow> string list \<Rightarrow> (nat \<times> asm_error) + (symbols \<times> nat)" where
  "pass1 k syms pc [] = Inr (syms, pc)"
| "pass1 k syms pc (l # ls) =
     (case pass1_line syms pc l of
        Inl e \<Rightarrow> Inl (Suc k, e)
      | Inr (syms1, pc1) \<Rightarrow> pass1 (Suc k) syms1 pc1 ls)"

fun pass2 :: "nat \<Rightarrow> symbols \<Rightarrow> nat \<Rightarrow> string list \<Rightarrow> u8 list \<times> (nat \<times> asm_error) option" where
  "pass2 k syms pc [] = ([], None)"
| "pass2 k syms pc (l # ls) =
     (case pass2_line syms pc l of
        Inl e \<Rightarrow> ([], Some (Suc k, e))
      | Inr (pc1, bytes) \<Rightarrow> let (out, err) = pass2 (Suc k) syms pc1 ls in (bytes @ out, err))"

text \<open>\<^verbatim>\<open>main\<close> on a readable file: the bytes on standard output, and the line and reason of a failure.\<close>

definition asm_main :: "string \<Rightarrow> u8 list \<times> (nat \<times> asm_error) option" where
  "asm_main file =
     (let ls = file_lines file in
      case pass1 0 [] 0x200 ls of
        Inl e \<Rightarrow> ([], Some e)
      | Inr (syms, pc) \<Rightarrow> pass2 0 syms 0x200 ls)"

end
