(* ===== verification/C8_Asm_Props.thy ===== *)
theory C8_Asm_Props
  imports C8_Asm
begin

text \<open>
  The assembler's two passes agree: every line has the same size in both, so the addresses
  the first pass gives the labels are where the second pass puts them, the output fits the
  CHIP-8 memory, and the only failures left to the second pass are undefined symbols and
  forward references out of range.
\<close>

section \<open>Comparing the passes\<close>

primrec late :: "asm_error \<Rightarrow> bool" where
  "late Too_many_tokens = False" | "late (Invalid_label s) = False" | "late (Duplicate_label s) = False"
| "late Too_many_labels = False" | "late (Label_overflow s) = False" | "late (Number_too_large s) = False"
| "late (Undefined_symbol s) = True" | "late (Expected_register s) = False" | "late (Out_of_range s n) = True"
| "late (Operand_count s) = False" | "late Jp_needs_V0 = False" | "late (Unknown_instruction s) = False"
| "late Org_needs_address = False" | "late Org_range = False" | "late Org_backwards = False"
| "late Byte_needs_value = False" | "late Word_needs_value = False" | "late Program_too_big = False"

text \<open>If the first pass accepts, the second gives a related result or fails late.\<close>

definition rel_late :: "('a \<Rightarrow> 'b \<Rightarrow> bool) \<Rightarrow> 'a checked \<Rightarrow> 'b checked \<Rightarrow> bool" where
  "rel_late R r1 r2 \<longleftrightarrow>
     (case r1 of Inl e \<Rightarrow> True | Inr v \<Rightarrow> (case r2 of Inr v' \<Rightarrow> R v v' | Inl e \<Rightarrow> late e))"

lemma rel_late_simps [simp]:
  "rel_late R (Inl e) r" "rel_late R (Inr v) (Inr v') \<longleftrightarrow> R v v'" "rel_late R (Inr v) (Inl e) \<longleftrightarrow> late e"
  by (simp_all add: rel_late_def)

lemma rel_late_Inl [simp]: "late e \<Longrightarrow> rel_late R r (Inl e)"
  by (cases r) simp_all

lemma rel_late_andthen:
  assumes "rel_late R r1 r2" "\<And>v v'. R v v' \<Longrightarrow> rel_late S (f v) (g v')"
  shows "rel_late S (andthen r1 f) (andthen r2 g)"
  using assms by (cases r1; cases r2) auto

lemma rel_late_same:
  assumes "\<And>v. rel_late S (f v) (g v)"
  shows "rel_late S (andthen r f) (andthen r g)"
  using assms by (cases r) auto

lemma rel_late_weaken: "rel_late R r1 r2 \<Longrightarrow> (\<And>v v'. R v v' \<Longrightarrow> S v v') \<Longrightarrow> rel_late S r1 r2"
  by (auto simp: rel_late_def split: sum.splits)

abbreviation both :: "'a checked \<Rightarrow> 'b checked \<Rightarrow> bool" where
  "both \<equiv> rel_late (\<lambda>_ _. True)"

lemma both_refl [simp]: "both r r"
  by (cases r) simp_all

lemma both_value_of:
  assumes "lookup s1 \<subseteq>\<^sub>m lookup s2"
  shows "both (value_of s1 False x) (value_of s2 True x)"
  by (auto simp: value_of_def rel_late_def Let_def split: prod.splits option.splits sum.splits)

lemma both_ranged: "lookup s1 \<subseteq>\<^sub>m lookup s2 \<Longrightarrow> both (ranged s1 False x b w) (ranged s2 True x b w)"
  unfolding ranged_def using both_value_of [of s1 s2 x]
  by (cases "value_of s1 False x"; cases "value_of s2 True x") auto

lemma both_need: "both r1 r2 \<Longrightarrow> both (need k t r1) (need k t r2)"
  by (simp add: need_def)

lemma both_if: "(c \<Longrightarrow> both a1 a2) \<Longrightarrow> (\<not> c \<Longrightarrow> both b1 b2) \<Longrightarrow> both (if c then a1 else b1) (if c then a2 else b2)"
  by simp

lemmas both_intros = both_need both_if rel_late_same rel_late_andthen [where R = "\<lambda>_ _. True"] both_ranged

lemma both_instruction:
  assumes "lookup s1 \<subseteq>\<^sub>m lookup s2"
  shows "both (instruction s1 False t) (instruction s2 True t)"
  unfolding instruction_def asm_jp_def asm_skip_def asm_ld_def asm_add_def asm_rnd_def asm_drw_def Let_def
  using assms by (intro both_intros) simp_all

lemma both_data_values:
  assumes "lookup s1 \<subseteq>\<^sub>m lookup s2"
  shows "rel_late (\<lambda>vs vs'. length vs = length ss \<and> length vs' = length ss)
    (data_values s1 False b w ss) (data_values s2 True b w ss)"
proof (induction ss)
  case (Cons s ss)
  show ?case
    by (simp, rule rel_late_andthen [OF both_ranged [OF assms]], rule rel_late_andthen [OF Cons]) simp
qed simp

text \<open>A forward reference in \<^verbatim>\<open>.ORG\<close> is 0 in the first pass, which refuses it.\<close>

lemma same_org_size:
  assumes "lookup s1 \<subseteq>\<^sub>m lookup s2"
  shows "rel_late (=) (org_size s1 False pc t) (org_size s2 True pc t)"
proof -
  have "value_of s2 True x = Inr v" if "value_of s1 False x = Inr v" "v \<noteq> 0" for x v
    using that assms
    by (auto simp: value_of_def Let_def map_le_def dom_def split: prod.splits if_splits option.splits)
  then show ?thesis
    by (cases "value_of s1 False (t ! 1)") (auto simp: org_size_def)
qed

lemma same_line_size:
  assumes "lookup s1 \<subseteq>\<^sub>m lookup s2"
  shows "rel_late (\<lambda>(n, bs) (n', bs'). n = n' \<and> (t = [] \<or> t ! 0 \<noteq> ''.ORG'' \<longrightarrow> length bs' = n))
    (line_size s1 False pc t) (line_size s2 True pc t)"
proof -
  have words: "length (concat (map word_bytes vs)) = 2 * length vs" for vs
    by (induction vs) (simp_all add: word_bytes_def)
  have "rel_late (\<lambda>(n, bs) (n', bs'). n = n' \<and> (t = [] \<or> t ! 0 \<noteq> ''.ORG'' \<longrightarrow> length bs' = n))
      (andthen (org_size s1 False pc t) (\<lambda>n. Inr (n, [])))
      (andthen (org_size s2 True pc t) (\<lambda>n. Inr (n, [])))" if "t \<noteq> []" "t ! 0 = ''.ORG''"
    by (rule rel_late_andthen [OF same_org_size [OF assms]]) (use that in simp)
  then show ?thesis
    unfolding line_size_def
    by (auto intro!: rel_late_andthen [OF both_data_values [OF assms]] rel_late_andthen [OF both_instruction [OF assms]]
        simp: words word_bytes_def)
qed

section \<open>Symbols\<close>

lemma define_label_Inr:
  assumes "define_label syms name v = Inr syms'"
  shows "lookup syms name = None" "syms' = syms @ [(name, v)]" "lookup syms' name = Some v"
    "lookup syms \<subseteq>\<^sub>m lookup syms'" "is_name name" "length name < 128" "length syms' \<le> 2048 \<or> 2048 < length syms"
  using assms by (auto simp: define_label_def lookup_def map_le_def map_add_def MAX_SYMBOLS_def split: if_splits)

lemma pass1_line_Inr:
  assumes "pass1_line syms pc l = Inr (syms1, pc1)"
  obtains t n bs where "tokenize l = Inr t"
    "if labelled t then define_label syms (butlast (hd t)) pc = Inr syms1 else syms1 = syms"
    "line_size syms1 False pc (if labelled t then tl t else t) = Inr (n, bs)"
    "pc1 = pc + n" "pc1 \<le> 0x1000"
proof -
  obtain t where t: "tokenize l = Inr t" using assms by (cases "tokenize l") (auto simp: pass1_line_def)
  obtain s where s: "(if labelled t then define_label syms (butlast (hd t)) pc else Inr syms) = Inr s"
    using assms t by (cases "if labelled t then define_label syms (butlast (hd t)) pc else Inr syms")
      (auto simp: pass1_line_def)
  obtain n bs where n: "line_size s False pc (if labelled t then tl t else t) = Inr (n, bs)"
    using assms t s by (cases "line_size s False pc (if labelled t then tl t else t)") (auto simp: pass1_line_def)
  have "s = syms1" "pc1 = pc + n" "pc1 \<le> 0x1000"
    using assms t s n by (auto simp: pass1_line_def split: if_splits)
  then show ?thesis using that [OF t] s n by (auto split: if_splits)
qed

lemma pass1_line_mono:
  assumes "pass1_line syms pc l = Inr (syms1, pc1)"
  shows "lookup syms \<subseteq>\<^sub>m lookup syms1" "pc \<le> pc1" "pc1 \<le> 0x1000"
  using assms by (auto elim!: pass1_line_Inr dest: define_label_Inr split: if_splits)

lemma pass1_mono:
  "pass1 k syms pc ls = Inr (symsF, pcF) \<Longrightarrow> pc \<le> 0x1000 \<Longrightarrow>
   lookup syms \<subseteq>\<^sub>m lookup symsF \<and> pc \<le> pcF \<and> pcF \<le> 0x1000"
proof (induction ls arbitrary: k syms pc)
  case (Cons l ls)
  obtain syms1 pc1 where l: "pass1_line syms pc l = Inr (syms1, pc1)"
    using Cons.prems by (auto split: sum.splits)
  note m = pass1_line_mono [OF l]
  have "lookup syms1 \<subseteq>\<^sub>m lookup symsF \<and> pc1 \<le> pcF \<and> pcF \<le> 0x1000"
    using Cons.IH [of "Suc k" syms1 pc1] Cons.prems l m by simp
  then show ?case using m map_le_trans by fastforce
qed simp

section \<open>Agreement\<close>

lemma pass2_line_agrees:
  assumes "pass1_line syms pc l = Inr (syms1, pc1)" "lookup syms1 \<subseteq>\<^sub>m lookup symsF"
  shows "case pass2_line symsF pc l of
      Inl e \<Rightarrow> late e | Inr (pc', bytes) \<Rightarrow> pc' = pc1 \<and> length bytes = pc1 - pc"
proof -
  obtain t n bs where t: "tokenize l = Inr t"
    "line_size syms1 False pc (if labelled t then tl t else t) = Inr (n, bs)" "pc1 = pc + n"
    using assms(1) by (rule pass1_line_Inr)
  then show ?thesis
    using same_line_size [OF assms(2), of "if labelled t then tl t else t" pc]
    by (cases "line_size symsF True pc (if labelled t then tl t else t)") (auto simp: pass2_line_def Let_def)
qed

lemma pass2_agrees:
  assumes "pass1 k syms pc ls = Inr (symsF, pcF)" "pc \<le> 0x1000" "lookup symsF \<subseteq>\<^sub>m lookup symsX"
  shows "case pass2 k symsX pc ls of
      (out, None) \<Rightarrow> length out = pcF - pc
    | (out, Some (j, e)) \<Rightarrow> length out \<le> pcF - pc \<and> late e \<and> k < j \<and> j \<le> k + length ls"
  using assms(1,2)
proof (induction ls arbitrary: k syms pc)
  case (Cons l ls)
  obtain syms1 pc1 where l: "pass1_line syms pc l = Inr (syms1, pc1)"
    using Cons.prems by (auto split: sum.splits)
  note m = pass1_line_mono [OF l]
  have rest: "pass1 (Suc k) syms1 pc1 ls = Inr (symsF, pcF)" using Cons.prems l by simp
  note mF = pass1_mono [OF rest m(3)]
  then have le: "lookup syms1 \<subseteq>\<^sub>m lookup symsX" using assms(3) map_le_trans by blast
  show ?case
  proof (cases "pass2_line symsX pc l")
    case (Inl e)
    then show ?thesis using pass2_line_agrees [OF l le] by simp
  next
    case (Inr r)
    then obtain bytes where r: "pass2_line symsX pc l = Inr (pc1, bytes)" "length bytes = pc1 - pc"
      using pass2_line_agrees [OF l le] by (cases r) auto
    show ?thesis
      using Cons.IH [OF rest m(3)] r m mF by (auto split: prod.splits option.splits)
  qed
qed simp

lemma pass1_append:
  "pass1 k syms pc (xs @ ys) =
    (case pass1 k syms pc xs of Inl e \<Rightarrow> Inl e | Inr (s, p) \<Rightarrow> pass1 (k + length xs) s p ys)"
  by (induction xs arbitrary: k syms pc) (auto split: sum.splits)

lemma pass2_append:
  assumes "pass2 k syms pc (xs @ ys) = (out, None)"
  shows "\<exists>out1 out2. out = out1 @ out2 \<and> pass2 k syms pc xs = (out1, None)"
  using assms
proof (induction xs arbitrary: k pc out)
  case (Cons x xs)
  then obtain pc1 bytes out' where x: "pass2_line syms pc x = Inr (pc1, bytes)"
    "pass2 (Suc k) syms pc1 (xs @ ys) = (out', None)" "out = bytes @ out'"
    by (auto split: sum.splits prod.splits)
  from Cons.IH [OF x(2)] obtain out1 out2 where "out' = out1 @ out2" "pass2 (Suc k) syms pc1 xs = (out1, None)" by blast
  with x show ?case by (intro exI [of _ "bytes @ out1"] exI [of _ out2]) simp
qed simp

lemma label_address:
  assumes p1: "pass1 0 [] 0x200 (pre @ l # post) = Inr (syms, pcF)"
    and p2: "pass2 0 syms 0x200 (pre @ l # post) = (out, None)"
    and t: "tokenize l = Inr t" "labelled t"
  shows "\<exists>out1 out2. out = out1 @ out2 \<and> pass2 0 syms 0x200 pre = (out1, None) \<and>
    lookup syms (butlast (hd t)) = Some (0x200 + length out1)"
proof -
  obtain s p where pre: "pass1 0 [] 0x200 pre = Inr (s, p)"
    "pass1 (length pre) s p (l # post) = Inr (syms, pcF)"
    using p1 by (auto simp: pass1_append split: sum.splits)
  then have p: "0x200 \<le> p" "p \<le> 0x1000" using pass1_mono [OF pre(1)] by simp_all
  obtain syms1 pc1 where l: "pass1_line s p l = Inr (syms1, pc1)" "pass1 (Suc (length pre)) syms1 pc1 post = Inr (syms, pcF)"
    using pre(2) by (auto split: sum.splits)
  have d: "lookup syms1 (butlast (hd t)) = Some p"
    using l(1) t by (auto elim!: pass1_line_Inr dest: define_label_Inr)
  have le: "lookup s \<subseteq>\<^sub>m lookup syms" and "lookup syms1 \<subseteq>\<^sub>m lookup syms"
    using pass1_mono [OF pre(2) p(2)] pass1_mono [OF l(2)] pass1_line_mono [OF l(1)] by simp_all
  then have lab: "lookup syms (butlast (hd t)) = Some p"
    using d by (auto simp: map_le_def dom_def)
  obtain out1 out2 where o: "out = out1 @ out2" "pass2 0 syms 0x200 pre = (out1, None)"
    using pass2_append [OF p2] by blast
  have "length out1 = p - 0x200"
    using pass2_agrees [OF pre(1), of syms] le o(2) by simp
  with o lab p show ?thesis by auto
qed

end
