(* ===== verification/C8_Asm_Thms.thy ===== *)
theory C8_Asm_Thms
  imports C8_Asm_Props
begin

text \<open>
  The properties of the assembler.
\<close>

section \<open>Sizes\<close>

lemma tokens_from_length:
  "tokens_from k cs = Inr ts \<Longrightarrow> k \<le> MAX_TOKENS \<Longrightarrow> length ts + k \<le> MAX_TOKENS"
proof (induction k cs arbitrary: ts rule: tokens_from.induct)
  case (2 k c cs)
  then show ?case
    by (cases "tokens_from (Suc k) (tl (dropWhile token_char (c # cs)))") (auto split: if_splits)
qed simp

lemma tokenize_length: "tokenize line = Inr t \<Longrightarrow> length t \<le> MAX_TOKENS"
  using tokens_from_length [of 0 line] by (cases "tokens_from 0 line") (auto simp: tokenize_def)

lemma andthen_Inr: "andthen x f = Inr y \<longleftrightarrow> (\<exists>v. x = Inr v \<and> f v = Inr y)"
  by (cases x) auto

lemma data_values_length: "data_values syms r b w ss = Inr vs \<Longrightarrow> length vs = length ss"
  by (induction ss arbitrary: vs) (auto simp: andthen_Inr)

lemma concat_word_bytes: "length (concat (map word_bytes vs)) = 2 * length vs"
  by (induction vs) (simp_all add: word_bytes_def)

section \<open>Properties\<close>

text \<open>
  C24: Once the first pass has accepted a file, the second writes exactly the bytes the first
  one counted, unless a symbol is undefined or a forward reference is out of range, the only
  failures left; then it has written a prefix no longer than that.
\<close>

theorem second_pass_agrees:
  assumes "pass1 0 [] 0x200 (file_lines file) = Inr (syms, pc)"
  shows "(snd (asm_main file) = None \<and> length (fst (asm_main file)) = pc - 0x200 \<or>
      (\<exists>j e. snd (asm_main file) = Some (j, e) \<and> late e \<and> 0 < j \<and> j \<le> length (file_lines file) \<and>
        length (fst (asm_main file)) \<le> pc - 0x200)) \<and>
    0x200 \<le> pc \<and> pc \<le> 0x1000"
  using pass2_agrees [OF assms _ map_le_refl] pass1_mono [OF assms] assms
  by (auto simp: asm_main_def split: prod.splits option.splits)

lemma file_lines_cls: "file_lines ''CLS'' = [''CLS'']"
  by (simp add: file_lines.simps MAX_LINE_def numeral_eq_Suc)

lemma tokenize_cls: "tokenize ''CLS'' = Inr [''CLS'']"
  by (simp add: tokenize_def comment_char_def isspace_def token_char_def code_def MAX_TOKENS_def toupper_def islower_def)

lemma pass1_cls: "pass1 0 [] 0x200 (file_lines ''CLS'') = Inr ([], 0x202)"
  by (simp add: file_lines_cls pass1_line_def tokenize_cls labelled_def line_size_def instruction_def need_def)

lemma second_pass_agrees_witness:
  "snd (asm_main ''CLS'') = None \<and> length (fst (asm_main ''CLS'')) = 2 \<or>
    (\<exists>j e. snd (asm_main ''CLS'') = Some (j, e) \<and> late e)"
  using second_pass_agrees [OF pass1_cls] by auto

text \<open>
  C26: A label stands for the address where its line's bytes end up: \<^verbatim>\<open>0x200\<close> plus the number
  of bytes written for the lines before it.
\<close>

theorem label_is_address:
  assumes "file_lines file = pre @ l # post" "tokenize l = Inr t" "labelled t"
    and "pass1 0 [] 0x200 (file_lines file) = Inr (syms, pc)" "asm_main file = (out, None)"
  shows "\<exists>out1 out2. out = out1 @ out2 \<and> pass2 0 syms 0x200 pre = (out1, None) \<and>
    lookup syms (butlast (hd t)) = Some (0x200 + length out1)"
  by (rule label_address [of pre l post]) (use assms in \<open>simp_all add: asm_main_def\<close>)

lemma label_is_address_witness:
  "lookup [(''A'', 0x200)] (butlast ''A:'') = Some (0x200 :: nat)"
proof -
  have f: "file_lines ''A:'' = [] @ ''A:'' # []" by (simp add: file_lines.simps MAX_LINE_def numeral_eq_Suc)
  have t: "tokenize ''A:'' = Inr [''A:'']"
    by (simp add: tokenize_def comment_char_def isspace_def token_char_def code_def MAX_TOKENS_def toupper_def islower_def)
  have p: "pass1 0 [] 0x200 (file_lines ''A:'') = Inr ([(''A'', 0x200)], 0x200)"
    by (simp add: f pass1_line_def t labelled_def line_size_def define_label_def is_name_def isalpha_def isupper_def
        code_def lookup_def MAX_SYMBOLS_def)
  have "asm_main ''A:'' = ([], None)"
    unfolding asm_main_def Let_def p by (simp add: f pass2_line_def t labelled_def line_size_def)
  from label_is_address [OF f t _ p this] show ?thesis by (auto simp: labelled_def)
qed

text \<open>
  C39: Whatever the file, the output fits the memory above \<^verbatim>\<open>0x200\<close>, and no line fills more
  than the 520 bytes of \<^verbatim>\<open>main\<close>'s line buffer.
\<close>

theorem assembler_bounds:
  "length (fst (asm_main file)) \<le> 0xE00 \<and>
   (tokenize line = Inr t \<longrightarrow> line_size syms r pc (if labelled t then tl t else t) = Inr (n, bs) \<longrightarrow>
     length bs \<le> 2 * MAX_TOKENS)"
proof -
  have out: "length (fst (asm_main file)) \<le> 0xE00"
  proof (cases "pass1 0 [] 0x200 (file_lines file)")
    case (Inr r)
    then obtain syms p where p: "pass1 0 [] 0x200 (file_lines file) = Inr (syms, p)" by (cases r) simp
    show ?thesis
      using pass2_agrees [OF p _ map_le_refl] pass1_mono [OF p] p
      by (auto simp: asm_main_def split: prod.splits option.splits)
  qed (simp add: asm_main_def)
  have "length bs \<le> 2 * MAX_TOKENS" if l: "length u \<le> MAX_TOKENS" and s: "line_size syms r pc u = Inr (n, bs)" for u
    using s l by (auto simp: line_size_def andthen_Inr concat_word_bytes word_bytes_def MAX_TOKENS_def
        dest!: data_values_length split: if_splits)
  note buffer = this
  have "length bs \<le> 2 * MAX_TOKENS" if "tokenize line = Inr t"
    "line_size syms r pc (if labelled t then tl t else t) = Inr (n, bs)"
  proof (rule buffer [OF _ that(2)])
    show "length (if labelled t then tl t else t) \<le> MAX_TOKENS"
      using tokenize_length [OF that(1)] by auto
  qed
  then show ?thesis using out by blast
qed

lemma assembler_bounds_witness:
  "length (word_bytes 0xE0) \<le> 2 * MAX_TOKENS"
  using assembler_bounds [of "''CLS''" "''CLS''" "[''CLS'']" "[]" False "0x200" 2 "word_bytes 0xE0"]
  by (simp add: tokenize_cls labelled_def line_size_def instruction_def need_def)



end
