(* ===== verification/C8_Disas.thy ===== *)
theory C8_Disas
  imports C8_Prelude "HOL-Library.Char_ord"
begin

text \<open>
  The disassembler \<^verbatim>\<open>disas.c\<close>: leader analysis, recursive descent from the entry point,
  gluing of unreachable regions, the region report and the two text formats. The arrays
  \<^verbatim>\<open>leader\<close>, \<^verbatim>\<open>reach\<close> and \<^verbatim>\<open>class\<close> are functions of the address; a push beyond the end
  of the C array \<^verbatim>\<open>stack\<close> is the result \<open>None\<close>.
\<close>

section \<open>State\<close>

record disas =
  leader :: "nat \<Rightarrow> bool"
  reach :: "nat \<Rightarrow> bool"
  cls :: "nat \<Rightarrow> nat"
  smc_possible :: bool
  indirect_jump_seen :: bool

definition disas_init :: disas where
  "disas_init = \<lparr>leader = (\<lambda>_. False), reach = (\<lambda>_. False), cls = (\<lambda>_. 0),
     smc_possible = False, indirect_jump_seen = False\<rparr>"

text \<open>\<^verbatim>\<open>memory\<close> after \<^verbatim>\<open>fread\<close>: the ROM, at most 3584 bytes of it, at \<^verbatim>\<open>0x200\<close>.\<close>

definition disas_memory :: "u8 list \<Rightarrow> u8 list" where
  "disas_memory rom = replicate 0x200 0 @ rom @ replicate (0xE00 - length rom) 0"

definition word_at :: "u8 list \<Rightarrow> nat \<Rightarrow> u16" where
  "word_at m pc = push_bit 8 (ucast (m ! pc)) OR ucast (m ! (pc + 1))"

text \<open>The fields of an opcode: \<^verbatim>\<open>op >> 12\<close>, x, y, n, kk and nnn.\<close>

definition op_k :: "u16 \<Rightarrow> nat" where "op_k opc = unat (drop_bit 12 opc)"
definition fx :: "u16 \<Rightarrow> nat" where "fx opc = unat (drop_bit 8 opc AND 0xF)"
definition fy :: "u16 \<Rightarrow> nat" where "fy opc = unat (drop_bit 4 opc AND 0xF)"
definition fn :: "u16 \<Rightarrow> nat" where "fn opc = unat (opc AND 0xF)"
definition fkk :: "u16 \<Rightarrow> nat" where "fkk opc = unat (opc AND 0xFF)"
definition fnnn :: "u16 \<Rightarrow> nat" where "fnnn opc = unat (opc AND 0xFFF)"

definition valid_opcode :: "u16 \<Rightarrow> bool" where
  "valid_opcode opc \<longleftrightarrow>
     (if opc = 0x00e0 \<or> opc = 0x00ee then True
      else if op_k opc = 0x0 then False
      else if op_k opc = 0x5 \<or> op_k opc = 0x9 then fn opc = 0
      else if op_k opc = 0x8 then fn opc \<le> 7 \<or> fn opc = 0xe
      else if op_k opc = 0xe then fkk opc = 0x9e \<or> fkk opc = 0xa1
      else if op_k opc = 0xf then fkk opc \<in> {0x07, 0x0a, 0x15, 0x18, 0x1e, 0x29, 0x33, 0x55, 0x65}
      else True)"

definition labelable :: "nat \<Rightarrow> nat \<Rightarrow> bool" where
  "labelable addr sz \<longleftrightarrow> 0x200 \<le> addr \<and> addr + 1 < 0x200 + sz \<and> addr AND 1 = 0"

section \<open>Leaders\<close>

text \<open>The loop \<^verbatim>\<open>for (pc = ENTRYPOINT; pc + 1 < end; pc += 2)\<close>.\<close>

definition word_addrs :: "nat \<Rightarrow> nat list" where
  "word_addrs sz = map (\<lambda>i. 0x200 + 2 * i) [0..<sz div 2]"

definition set_leader :: "nat \<Rightarrow> disas \<Rightarrow> disas" where
  "set_leader a s = s\<lparr>leader := (leader s)(a := True)\<rparr>"

definition set_leader_if :: "bool \<Rightarrow> nat \<Rightarrow> disas \<Rightarrow> disas" where
  "set_leader_if c a s = (if c then set_leader a s else s)"

definition analyze_word :: "u8 list \<Rightarrow> nat \<Rightarrow> nat \<Rightarrow> disas \<Rightarrow> disas" where
  "analyze_word m sz pc s =
     (let ende = 0x200 + sz; opc = word_at m pc; k = op_k opc; nnn = fnnn opc;
          skip = (k = 0x3 \<or> k = 0x4 \<or> (k = 0x5 \<or> k = 0x9) \<and> fn opc = 0 \<or>
                  k = 0xe \<and> (fkk opc = 0x9e \<or> fkk opc = 0xa1));
          ends_block = (opc = 0x00ee \<or> k = 0x1 \<or> k = 0xb);
          s1 = set_leader_if ((k = 0x1 \<or> k = 0x2) \<and> labelable nnn sz) nnn s;
          s2 = (if skip
                then set_leader_if (pc + 4 < ende) (pc + 4) (set_leader_if (pc + 2 < ende) (pc + 2) s1)
                else s1)
      in set_leader_if (ends_block \<and> pc + 2 < ende) (pc + 2) s2)"

definition analyze :: "u8 list \<Rightarrow> nat \<Rightarrow> disas \<Rightarrow> disas" where
  "analyze m sz s = fold (analyze_word m sz) (word_addrs sz) (set_leader 0x200 s)"

section \<open>Recursive descent\<close>

definition mark_data :: "nat \<Rightarrow> nat \<Rightarrow> nat \<Rightarrow> disas \<Rightarrow> disas" where
  "mark_data addr len sz =
     fold (\<lambda>a s. if a < 0x1000 \<and> cls s a \<noteq> 1 then s\<lparr>cls := (cls s)(a := 2)\<rparr> else s)
       [addr..<min (addr + len) (0x200 + sz)]"

definition note_write :: "nat option \<Rightarrow> nat \<Rightarrow> disas \<Rightarrow> disas" where
  "note_write ldi len s =
     (case ldi of
        None \<Rightarrow> s\<lparr>smc_possible := True\<rparr>
      | Some addr \<Rightarrow>
          fold (\<lambda>a s. if reach s a then s\<lparr>smc_possible := True\<rparr> else s)
            [addr..<min (addr + len) 0x1000] s)"

text \<open>
  What the instruction at \<open>pc\<close> does to the classification, given the last \<^verbatim>\<open>LD I\<close> on the
  path; the addresses it pushes; whether the path goes on with the next word.
\<close>

definition mark_code :: "nat \<Rightarrow> disas \<Rightarrow> disas" where
  "mark_code pc s = s\<lparr>reach := (reach s)(pc := True, pc + 1 := True),
     cls := (cls s)(pc := 1, pc + 1 := 1)\<rparr>"

definition mark_ldi :: "nat option \<Rightarrow> nat \<Rightarrow> nat \<Rightarrow> disas \<Rightarrow> disas" where
  "mark_ldi ldi len sz s = (case ldi of None \<Rightarrow> s | Some a \<Rightarrow> mark_data a len sz s)"

definition note_effects :: "nat option \<Rightarrow> nat \<Rightarrow> u16 \<Rightarrow> disas \<Rightarrow> disas" where
  "note_effects ldi sz opc s =
     (let k = op_k opc; kk = fkk opc in
      if k = 0xb then s\<lparr>indirect_jump_seen := True\<rparr>
      else if k = 0xd then mark_ldi ldi (fn opc) sz s
      else if k = 0xf then
        if kk = 0x33 then mark_ldi ldi 3 sz (note_write ldi 3 s)
        else if kk = 0x55 then mark_ldi ldi (fx opc + 1) sz (note_write ldi (fx opc + 1) s)
        else if kk = 0x65 then mark_ldi ldi (fx opc + 1) sz s
        else s
      else s)"

definition pushes :: "nat \<Rightarrow> nat \<Rightarrow> u16 \<Rightarrow> nat list" where
  "pushes sz pc opc =
     (let k = op_k opc in
      if k \<in> {0x1, 0x2, 0xb} then (if labelable (fnnn opc) sz then [fnnn opc] else [])
      else if k \<in> {0x3, 0x4, 0x5, 0x9, 0xe} then (if pc + 4 < 0x200 + sz then [pc + 4] else [])
      else [])"

definition falls_through :: "u16 \<Rightarrow> bool" where
  "falls_through opc \<longleftrightarrow> \<not> (opc = 0x00ee \<or> op_k opc = 0x1 \<or> op_k opc = 0xb)"

definition next_ldi :: "nat option \<Rightarrow> u16 \<Rightarrow> nat option" where
  "next_ldi ldi opc = (if op_k opc = 0xa then Some (fnnn opc) else ldi)"

text \<open>The size of the C array \<^verbatim>\<open>stack\<close>, and a push onto it.\<close>

definition WORK_SIZE :: nat where "WORK_SIZE = 0x1000 div 2"

definition push_all :: "nat list \<Rightarrow> nat list \<Rightarrow> nat list option" where
  "push_all as st = (if length st + length as \<le> WORK_SIZE then Some (rev as @ st) else None)"

lemma reach_marks [simp]:
  "reach (mark_data a len sz s) = reach s" "reach (note_write ldi len s) = reach s"
  "reach (mark_ldi ldi len sz s) = reach s" "reach (note_effects ldi sz opc s) = reach s"
proof -
  have data: "reach (fold (\<lambda>a s. if a < 0x1000 \<and> cls s a \<noteq> 1 then s\<lparr>cls := (cls s)(a := 2)\<rparr> else s) as s) = reach s"
    for "as" and s :: disas
    by (induction "as" arbitrary: s) auto
  then show d: "reach (mark_data a len sz s) = reach s" for a len s
    by (simp add: mark_data_def)
  have "reach (fold (\<lambda>a s. if reach s a then s\<lparr>smc_possible := True\<rparr> else s) as s) = reach s"
    for "as" and s :: disas
    by (induction "as" arbitrary: s) auto
  then show w: "reach (note_write ldi len s) = reach s" for len s
    by (simp add: note_write_def split: option.split)
  show l: "reach (mark_ldi ldi len sz s) = reach s" for len s
    by (simp add: mark_ldi_def d split: option.split)
  show "reach (note_effects ldi sz opc s) = reach s"
    by (simp add: note_effects_def Let_def w l)
qed

definition unreached :: "nat \<Rightarrow> disas \<Rightarrow> nat set" where
  "unreached sz s = {a. a < 0x200 + sz \<and> \<not> reach s a}"

lemma unreached_finite [simp]: "finite (unreached sz s)"
  by (simp add: unreached_def)

lemma unreached_step:
  assumes "pc + 1 < 0x200 + sz" "\<not> reach s pc" "reach s' = (reach s)(pc := True, pc + 1 := True)"
  shows "card (unreached sz s') < card (unreached sz s)"
proof -
  have "unreached sz s' \<subseteq> unreached sz s - {pc}"
    unfolding unreached_def assms(3) by (auto split: if_splits)
  then have "card (unreached sz s') \<le> card (unreached sz s - {pc})" by (rule card_mono [rotated]) simp
  also have "\<dots> < card (unreached sz s)"
    by (rule card_Diff1_less) (use assms in \<open>simp_all add: unreached_def\<close>)
  finally show ?thesis .
qed

text \<open>The inner loop, along one path; then the outer loop over the stack.\<close>

function walk :: "u8 list \<Rightarrow> nat \<Rightarrow> nat \<Rightarrow> nat option \<Rightarrow> nat list \<Rightarrow> disas \<Rightarrow> (nat list \<times> disas) option" where
  "walk m sz pc ldi st s =
     (if pc + 1 < 0x200 + sz \<and> \<not> reach s pc \<and> valid_opcode (word_at m pc)
      then
        let opc = word_at m pc;
            s1 = note_effects ldi sz opc (mark_code pc s)
        in case push_all (pushes sz pc opc) st of
             None \<Rightarrow> None
           | Some st1 \<Rightarrow>
               if falls_through opc then walk m sz (pc + 2) (next_ldi ldi opc) st1 s1
               else Some (st1, s1)
      else Some (st, s))"
  by pat_completeness auto
termination
proof (relation "measure (\<lambda>(m, sz, pc, ldi, st, s). card (unreached sz s))", simp, goal_cases)
  case (1 m sz pc ldi st s opc s1 st1)
  then show ?case using unreached_step [of pc sz s s1] by (simp add: mark_code_def)
qed

declare walk.simps [simp del]

lemma length_pushes: "length (pushes sz pc opc) \<le> 1"
  by (simp add: pushes_def Let_def)

lemma walk_measure:
  "walk m sz pc ldi st s = Some (st', s') \<Longrightarrow>
   2 * card (unreached sz s') + length st' \<le> 2 * card (unreached sz s) + length st"
proof (induction m sz pc ldi st s rule: walk.induct)
  case (1 m sz pc ldi st s)
  let ?opc = "word_at m pc" and ?s1 = "note_effects ldi sz (word_at m pc) (mark_code pc s)"
  show ?case
  proof (cases "pc + 1 < 0x200 + sz \<and> \<not> reach s pc \<and> valid_opcode ?opc")
    case True
    obtain st1 where st1: "push_all (pushes sz pc ?opc) st = Some st1"
      using 1(2) True by (subst (asm) walk.simps) (auto simp: Let_def split: option.splits)
    have less: "card (unreached sz ?s1) < card (unreached sz s)"
      by (rule unreached_step) (use True in \<open>simp_all add: mark_code_def\<close>)
    have len: "length st1 \<le> length st + 1"
      using st1 length_pushes [of sz pc ?opc] by (auto simp: push_all_def split: if_splits)
    show ?thesis
    proof (cases "falls_through ?opc")
      case ft: True
      then have "walk m sz (pc + 2) (next_ldi ldi ?opc) st1 ?s1 = Some (st', s')"
        using 1(2) True st1 by (subst (asm) walk.simps) (simp add: Let_def)
      from 1(1) [OF True refl refl st1 ft this] less len show ?thesis by linarith
    next
      case False
      then have "st' = st1" "s' = ?s1"
        using 1(2) True st1 by (subst (asm) walk.simps; simp add: Let_def)+
      then show ?thesis using less len by simp
    qed
  next
    case False
    then show ?thesis using 1(2) by (subst (asm) walk.simps) auto
  qed
qed

function descend_loop :: "u8 list \<Rightarrow> nat \<Rightarrow> nat list \<Rightarrow> disas \<Rightarrow> disas option" where
  "descend_loop m sz [] s = Some s"
| "descend_loop m sz (pc # st) s =
     (case walk m sz pc None st s of
        None \<Rightarrow> None
      | Some (st1, s1) \<Rightarrow> descend_loop m sz st1 s1)"
  by pat_completeness auto
termination
proof (relation "measure (\<lambda>(m, sz, st, s). 2 * card (unreached sz s) + length st)", simp, goal_cases)
  case (1 m sz pc st s x st1 s1)
  then show ?case using walk_measure [of m sz pc None st s st1 s1] by (cases x) simp
qed

definition descend :: "u8 list \<Rightarrow> nat \<Rightarrow> disas \<Rightarrow> disas option" where
  "descend m sz s = descend_loop m sz [0x200] s"

section \<open>Gluing\<close>

text \<open>
  The maximal run of unreachable bytes from \<open>pc\<close> on keeps at most the label at its start.
\<close>

definition run_end :: "(nat \<Rightarrow> bool) \<Rightarrow> nat \<Rightarrow> nat \<Rightarrow> nat" where
  "run_end P ende pc = pc + length (takeWhile P [pc..<ende])"

definition glue_run :: "nat \<Rightarrow> nat \<Rightarrow> nat \<Rightarrow> disas \<Rightarrow> disas" where
  "glue_run sz start stop s =
     (let s1 = set_leader_if (labelable start sz) start s
      in s1\<lparr>leader := fold (\<lambda>a l. l(a := False)) [start + 1..<stop] (leader s1)\<rparr>)"

lemma run_end_progress: "pc < ende \<Longrightarrow> P pc \<Longrightarrow> pc < run_end P ende pc"
  by (simp add: run_end_def upt_conv_Cons)

lemma run_end_le: "pc \<le> ende \<Longrightarrow> run_end P ende pc \<le> ende"
  using length_takeWhile_le [of P "[pc..<ende]"] by (simp add: run_end_def)

function glue_from :: "nat \<Rightarrow> nat \<Rightarrow> disas \<Rightarrow> disas" where
  "glue_from sz pc s =
     (if pc < 0x200 + sz
      then if reach s pc then glue_from sz (pc + 1) s
           else let stop = run_end (\<lambda>a. \<not> reach s a) (0x200 + sz) pc
                in glue_from sz stop (glue_run sz pc stop s)
      else s)"
  by pat_completeness auto
termination
proof (relation "measure (\<lambda>(sz, pc, s). 0x200 + sz - pc)", simp, simp, goal_cases)
  case (1 sz pc s x)
  then show ?case using run_end_progress [of pc "0x200 + sz" "\<lambda>a. \<not> reach s a"] by simp
qed

declare glue_from.simps [simp del]

definition glue_unreachable :: "nat \<Rightarrow> disas \<Rightarrow> disas" where
  "glue_unreachable sz s = glue_from sz 0x200 s"

text \<open>Without \<^verbatim>\<open>--decode-unreachable\<close> the bytes that are neither code nor data become data.\<close>

definition default_data :: "nat \<Rightarrow> disas \<Rightarrow> disas" where
  "default_data sz s =
     fold (\<lambda>a s. if cls s a = 0 then s\<lparr>cls := (cls s)(a := 2)\<rparr> else s)
       [0x200..<min (0x200 + sz) 0x1000] s"

definition analysis :: "bool \<Rightarrow> u8 list \<Rightarrow> disas option" where
  "analysis decode rom =
     (let m = disas_memory rom; sz = length rom in
      map_option (\<lambda>s. let g = glue_unreachable sz s in if decode then g else default_data sz g)
        (descend m sz (analyze m sz disas_init)))"

section \<open>Text\<close>

definition output_line :: "bool \<Rightarrow> disas \<Rightarrow> nat \<Rightarrow> string \<Rightarrow> string" where
  "output_line asm s pc txt =
     (if asm then ''        '' else ''0x'' @ hexp 4 pc @ '':'' @ [CHR 0x09]) @ txt @
     (if asm \<and> pc < 0x1000 \<and> \<not> reach s pc then '' ; unreachable'' else []) @ newline"

definition raw_word :: "bool \<Rightarrow> nat \<Rightarrow> u16 \<Rightarrow> string" where
  "raw_word asm pc opc =
     (if asm then ''.word 0x'' @ hexp 4 (unat opc) @ '' ; unrecognized opcode''
      else ''op code '' @ hexp 4 (unat opc) @ '' at pc 0x'' @ hexp 4 pc)"

definition vreg :: "nat \<Rightarrow> string" where "vreg x = ''V'' @ hex x"

definition block_name :: "nat \<Rightarrow> string" where "block_name a = ''block'' @ hexp 3 a"

text \<open>
  \<^verbatim>\<open>disassemble\<close>: the text of one instruction, in the assembler's syntax or in prose. The
  groups 8, E and F first.
\<close>

definition text_8 :: "bool \<Rightarrow> nat \<Rightarrow> u16 \<Rightarrow> string" where
  "text_8 asm pc opc =
     (let x = vreg (fx opc); y = vreg (fy opc); n = fn opc;
          both = (\<lambda>name infx. if asm then name @ x @ '', '' @ y else x @ infx @ y)
      in if n = 0 then both ''LD '' '' = ''
         else if n = 1 then both ''OR '' '' |= ''
         else if n = 2 then both ''AND '' '' &= ''
         else if n = 3 then both ''XOR '' '' ^= ''
         else if n = 4 then both ''ADD '' '' += ''
         else if n = 5 then both ''SUB '' '' -= ''
         else if n = 6 then both ''SHR '' '' >>= ''
         else if n = 7 then (if asm then ''SUBN '' @ x @ '', '' @ y else x @ '' = '' @ y @ '' - '' @ x)
         else if n = 0xe then both ''SHL '' '' <<= ''
         else raw_word asm pc opc)"

definition text_e :: "bool \<Rightarrow> nat \<Rightarrow> u16 \<Rightarrow> string" where
  "text_e asm pc opc =
     (let x = vreg (fx opc); kk = fkk opc in
      if kk = 0x9e then (if asm then ''SKP '' @ x else ''skip next if '' @ x @ '' is down'')
      else if kk = 0xa1 then (if asm then ''SKNP '' @ x else ''skip next if '' @ x @ '' is up'')
      else raw_word asm pc opc)"

definition text_f :: "bool \<Rightarrow> nat \<Rightarrow> u16 \<Rightarrow> string" where
  "text_f asm pc opc =
     (let x = vreg (fx opc); kk = fkk opc in
      if kk = 0x07 then (if asm then ''LD '' @ x @ '', DT'' else x @ '' = <current delay timer>'')
      else if kk = 0x0a then (if asm then ''LD '' @ x @ '', K'' else x @ '' = <next key pressed>'')
      else if kk = 0x15 then (if asm then ''LD DT, '' @ x else ''<current delay timer> = '' @ x)
      else if kk = 0x18 then (if asm then ''LD ST, '' @ x else ''<current sound timer> = '' @ x)
      else if kk = 0x1e then (if asm then ''ADD I, '' @ x else ''addr += '' @ x)
      else if kk = 0x29
        then (if asm then ''LD F, '' @ x else ''addr = <address of hex sprite '' @ x @ ''>'')
      else if kk = 0x33
        then (if asm then ''LD B, '' @ x else ''store '' @ x @ '' in BCD starting at addr'')
      else if kk = 0x55
        then (if asm then ''LD [I], '' @ x
              else ''save registers V0 through '' @ x @ '' starting at addr'')
      else if kk = 0x65
        then (if asm then ''LD '' @ x @ '', [I]''
              else ''load registers V0 through '' @ x @ '' starting at addr'')
      else raw_word asm pc opc)"

definition disassemble :: "bool \<Rightarrow> disas \<Rightarrow> nat \<Rightarrow> u16 \<Rightarrow> string" where
  "disassemble asm s pc opc =
     (let k = op_k opc; x = vreg (fx opc); y = vreg (fy opc); n = fn opc; kk = fkk opc; nnn = fnnn opc;
          target = (\<lambda>name prose.
            if asm then name @ (if leader s nnn then block_name nnn else ''0x'' @ hexp 3 nnn)
            else prose @ ''0x'' @ hexp 4 nnn);
          byte = (\<lambda>name pre mid.
            if asm then name @ x @ '', 0x'' @ hexp 2 kk else pre @ x @ mid @ ''0x'' @ hexp 4 kk)
      in if opc = 0x00e0 then (if asm then ''CLS'' else ''clear'')
         else if opc = 0x00ee then (if asm then ''RET'' else ''return'')
         else if k = 0x0 then (if asm then raw_word asm pc opc else ''jump 0x'' @ hexp 4 nnn)
         else if k = 0x1 then target ''JP '' ''jump ''
         else if k = 0x2 then target ''CALL '' ''call ''
         else if k = 0x3 then byte ''SE '' ''skip next if '' '' == ''
         else if k = 0x4 then byte ''SNE '' ''skip next if '' '' != ''
         else if k = 0x5 then
           (if \<not> asm then ''skip next if '' @ x @ '' == '' @ y
            else if n = 0 then ''SE '' @ x @ '', '' @ y else raw_word asm pc opc)
         else if k = 0x6 then byte ''LD '' [] '' = ''
         else if k = 0x7 then byte ''ADD '' [] '' += ''
         else if k = 0x8 then text_8 asm pc opc
         else if k = 0x9 then
           (if \<not> asm then ''skip next if '' @ x @ '' != '' @ y
            else if n = 0 then ''SNE '' @ x @ '', '' @ y else raw_word asm pc opc)
         else if k = 0xa then target ''LD I, '' ''addr = ''
         else if k = 0xb then
           (if asm then ''JP V0, 0x'' @ hexp 3 nnn @
                '' ; WARNING: indirect jump, block analysis may be incomplete''
            else ''branch to 0x'' @ hexp 4 nnn @ '' + V0'')
         else if k = 0xc then byte ''RND '' [] '' = <random> & ''
         else if k = 0xd then
           (if asm then ''DRW '' @ x @ '', '' @ y @ '', 0x'' @ hex n
            else ''draw sprite from addr of height '' @ dec (fx opc) @ '' at ('' @ y @ '', '' @ vreg n @ '')'')
         else if k = 0xe then text_e asm pc opc
         else text_f asm pc opc)"

text \<open>The lines for one word, for the trailing byte of an odd ROM, and the whole output.\<close>

definition name_line :: "nat \<Rightarrow> string" where
  "name_line a = block_name a @ '':'' @ newline"

definition label_line :: "bool \<Rightarrow> disas \<Rightarrow> nat \<Rightarrow> string list" where
  "label_line asm s pc = (if asm \<and> leader s pc then [name_line pc] else [])"

definition word_line :: "bool \<Rightarrow> bool \<Rightarrow> disas \<Rightarrow> u8 list \<Rightarrow> nat \<Rightarrow> string" where
  "word_line asm decode s m pc =
     (if \<not> decode \<and> \<not> reach s pc
      then if asm then ''        .word 0x'' @ hexp 4 (unat (word_at m pc)) @ '' ; data (unreachable)'' @ newline
           else output_line asm s pc (''data word '' @ hexp 4 (unat (word_at m pc)))
      else output_line asm s pc (disassemble asm s pc (word_at m pc)))"

definition word_lines :: "bool \<Rightarrow> bool \<Rightarrow> disas \<Rightarrow> u8 list \<Rightarrow> nat \<Rightarrow> string list" where
  "word_lines asm decode s m pc = label_line asm s pc @ [word_line asm decode s m pc]"

definition trailing_line :: "bool \<Rightarrow> disas \<Rightarrow> u8 list \<Rightarrow> nat \<Rightarrow> string" where
  "trailing_line asm s m pc =
     (if asm then ''        .byte 0x'' @ hexp 2 (unat (m ! pc)) @ newline
      else output_line asm s pc (''trailing byte '' @ hexp 2 (unat (m ! pc)) @ '' at pc 0x'' @ hexp 4 pc))"

definition trailing_lines :: "bool \<Rightarrow> disas \<Rightarrow> u8 list \<Rightarrow> nat \<Rightarrow> string list" where
  "trailing_lines asm s m sz =
     (if odd sz
      then let pc = 0x200 + sz - 1 in label_line asm s pc @ [trailing_line asm s m pc]
      else [])"

definition disas_lines :: "bool \<Rightarrow> bool \<Rightarrow> disas \<Rightarrow> u8 list \<Rightarrow> string list" where
  "disas_lines asm decode s rom =
     (let m = disas_memory rom; sz = length rom
      in concat (map (word_lines asm decode s m) (word_addrs sz)) @ trailing_lines asm s m sz)"

definition disas_main :: "bool \<Rightarrow> bool \<Rightarrow> u8 list \<Rightarrow> string option" where
  "disas_main asm decode file =
     (let rom = take 0xE00 file
      in map_option (\<lambda>s. concat (disas_lines asm decode s rom)) (analysis decode rom))"

section \<open>The report\<close>

function regions :: "(nat \<Rightarrow> nat) \<Rightarrow> nat \<Rightarrow> nat \<Rightarrow> (nat \<times> nat \<times> nat) list" where
  "regions c ende pc =
     (if pc < ende
      then let stop = run_end (\<lambda>a. c a = c pc) ende pc in (pc, stop, c pc) # regions c ende stop
      else [])"
  by pat_completeness auto
termination
proof (relation "measure (\<lambda>(c, ende, pc). ende - pc)", simp, goal_cases)
  case (1 c ende pc x)
  then show ?case using run_end_progress [of pc ende "\<lambda>a. c a = c pc"] by simp
qed

declare regions.simps [simp del]

definition region_total :: "(nat \<times> nat \<times> nat) list \<Rightarrow> nat \<Rightarrow> nat" where
  "region_total rs c = sum_list (map (\<lambda>(a, b, d). if d = c then b - a else 0) rs)"

definition region_name :: "nat \<Rightarrow> string" where
  "region_name c = (if c = 0 then ''unknown'' else if c = 1 then ''code   '' else ''data   '')"

definition region_line :: "nat \<times> nat \<times> nat \<Rightarrow> string" where
  "region_line = (\<lambda>(a, b, c). ''  0x'' @ hexp 3 a @ ''-0x'' @ hexp 3 (b - 1) @ ''  '' @ region_name c @
     '' ('' @ dec (b - a) @ '' bytes)'' @ newline)"

definition print_report :: "bool \<Rightarrow> nat \<Rightarrow> disas \<Rightarrow> string" where
  "print_report assume_no_smc sz s =
     (let rs = regions (cls s) (0x200 + sz) 0x200 in
      ''region map:'' @ (if indirect_jump_seen s then '' (incomplete: indirect JP V0 seen)'' else []) @ newline @
      concat (map region_line rs) @
      ''totals: code '' @ dec (region_total rs 1) @ '', data '' @ dec (region_total rs 2) @
      '', unknown '' @ dec (region_total rs 0) @ '' of '' @ dec sz @ '' bytes'' @ newline @
      (if smc_possible s \<and> \<not> assume_no_smc
       then ''warning: reachable memory writes with dynamic or '' @
         ''code-overlapping targets; self-modifying code may invalidate '' @
         ''this map (re-run with --assume-no-smc to assert otherwise)'' @ newline else []) @
      (if assume_no_smc then ''note: assuming no self-modifying code'' @ newline else []))"

end
