(* ===== verification/C8_Disas_Props.thy ===== *)
theory C8_Disas_Props
  imports C8_Disas
begin

text \<open>
  The descent computes exactly the code reachable in the ROM's static control-flow graph,
  never overflows its stack, and classifies exactly that code as code; labels of live
  targets survive gluing, and every label stands on an emitted word.
\<close>

section \<open>The control-flow graph\<close>

definition is_code :: "u8 list \<Rightarrow> nat \<Rightarrow> nat \<Rightarrow> bool" where
  "is_code m sz pc \<longleftrightarrow> pc + 1 < 0x200 + sz \<and> valid_opcode (word_at m pc)"

definition succs :: "u8 list \<Rightarrow> nat \<Rightarrow> nat \<Rightarrow> nat list" where
  "succs m sz pc = pushes sz pc (word_at m pc) @ (if falls_through (word_at m pc) then [pc + 2] else [])"

inductive flow :: "u8 list \<Rightarrow> nat \<Rightarrow> nat \<Rightarrow> bool" for m sz where
  entry: "flow m sz 0x200"
| follow: "flow m sz pc \<Longrightarrow> is_code m sz pc \<Longrightarrow> pc' \<in> set (succs m sz pc) \<Longrightarrow> flow m sz pc'"

lemma labelable_even: "labelable a sz \<Longrightarrow> even a \<and> 0x200 \<le> a \<and> a + 1 < 0x200 + sz"
  by (simp add: labelable_def and_one_eq even_iff_mod_2_eq_zero)

lemma labelable_iff: "labelable a sz \<longleftrightarrow> even a \<and> 0x200 \<le> a \<and> a + 1 < 0x200 + sz"
  by (auto simp: labelable_def and_one_eq even_iff_mod_2_eq_zero)

lemma succs_aligned:
  assumes "pc' \<in> set (succs m sz pc)" "even pc" "0x200 \<le> pc"
  shows "even pc' \<and> 0x200 \<le> pc'"
  using assms by (auto simp: succs_def pushes_def Let_def labelable_iff split: if_splits)

section \<open>The invariant of the descent\<close>

text \<open>\<open>pend\<close> holds the addresses still to visit.\<close>

definition paired :: "disas \<Rightarrow> bool" where
  "paired s \<longleftrightarrow> (\<forall>a. even a \<longrightarrow> reach s (a + 1) = reach s a)"

definition settled :: "u8 list \<Rightarrow> nat \<Rightarrow> nat set \<Rightarrow> disas \<Rightarrow> nat \<Rightarrow> bool" where
  "settled m sz pend s t \<longleftrightarrow> t \<in> pend \<or> reach s t \<or> \<not> is_code m sz t"

definition descent_inv :: "u8 list \<Rightarrow> nat \<Rightarrow> nat set \<Rightarrow> disas \<Rightarrow> bool" where
  "descent_inv m sz pend s \<longleftrightarrow>
     paired s \<and> settled m sz pend s 0x200 \<and>
     (\<forall>p\<in>pend. even p \<and> 0x200 \<le> p \<and> flow m sz p) \<and>
     (\<forall>a. even a \<longrightarrow> reach s a \<longrightarrow> flow m sz a \<and> is_code m sz a \<and>
        (\<forall>t\<in>set (succs m sz a). settled m sz pend s t))"

lemma settled_mono:
  "settled m sz P s t \<Longrightarrow> (\<And>p. p \<in> P \<Longrightarrow> p \<in> Q \<or> reach s' p \<or> \<not> is_code m sz p) \<Longrightarrow>
   (\<And>a. reach s a \<Longrightarrow> reach s' a) \<Longrightarrow> settled m sz Q s' t"
  by (auto simp: settled_def)

lemma descent_skip:
  assumes "descent_inv m sz (insert pc P) s" "reach s pc \<or> \<not> is_code m sz pc"
  shows "descent_inv m sz P s"
proof -
  have "settled m sz P s t" if "settled m sz (insert pc P) s t" for t
    by (rule settled_mono [OF that]) (use assms(2) in auto)
  then show ?thesis using assms(1) by (auto simp: descent_inv_def)
qed

lemma reach_mark_code [simp]: "reach (mark_code pc s) = (reach s)(pc := True, pc + 1 := True)"
  by (simp add: mark_code_def)

lemma reach_visit:
  "reach (note_effects ldi sz opc (mark_code pc s)) = (reach s)(pc := True, pc + 1 := True)"
  by (simp add: mark_code_def)

lemma descent_visit:
  assumes inv: "descent_inv m sz (insert pc P) s" and code: "is_code m sz pc"
    and s': "reach s' = (reach s)(pc := True, pc + 1 := True)"
    and Q: "P \<union> set (succs m sz pc) = Q"
  shows "descent_inv m sz Q s'"
proof -
  have pc: "even pc" "0x200 \<le> pc" "flow m sz pc" using inv by (auto simp: descent_inv_def)
  have keep: "settled m sz Q s' t" if "settled m sz (insert pc P) s t" for t
    by (rule settled_mono [OF that]) (use s' Q in auto)
  have new: "settled m sz Q s' t" if "t \<in> set (succs m sz pc)" for t
    using that Q by (auto simp: settled_def)
  have pend: "even p \<and> 0x200 \<le> p \<and> flow m sz p" if "p \<in> Q" for p
    using that Q inv succs_aligned [of p m sz pc] pc flow.follow [OF pc(3) code, of p]
    by (auto simp: descent_inv_def)
  have "paired s'" using inv pc(1) by (auto simp: descent_inv_def paired_def s')
  moreover have "flow m sz a \<and> is_code m sz a \<and> (\<forall>t\<in>set (succs m sz a). settled m sz Q s' t)"
    if "even a" "reach s' a" for a
  proof (cases "a = pc")
    case True
    then show ?thesis using pc code new by simp
  next
    case False
    then have "reach s a" using that pc(1) by (auto simp: s' split: if_splits)
    then show ?thesis using inv that keep by (auto simp: descent_inv_def)
  qed
  ultimately show ?thesis using inv keep pend by (auto simp: descent_inv_def)
qed

lemma push_all_Some: "push_all as st = Some st1 \<Longrightarrow> set st1 = set st \<union> set as"
  by (auto simp: push_all_def split: if_splits)

text \<open>One unfolding of the path loop.\<close>

lemma walk_code:
  assumes "is_code m sz pc" "\<not> reach s pc"
  shows "walk m sz pc ldi st s =
    (let opc = word_at m pc; s1 = note_effects ldi sz opc (mark_code pc s)
     in case push_all (pushes sz pc opc) st of
          None \<Rightarrow> None
        | Some st1 \<Rightarrow> if falls_through opc then walk m sz (pc + 2) (next_ldi ldi opc) st1 s1 else Some (st1, s1))"
  using assms by (subst walk.simps) (simp add: is_code_def)

lemma walk_stop: "reach s pc \<or> \<not> is_code m sz pc \<Longrightarrow> walk m sz pc ldi st s = Some (st, s)"
  by (subst walk.simps) (auto simp: is_code_def)

lemma walk_induct [case_names stop overflow jump on]:
  assumes "\<And>pc ldi st s. reach s pc \<or> \<not> is_code m sz pc \<Longrightarrow> P pc ldi st s"
    and "\<And>pc ldi st s. is_code m sz pc \<Longrightarrow> \<not> reach s pc \<Longrightarrow>
      push_all (pushes sz pc (word_at m pc)) st = None \<Longrightarrow> P pc ldi st s"
    and "\<And>pc ldi st s st1. is_code m sz pc \<Longrightarrow> \<not> reach s pc \<Longrightarrow>
      push_all (pushes sz pc (word_at m pc)) st = Some st1 \<Longrightarrow> \<not> falls_through (word_at m pc) \<Longrightarrow> P pc ldi st s"
    and "\<And>pc ldi st s st1. is_code m sz pc \<Longrightarrow> \<not> reach s pc \<Longrightarrow>
      push_all (pushes sz pc (word_at m pc)) st = Some st1 \<Longrightarrow> falls_through (word_at m pc) \<Longrightarrow>
      P (pc + 2) (next_ldi ldi (word_at m pc)) st1 (note_effects ldi sz (word_at m pc) (mark_code pc s)) \<Longrightarrow>
      P pc ldi st s"
  shows "P pc ldi st s"
  using assms
proof (induction m sz pc ldi st s rule: walk.induct)
  case (1 m sz pc ldi st s)
  note IH = 1(1) and rules = 1(2-5)
  show ?case
  proof (cases "is_code m sz pc \<and> \<not> reach s pc")
    case True
    then have c: "pc + 1 < 0x200 + sz \<and> \<not> reach s pc \<and> valid_opcode (word_at m pc)" by (simp add: is_code_def)
    show ?thesis
    proof (cases "push_all (pushes sz pc (word_at m pc)) st")
      case (Some st1)
      show ?thesis
      proof (cases "falls_through (word_at m pc)")
        case ft: True
        show ?thesis
          by (rule rules(4) [OF _ _ Some ft IH [OF c refl refl Some ft rules]]) (use True in simp_all)
      qed (use True Some rules(3) in blast)
    qed (use True rules(2) in blast)
  qed (use rules(1) in blast)
qed

lemma walk_inv:
  "descent_inv m sz (insert pc (set st)) s \<Longrightarrow> walk m sz pc ldi st s = Some (st', s') \<Longrightarrow>
   descent_inv m sz (set st') s'"
proof (induction pc ldi st s rule: walk_induct [where m = m and sz = sz])
  case (stop pc ldi st s)
  then show ?case using descent_skip [of m sz pc "set st" s] by (simp add: walk_stop)
next
  case (overflow pc ldi st s)
  then show ?case by (simp add: walk_code Let_def)
next
  case (jump pc ldi st s st1)
  have "descent_inv m sz (set st1) (note_effects ldi sz (word_at m pc) (mark_code pc s))"
    by (rule descent_visit [OF jump(5,1) reach_visit]) (use jump(4) push_all_Some [OF jump(3)] in \<open>simp add: succs_def\<close>)
  then show ?case using jump by (simp add: walk_code Let_def)
next
  case (on pc ldi st s st1)
  have "descent_inv m sz (insert (pc + 2) (set st1)) (note_effects ldi sz (word_at m pc) (mark_code pc s))"
    by (rule descent_visit [OF on(6,1) reach_visit]) (use on(4) push_all_Some [OF on(3)] in \<open>auto simp: succs_def\<close>)
  then show ?case using on by (simp add: walk_code Let_def)
qed

lemma descend_loop_inv:
  "descent_inv m sz (set st) s \<Longrightarrow> descend_loop m sz st s = Some s' \<Longrightarrow> descent_inv m sz {} s'"
proof (induction m sz st s rule: descend_loop.induct)
  case (2 m sz pc st s)
  then show ?case using walk_inv [of m sz pc st s None] by (auto split: option.splits)
qed simp

section \<open>Room on the stack\<close>

definition fresh :: "nat \<Rightarrow> disas \<Rightarrow> nat set" where
  "fresh sz s = {a. 0x200 \<le> a \<and> a < 0x200 + sz \<and> \<not> reach s a}"

lemma fresh_finite [simp]: "finite (fresh sz s)"
  by (simp add: fresh_def)

lemma fresh_visit:
  assumes "descent_inv m sz (insert pc P) s" "is_code m sz pc" "\<not> reach s pc"
    and s': "reach s' = (reach s)(pc := True, pc + 1 := True)"
  shows "card (fresh sz s) = card (fresh sz s') + 2"
proof -
  have pc: "even pc" "0x200 \<le> pc" "\<not> reach s (pc + 1)" "pc + 1 < 0x200 + sz"
    using assms(1-3) by (auto simp: descent_inv_def paired_def is_code_def)
  have "fresh sz s = insert pc (insert (pc + 1) (fresh sz s'))"
    using pc assms(3) by (auto simp: fresh_def s' split: if_splits)
  moreover have "pc \<notin> fresh sz s'" "pc + 1 \<notin> fresh sz s'" by (simp_all add: fresh_def s')
  ultimately show ?thesis by simp
qed

lemma walk_room:
  "descent_inv m sz (insert pc (set st)) s \<Longrightarrow> 2 * length st + card (fresh sz s) \<le> 4094 \<Longrightarrow>
   \<exists>st' s'. walk m sz pc ldi st s = Some (st', s') \<and>
     2 * length st' + card (fresh sz s') \<le> 2 * length st + card (fresh sz s)"
proof (induction pc ldi st s rule: walk_induct [where m = m and sz = sz])
  case (stop pc ldi st s)
  then show ?case by (simp add: walk_stop)
next
  case (overflow pc ldi st s)
  then have "card (fresh sz s) \<ge> 2" using fresh_visit [OF _ _ _ reach_visit] by (metis le_add2)
  then have "length st + length (pushes sz pc (word_at m pc)) \<le> WORK_SIZE"
    using overflow.prems(2) length_pushes [of sz pc "word_at m pc"] by (simp add: WORK_SIZE_def)
  then show ?case using overflow(3) by (simp add: push_all_def)
next
  case (jump pc ldi st s st1)
  have "length st1 \<le> length st + 1"
    using jump(3) length_pushes [of sz pc "word_at m pc"] by (auto simp: push_all_def split: if_splits)
  moreover have "card (fresh sz s) =
      card (fresh sz (note_effects ldi sz (word_at m pc) (mark_code pc s))) + 2"
    by (rule fresh_visit [OF jump(5,1,2) reach_visit])
  ultimately show ?case using jump(1-4) by (simp add: walk_code Let_def)
next
  case (on pc ldi st s st1)
  let ?s1 = "note_effects ldi sz (word_at m pc) (mark_code pc s)"
  have len: "length st1 \<le> length st + 1"
    using on(3) length_pushes [of sz pc "word_at m pc"] by (auto simp: push_all_def split: if_splits)
  have card: "card (fresh sz s) = card (fresh sz ?s1) + 2"
    by (rule fresh_visit [OF on(6,1,2) reach_visit])
  have "descent_inv m sz (insert (pc + 2) (set st1)) ?s1"
    by (rule descent_visit [OF on(6,1) reach_visit]) (use on(4) push_all_Some [OF on(3)] in \<open>auto simp: succs_def\<close>)
  moreover have "2 * length st1 + card (fresh sz ?s1) \<le> 4094" using on(7) len card by linarith
  ultimately obtain st' s' where "walk m sz (pc + 2) (next_ldi ldi (word_at m pc)) st1 ?s1 = Some (st', s')"
    "2 * length st' + card (fresh sz s') \<le> 2 * length st1 + card (fresh sz ?s1)" using on(5) by blast
  then show ?case using on(1-4) len card by (simp add: walk_code Let_def)
qed

lemma descend_loop_room:
  "descent_inv m sz (set st) s \<Longrightarrow> 2 * length st + card (fresh sz s) \<le> 4096 \<Longrightarrow>
   descend_loop m sz st s \<noteq> None"
proof (induction m sz st s rule: descend_loop.induct)
  case (2 m sz pc st s)
  have "descent_inv m sz (insert pc (set st)) s" "2 * length st + card (fresh sz s) \<le> 4094"
    using "2.prems" by simp_all
  from walk_room [OF this, of None] obtain st' s' where w: "walk m sz pc None st s = Some (st', s')"
    "2 * length st' + card (fresh sz s') \<le> 2 * length st + card (fresh sz s)" by blast
  have "descent_inv m sz (set st') s'"
    using walk_inv [OF _ w(1)] "2.prems"(1) by simp
  then show ?case using "2.IH" [OF w(1) refl] w "2.prems"(2) by simp
qed simp

section \<open>Classes\<close>

definition coded :: "disas \<Rightarrow> nat \<Rightarrow> bool" where
  "coded s a \<longleftrightarrow> cls s a = 1"

lemma coded_mark_data [simp]: "coded (mark_data a len sz s) = coded s"
proof -
  have "coded (fold (\<lambda>a s. if a < 0x1000 \<and> cls s a \<noteq> 1 then s\<lparr>cls := (cls s)(a := 2)\<rparr> else s) as s) = coded s"
    for "as" and s :: disas
  proof (induction "as" arbitrary: s)
    case (Cons a "as")
    have "coded (if a < 0x1000 \<and> cls s a \<noteq> 1 then s\<lparr>cls := (cls s)(a := 2)\<rparr> else s) = coded s"
      by (auto simp: coded_def fun_eq_iff)
    then show ?case using Cons by simp
  qed simp
  then show ?thesis by (simp add: mark_data_def)
qed

lemma coded_note_write [simp]: "coded (note_write ldi len s) = coded s"
proof -
  have "coded (fold (\<lambda>a s. if reach s a then s\<lparr>smc_possible := True\<rparr> else s) as s) = coded s"
    for "as" and s :: disas
  proof (induction "as" arbitrary: s)
    case (Cons a "as")
    have "coded (if reach s a then s\<lparr>smc_possible := True\<rparr> else s) = coded s"
      by (simp add: coded_def fun_eq_iff)
    then show ?case using Cons by simp
  qed simp
  then show ?thesis by (simp add: note_write_def, simp add: coded_def fun_eq_iff split: option.split)
qed

lemma coded_note_effects [simp]: "coded (note_effects ldi sz opc s) = coded s"
proof -
  have "coded (s\<lparr>indirect_jump_seen := True\<rparr>) = coded s" by (simp add: coded_def fun_eq_iff)
  moreover have "coded (mark_ldi ldi len sz s) = coded s" for len s by (cases ldi) (simp_all add: mark_ldi_def)
  ultimately show ?thesis by (simp add: note_effects_def Let_def)
qed

definition class_inv :: "disas \<Rightarrow> bool" where
  "class_inv s \<longleftrightarrow> coded s = reach s"

lemma class_inv_visit: "class_inv s \<Longrightarrow> class_inv (note_effects ldi sz opc (mark_code pc s))"
proof -
  have "coded (mark_code pc s) = (coded s)(pc := True, pc + 1 := True)"
    by (rule ext) (simp add: coded_def mark_code_def)
  moreover assume "class_inv s"
  ultimately show ?thesis by (simp add: class_inv_def del: One_nat_def)
qed

lemma class_inv_walk: "class_inv s \<Longrightarrow> walk m sz pc ldi st s = Some (st', s') \<Longrightarrow> class_inv s'"
proof (induction pc ldi st s rule: walk_induct [where m = m and sz = sz])
  case (on pc ldi st s st1)
  then show ?case using class_inv_visit [of s ldi sz "word_at m pc" pc] by (simp add: walk_code Let_def)
next
  case (jump pc ldi st s st1)
  then show ?case using class_inv_visit [of s ldi sz "word_at m pc" pc] by (auto simp: walk_code Let_def)
qed (simp_all add: walk_stop walk_code Let_def)

lemma class_inv_descend_loop: "class_inv s \<Longrightarrow> descend_loop m sz st s = Some s' \<Longrightarrow> class_inv s'"
proof (induction m sz st s rule: descend_loop.induct)
  case (2 m sz pc st s)
  then show ?case using class_inv_walk [of s m sz pc None st] by (auto split: option.splits)
qed simp

text \<open>The three classes are 0, 1 and 2.\<close>

definition classes_ok :: "disas \<Rightarrow> bool" where
  "classes_ok s \<longleftrightarrow> (\<forall>a. cls s a < 3)"

lemma classes_ok_set: "classes_ok s \<Longrightarrow> c < 3 \<Longrightarrow> classes_ok (s\<lparr>cls := (cls s)(a := c)\<rparr>)"
  by (simp add: classes_ok_def)

lemma classes_ok_cls: "cls s' = cls s \<Longrightarrow> classes_ok s' = classes_ok s"
  by (simp add: classes_ok_def)

lemma fold_keeps: "P s \<Longrightarrow> (\<And>a s. P s \<Longrightarrow> P (f a s)) \<Longrightarrow> P (fold f as s)"
  by (induction "as" arbitrary: s) auto

lemma classes_ok_mark_data: "classes_ok s \<Longrightarrow> classes_ok (mark_data addr len sz s)"
  unfolding mark_data_def by (rule fold_keeps) (auto intro: classes_ok_set)

lemma classes_ok_mark_ldi: "classes_ok s \<Longrightarrow> classes_ok (mark_ldi ldi len sz s)"
  by (simp add: mark_ldi_def classes_ok_mark_data split: option.split)

lemma classes_ok_note_write:
  assumes "classes_ok s"
  shows "classes_ok (note_write ldi len s)"
proof -
  have smc: "classes_ok (u\<lparr>smc_possible := True\<rparr>) = classes_ok u" for u :: disas by (simp add: classes_ok_def)
  have "classes_ok (fold (\<lambda>a s. if reach s a then s\<lparr>smc_possible := True\<rparr> else s) as s)" for "as"
    by (rule fold_keeps [where P = classes_ok]) (simp_all add: smc assms)
  then show ?thesis using assms by (simp add: note_write_def smc split: option.split)
qed

lemma classes_ok_visit: "classes_ok s \<Longrightarrow> classes_ok (note_effects ldi sz opc (mark_code pc s))"
proof -
  assume "classes_ok s"
  then have m: "classes_ok (mark_code pc s)" by (simp add: mark_code_def classes_ok_def)
  then have "classes_ok ((mark_code pc s)\<lparr>indirect_jump_seen := True\<rparr>)" by (simp add: classes_ok_def)
  with m show ?thesis by (simp add: note_effects_def Let_def classes_ok_mark_ldi classes_ok_note_write)
qed

lemma classes_ok_walk: "classes_ok s \<Longrightarrow> walk m sz pc ldi st s = Some (st', s') \<Longrightarrow> classes_ok s'"
proof (induction pc ldi st s rule: walk_induct [where m = m and sz = sz])
  case (on pc ldi st s st1)
  then show ?case using classes_ok_visit [of s ldi sz "word_at m pc" pc] by (simp add: walk_code Let_def)
next
  case (jump pc ldi st s st1)
  then show ?case using classes_ok_visit [of s ldi sz "word_at m pc" pc] by (auto simp: walk_code Let_def)
qed (simp_all add: walk_stop walk_code Let_def)

lemma classes_ok_descend_loop: "classes_ok s \<Longrightarrow> descend_loop m sz st s = Some s' \<Longrightarrow> classes_ok s'"
proof (induction m sz st s rule: descend_loop.induct)
  case (2 m sz pc st s)
  then show ?case using classes_ok_walk [of s m sz pc None st] by (auto split: option.splits)
qed simp

section \<open>Leaders\<close>

lemma leader_effects [simp]:
  "leader (note_effects ldi sz opc s) = leader s" "leader (mark_code pc s) = leader s"
proof -
  have "leader (fold (\<lambda>a s. if a < 0x1000 \<and> cls s a \<noteq> 1 then s\<lparr>cls := (cls s)(a := 2)\<rparr> else s) as s) = leader s"
    for "as" and s :: disas
    by (induction "as" arbitrary: s) auto
  then have d: "leader (mark_ldi ldi len sz s) = leader s" for len s
    by (simp add: mark_ldi_def mark_data_def split: option.split)
  have "leader (fold (\<lambda>a s. if reach s a then s\<lparr>smc_possible := True\<rparr> else s) as s) = leader s"
    for "as" and s :: disas
    by (induction "as" arbitrary: s) auto
  then have w: "leader (note_write ldi len s) = leader s" for len s
    by (simp add: note_write_def split: option.split)
  show "leader (note_effects ldi sz opc s) = leader s"
    by (simp add: note_effects_def d w Let_def)
qed (simp add: mark_code_def)

lemma leader_walk: "walk m sz pc ldi st s = Some (st', s') \<Longrightarrow> leader s' = leader s"
  by (induction pc ldi st s rule: walk_induct [where m = m and sz = sz])
    (auto simp: walk_stop walk_code Let_def)

lemma leader_descend_loop: "descend_loop m sz st s = Some s' \<Longrightarrow> leader s' = leader s"
proof (induction m sz st s rule: descend_loop.induct)
  case (2 m sz pc st s)
  then show ?case using leader_walk [of m sz pc None st s] by (auto split: option.splits)
qed simp

lemma set_leader_if_simps [simp]:
  "leader (set_leader_if c a s) b \<longleftrightarrow> leader s b \<or> c \<and> b = a"
  "reach (set_leader_if c a s) = reach s" "cls (set_leader_if c a s) = cls s"
  "smc_possible (set_leader_if c a s) = smc_possible s" "smc_possible (set_leader a s) = smc_possible s"
  "leader (set_leader a s) b \<longleftrightarrow> leader s b \<or> b = a"
  "reach (set_leader a s) = reach s" "cls (set_leader a s) = cls s"
  by (auto simp: set_leader_if_def set_leader_def)

lemma analyze_frame [simp]:
  "reach (analyze m sz s) = reach s" "cls (analyze m sz s) = cls s"
  "smc_possible (analyze m sz s) = smc_possible s"
proof -
  have "reach (fold (analyze_word m sz) pcs s) = reach s \<and> cls (fold (analyze_word m sz) pcs s) = cls s \<and>
      smc_possible (fold (analyze_word m sz) pcs s) = smc_possible s" for pcs s
    by (induction pcs arbitrary: s) (simp_all add: analyze_word_def Let_def)
  then show "reach (analyze m sz s) = reach s" "cls (analyze m sz s) = cls s"
    "smc_possible (analyze m sz s) = smc_possible s" by (simp_all add: analyze_def)
qed

text \<open>Where a label can stand: on an even address inside the ROM, or at the entry point.\<close>

definition label_inv :: "nat \<Rightarrow> disas \<Rightarrow> bool" where
  "label_inv sz s \<longleftrightarrow> (\<forall>a. leader s a \<longrightarrow> even a \<and> 0x200 \<le> a \<and> (a < 0x200 + sz \<or> a = 0x200))"

lemma label_inv_analyze_word:
  "label_inv sz s \<Longrightarrow> even pc \<Longrightarrow> 0x200 \<le> pc \<Longrightarrow> label_inv sz (analyze_word m sz pc s)"
  by (auto simp: label_inv_def analyze_word_def Let_def labelable_iff)

lemma label_inv_analyze: "label_inv sz s \<Longrightarrow> label_inv sz (analyze m sz s)"
proof -
  have "label_inv sz s \<Longrightarrow> (\<And>pc. pc \<in> set pcs \<Longrightarrow> even pc \<and> 0x200 \<le> pc) \<Longrightarrow>
      label_inv sz (fold (analyze_word m sz) pcs s)" for pcs s
    by (induction pcs arbitrary: s) (simp_all add: label_inv_analyze_word)
  note words = this
  assume "label_inv sz s"
  then have "label_inv sz (set_leader 0x200 s)" by (simp add: label_inv_def)
  then show ?thesis unfolding analyze_def by (rule words) (auto simp: word_addrs_def)
qed

text \<open>Every static jump or call target in the swept words gets a label.\<close>

lemma analyze_word_mono: "leader s a \<Longrightarrow> leader (analyze_word m sz pc s) a"
  by (simp add: analyze_word_def Let_def)

lemma analyze_fold_mono: "leader s a \<Longrightarrow> leader (fold (analyze_word m sz) pcs s) a"
  by (induction pcs arbitrary: s) (simp_all add: analyze_word_mono)

lemma analyze_target:
  assumes "pc \<in> set (word_addrs sz)" "op_k (word_at m pc) \<in> {1, 2}" "labelable (fnnn (word_at m pc)) sz"
  shows "leader (analyze m sz s) (fnnn (word_at m pc))"
proof -
  have "leader (analyze_word m sz pc s) (fnnn (word_at m pc))" for s
    using assms(2,3) by (auto simp: analyze_word_def Let_def)
  then have "pc \<in> set pcs \<Longrightarrow> leader (fold (analyze_word m sz) pcs s) (fnnn (word_at m pc))" for pcs s
    by (induction pcs arbitrary: s) (auto simp: analyze_fold_mono)
  then show ?thesis using assms(1) by (simp add: analyze_def)
qed

lemma is_code_swept: "is_code m sz pc \<Longrightarrow> even pc \<Longrightarrow> 0x200 \<le> pc \<Longrightarrow> pc \<in> set (word_addrs sz)"
proof -
  assume a: "is_code m sz pc" "even pc" "0x200 \<le> pc"
  then obtain i where "pc = 2 * i" by blast
  then have "pc = 0x200 + 2 * (i - 0x100)" "i - 0x100 < sz div 2" using a by (auto simp: is_code_def)
  then show ?thesis by (force simp: word_addrs_def)
qed

section \<open>Gluing\<close>

lemma run_end_inside: "pc \<le> a \<Longrightarrow> a < run_end P ende pc \<Longrightarrow> P a \<and> a < ende"
proof -
  assume a: "pc \<le> a" "a < run_end P ende pc"
  have le: "run_end P ende pc \<le> max pc ende"
    using length_takeWhile_le [of P "[pc..<ende]"] by (auto simp: run_end_def max_def)
  have i: "a - pc < length (takeWhile P [pc..<ende])" using a by (simp add: run_end_def)
  then have "takeWhile P [pc..<ende] ! (a - pc) = [pc..<ende] ! (a - pc)" by (rule takeWhile_nth)
  moreover have "[pc..<ende] ! (a - pc) = a" using a le by simp
  ultimately show ?thesis using i a le nth_mem [OF i] set_takeWhileD by fastforce
qed

lemma run_end_stops: "run_end P ende pc < ende \<Longrightarrow> \<not> P (run_end P ende pc)"
  using nth_length_takeWhile [of P "[pc..<ende]"] by (simp add: run_end_def)

lemma fold_clear: "fold (\<lambda>a l. l(a := False)) as l b \<longleftrightarrow> l b \<and> b \<notin> set as"
  for l :: "nat \<Rightarrow> bool"
  by (induction "as" arbitrary: l) auto

lemma glue_run_frame [simp]:
  "reach (glue_run sz a b s) = reach s" "cls (glue_run sz a b s) = cls s"
  "smc_possible (glue_run sz a b s) = smc_possible s"
  by (simp_all add: glue_run_def Let_def)

lemma leader_glue_run:
  "leader (glue_run sz start stop s) b \<longleftrightarrow>
     (leader s b \<or> labelable start sz \<and> b = start) \<and> \<not> (start < b \<and> b < stop)"
  by (auto simp: glue_run_def Let_def fold_clear)

lemma glue_from_frame [simp]:
  "reach (glue_from sz pc s) = reach s \<and> cls (glue_from sz pc s) = cls s \<and>
   smc_possible (glue_from sz pc s) = smc_possible s"
  by (induction sz pc s rule: glue_from.induct) (subst (1 2 3) glue_from.simps, auto simp: Let_def)

lemma glue_from_step:
  assumes "pc < 0x200 + sz"
  shows "reach s pc \<Longrightarrow> glue_from sz pc s = glue_from sz (pc + 1) s"
    and "\<not> reach s pc \<Longrightarrow> glue_from sz pc s =
      glue_from sz (run_end (\<lambda>a. \<not> reach s a) (0x200 + sz) pc)
        (glue_run sz pc (run_end (\<lambda>a. \<not> reach s a) (0x200 + sz) pc) s)"
  using assms by (subst glue_from.simps; simp add: Let_def)+

lemma glue_from_done: "0x200 + sz \<le> pc \<Longrightarrow> glue_from sz pc s = s"
  by (subst glue_from.simps) simp

lemma glue_keeps_live: "reach s b \<Longrightarrow> leader (glue_from sz pc s) b = leader s b"
proof (induction sz pc s rule: glue_from.induct)
  case (1 sz pc s)
  let ?stop = "run_end (\<lambda>a. \<not> reach s a) (0x200 + sz) pc"
  consider "0x200 + sz \<le> pc" | "pc < 0x200 + sz" "reach s pc" | "pc < 0x200 + sz" "\<not> reach s pc" by linarith
  then show ?case
  proof cases
    case 3
    have "\<not> (pc < b \<and> b < ?stop)" "b \<noteq> pc"
      using run_end_inside [of pc b "\<lambda>a. \<not> reach s a"] "1.prems" 3 by auto
    then show ?thesis using 1 3 by (simp add: glue_from_step leader_glue_run)
  qed (use 1 in \<open>simp_all add: glue_from_step glue_from_done\<close>)
qed

lemma glue_label_inv: "label_inv sz s \<Longrightarrow> label_inv sz (glue_from sz pc s)"
proof (induction sz pc s rule: glue_from.induct)
  case (1 sz pc s)
  let ?stop = "run_end (\<lambda>a. \<not> reach s a) (0x200 + sz) pc"
  consider "0x200 + sz \<le> pc" | "pc < 0x200 + sz" "reach s pc" | "pc < 0x200 + sz" "\<not> reach s pc" by linarith
  then show ?case
  proof cases
    case 3
    then have "label_inv sz (glue_run sz pc ?stop s)"
      using "1.prems" by (auto simp: label_inv_def leader_glue_run labelable_iff)
    then show ?thesis using 1 3 by (simp add: glue_from_step)
  qed (use 1 in \<open>simp_all add: glue_from_step glue_from_done\<close>)
qed

text \<open>After gluing, a label inside dead bytes stands at the start of its run.\<close>

lemma glue_dead_runs:
  "leader (glue_from sz pc s) b \<Longrightarrow> \<not> reach s b \<Longrightarrow> pc < b \<Longrightarrow> b < 0x200 + sz \<Longrightarrow> reach s (b - 1)"
proof (induction sz pc s rule: glue_from.induct)
  case (1 sz pc s)
  let ?stop = "run_end (\<lambda>a. \<not> reach s a) (0x200 + sz) pc"
  have in_rom: "pc < 0x200 + sz" using "1.prems" by linarith
  show ?case
  proof (cases "reach s pc")
    case True
    then show ?thesis
      using "1.IH"(1) [OF in_rom True] "1.prems" glue_from_step(1) [OF in_rom True]
      by (cases "b = pc + 1") simp_all
  next
    case False
    show ?thesis
    proof (cases "?stop < b")
      case True
      then show ?thesis
        using "1.IH"(2) [OF in_rom False refl] "1.prems" glue_from_step(2) [OF in_rom False] by simp
    next
      case le: False
      show ?thesis
      proof (cases "b = ?stop")
        case True
        then show ?thesis using run_end_stops [of "\<lambda>a. \<not> reach s a" "0x200 + sz" pc] "1.prems" by auto
      next
        case False
        have gone: "\<not> leader (glue_from sz q t) b" if "\<not> leader t b" "b < q" for q t
          using that
        proof (induction sz q t rule: glue_from.induct)
          case (1 sz q t)
          consider "0x200 + sz \<le> q" | "q < 0x200 + sz" "reach t q" | "q < 0x200 + sz" "\<not> reach t q" by linarith
          then show ?case
          proof cases
            case 3
            have "q < run_end (\<lambda>a. \<not> reach t a) (0x200 + sz) q" using 3 by (intro run_end_progress) auto
            then show ?thesis using 1 3 by (simp add: glue_from_step leader_glue_run)
          qed (use 1 in \<open>simp_all add: glue_from_step glue_from_done\<close>)
        qed
        have "\<not> leader (glue_run sz pc ?stop s) b" using False le "1.prems"(3) by (simp add: leader_glue_run)
        moreover have "b < ?stop" using False le by linarith
        ultimately show ?thesis
          using gone "1.prems"(1) \<open>\<not> reach s pc\<close> in_rom by (simp add: glue_from_step)
      qed
    qed
  qed
qed

end
