(* ===== verification/C8_Disas_Thms.thy ===== *)
theory C8_Disas_Thms
  imports C8_Disas_Props
begin

text \<open>
  The properties of the disassembler's analysis.
\<close>

section \<open>The whole analysis\<close>

lemma default_data_frame [simp]:
  "reach (default_data sz s) = reach s" "leader (default_data sz s) = leader s" "coded (default_data sz s) = coded s"
  "smc_possible (default_data sz s) = smc_possible s"
proof -
  let ?f = "\<lambda>a s. if cls s a = 0 then s\<lparr>cls := (cls s)(a := 2)\<rparr> else s"
  have step: "reach (?f a u) = reach u \<and> leader (?f a u) = leader u \<and> coded (?f a u) = coded u \<and>
      smc_possible (?f a u) = smc_possible u" for a and u :: disas
    by (auto simp: coded_def fun_eq_iff)
  have "reach (fold ?f as s) = reach s \<and> leader (fold ?f as s) = leader s \<and> coded (fold ?f as s) = coded s \<and>
      smc_possible (fold ?f as s) = smc_possible s" for "as"
    by (rule fold_keeps [where P = "\<lambda>u. reach u = reach s \<and> leader u = leader s \<and> coded u = coded s \<and>
        smc_possible u = smc_possible s"]) (simp_all only: step simp_thms)
  then show "reach (default_data sz s) = reach s" "leader (default_data sz s) = leader s"
    "coded (default_data sz s) = coded s" "smc_possible (default_data sz s) = smc_possible s"
    by (simp_all add: default_data_def)
qed

text \<open>Afterwards no byte of the ROM is unclassified.\<close>

lemma default_data_classes:
  assumes "classes_ok s"
  shows "classes_ok (default_data sz s)"
    and "a \<in> {0x200..<min (0x200 + sz) 0x1000} \<Longrightarrow> cls (default_data sz s) a \<noteq> 0"
proof -
  let ?f = "\<lambda>a s. if cls s a = 0 then s\<lparr>cls := (cls s)(a := 2)\<rparr> else s"
  show "classes_ok (default_data sz s)"
    unfolding default_data_def by (rule fold_keeps [where P = classes_ok]) (auto intro: assms classes_ok_set)
  have "cls u b \<noteq> 0 \<Longrightarrow> cls (fold ?f bs u) b \<noteq> 0" for b bs u
    by (rule fold_keeps [where P = "\<lambda>u. cls u b \<noteq> 0"]) auto
  then have set: "b \<in> set bs \<Longrightarrow> cls (fold ?f bs u) b \<noteq> 0" for b bs u
    by (induction bs arbitrary: u) auto
  show "cls (default_data sz s) a \<noteq> 0" if "a \<in> {0x200..<min (0x200 + sz) 0x1000}"
    unfolding default_data_def by (rule set) (use that in simp)
qed

lemma descent_inv_init: "descent_inv m sz {0x200} (analyze m sz disas_init)"
  by (simp add: descent_inv_def paired_def settled_def disas_init_def flow.entry)

lemma descend_returns:
  assumes "sz \<le> 0xE00"
  shows "\<exists>s. descend m sz (analyze m sz disas_init) = Some s"
proof -
  have "fresh sz (analyze m sz disas_init) \<subseteq> {0x200..<0x200 + sz}" by (auto simp: fresh_def)
  then have "card (fresh sz (analyze m sz disas_init)) \<le> card {0x200..<0x200 + sz}" by (rule card_mono [rotated]) simp
  then have "2 * length [0x200 :: nat] + card (fresh sz (analyze m sz disas_init)) \<le> 4096" using assms by simp
  with descend_loop_room [of m sz "[0x200]"] descent_inv_init [of m sz] show ?thesis
    by (auto simp: descend_def)
qed

lemma flow_aligned: "flow m sz b \<Longrightarrow> even b \<and> 0x200 \<le> b"
proof (induction rule: flow.induct)
  case (follow pc pc')
  then show ?case using succs_aligned by blast
qed simp

lemma descend_facts:
  assumes "descend m sz (analyze m sz disas_init) = Some s"
  shows "even a \<Longrightarrow> reach s a \<longleftrightarrow> flow m sz a \<and> is_code m sz a" "even a \<Longrightarrow> reach s (a + 1) = reach s a"
    "coded s = reach s" "leader s = leader (analyze m sz disas_init)" "label_inv sz s"
proof -
  have inv: "descent_inv m sz {} s"
    using descend_loop_inv [of m sz "[0x200]"] descent_inv_init [of m sz] assms by (simp add: descend_def)
  have complete: "flow m sz b \<Longrightarrow> is_code m sz b \<longrightarrow> even b \<and> reach s b" for b
  proof (induction rule: flow.induct)
    case entry
    then show ?case using inv by (auto simp: descent_inv_def settled_def)
  next
    case (follow pc pc')
    have "settled m sz {} s pc'" "even pc" "flow m sz pc" "is_code m sz pc"
      using inv follow by (auto simp: descent_inv_def)
    then show ?case using follow flow_aligned [OF flow.follow] by (auto simp: settled_def)
  qed
  show "even a \<Longrightarrow> reach s a \<longleftrightarrow> flow m sz a \<and> is_code m sz a"
    using inv complete [of a] by (auto simp: descent_inv_def)
  show "even a \<Longrightarrow> reach s (a + 1) = reach s a"
    using inv by (auto simp: descent_inv_def paired_def)
  have "coded (analyze m sz disas_init) = reach (analyze m sz disas_init)"
    by (simp add: coded_def disas_init_def fun_eq_iff)
  then show "coded s = reach s"
    using class_inv_descend_loop [of "analyze m sz disas_init" m sz "[0x200]"] assms
    by (simp add: descend_def class_inv_def)
  show l: "leader s = leader (analyze m sz disas_init)"
    using leader_descend_loop [of m sz "[0x200]"] assms by (simp add: descend_def)
  have "label_inv sz (analyze m sz disas_init)"
    by (rule label_inv_analyze) (simp add: label_inv_def disas_init_def)
  then show "label_inv sz s" by (simp add: label_inv_def l)
qed

lemma analysis_cases:
  assumes "analysis decode rom = Some s"
  obtains d where "descend (disas_memory rom) (length rom) (analyze (disas_memory rom) (length rom) disas_init) = Some d"
    "reach s = reach d" "coded s = coded d" "leader s = leader (glue_from (length rom) 0x200 d)"
proof -
  obtain d where d: "descend (disas_memory rom) (length rom) (analyze (disas_memory rom) (length rom) disas_init) = Some d"
    "s = (let g = glue_unreachable (length rom) d in if decode then g else default_data (length rom) g)"
    using assms by (auto simp: analysis_def Let_def)
  have "coded (glue_from (length rom) 0x200 d) = coded d" by (simp add: coded_def fun_eq_iff)
  then show ?thesis using that [OF d(1)] d(2) by (auto simp: Let_def glue_unreachable_def)
qed

lemma analysis_classes:
  assumes "analysis decode rom = Some s" "length rom \<le> 0xE00"
  shows "classes_ok s" "\<not> decode \<Longrightarrow> a \<in> {0x200..<0x200 + length rom} \<Longrightarrow> cls s a \<noteq> 0"
proof -
  let ?m = "disas_memory rom" and ?sz = "length rom"
  obtain d where d: "descend ?m ?sz (analyze ?m ?sz disas_init) = Some d"
    "s = (let g = glue_unreachable ?sz d in if decode then g else default_data ?sz g)"
    using assms(1) by (auto simp: analysis_def Let_def)
  have "classes_ok (analyze ?m ?sz disas_init)" by (simp add: classes_ok_def disas_init_def)
  then have "classes_ok d" using d(1) classes_ok_descend_loop unfolding descend_def by blast
  then have g: "classes_ok (glue_unreachable ?sz d)" by (simp add: glue_unreachable_def classes_ok_def)
  show "classes_ok s" using d(2) g default_data_classes(1) by (simp add: Let_def)
  show "cls s a \<noteq> 0" if "\<not> decode" "a \<in> {0x200..<0x200 + length rom}"
    using d(2) that assms(2) default_data_classes(2) [OF g, of a ?sz] by (simp add: Let_def)
qed

lemma analysis_total: "length rom \<le> 0xE00 \<Longrightarrow> \<exists>s. analysis decode rom = Some s"
  using descend_returns [of "length rom" "disas_memory rom"] by (auto simp: analysis_def Let_def)

section \<open>Properties\<close>

text \<open>
  C36: The disassembler's analysis of any ROM that fits the memory finishes without
  overflowing its 2048-entry work stack.
\<close>

theorem analysis_returns:
  assumes "length rom \<le> 0xE00"
  shows "\<exists>s. analysis decode rom = Some s"
  by (rule analysis_total [OF assms])

lemma analysis_returns_witness: "\<exists>s. analysis False [0x12, 0x00, 0xFF] = Some s"
  by (rule analysis_returns) simp

text \<open>
  C23: Recursive descent is exact: a word is marked reachable iff it is a valid instruction
  inside the ROM that the static control-flow graph reaches from \<^verbatim>\<open>0x200\<close> (fall-through, jump
  and call targets, both sides of a skip, the base of \<^verbatim>\<open>JP V0\<close>), both its bytes together; and
  exactly the reachable bytes are classified as code.
\<close>

theorem descent_exact:
  assumes "analysis decode rom = Some s"
  shows "(even a \<longrightarrow> (reach s a \<longleftrightarrow>
      flow (disas_memory rom) (length rom) a \<and> is_code (disas_memory rom) (length rom) a) \<and>
      reach s (a + 1) = reach s a) \<and>
    (cls s b = 1 \<longleftrightarrow> reach s b)"
proof -
  obtain d where d: "descend (disas_memory rom) (length rom) (analyze (disas_memory rom) (length rom) disas_init) = Some d"
    "reach s = reach d" "coded s = coded d" using assms by (rule analysis_cases)
  have "coded s b \<longleftrightarrow> reach s b" using descend_facts(3) [OF d(1)] d(2,3) by simp
  then show ?thesis using descend_facts(1,2) [OF d(1)] d(2) by (simp add: coded_def)
qed

lemma demo_code:
  "is_code (disas_memory [0x12, 0x00]) (length [0x12, 0x00]) 0x200"
  by (simp add: is_code_def disas_memory_def word_at_def nth_append valid_opcode_def op_k_def)

lemma descent_exact_witness:
  "\<exists>s. analysis False [0x12, 0x00] = Some s \<and> reach s 0x200 \<and> reach s 0x201 \<and> cls s 0x201 = 1"
proof -
  obtain s where s: "analysis False [0x12, 0x00] = Some s" using analysis_total [of "[0x12, 0x00]" False] by auto
  from descent_exact [OF s, where a = "0x200" and b = "0x201"] demo_code flow.entry s show ?thesis by auto
qed

text \<open>
  C27: Gluing never loses a live label: the target of every reachable jump or call, if it is
  code of the ROM, is a leader in the final analysis.
\<close>

theorem live_targets_labelled:
  assumes "analysis decode rom = Some s" "reach s pc" "even pc"
    and "op_k (word_at (disas_memory rom) pc) \<in> {1, 2}"
    and "t = fnnn (word_at (disas_memory rom) pc)" "labelable t (length rom)"
    and "is_code (disas_memory rom) (length rom) t"
  shows "leader s t \<and> reach s t"
proof -
  let ?m = "disas_memory rom" and ?sz = "length rom"
  obtain d where d: "descend ?m ?sz (analyze ?m ?sz disas_init) = Some d"
    "reach s = reach d" "leader s = leader (glue_from ?sz 0x200 d)" using assms(1) by (rule analysis_cases)
  have pc: "flow ?m ?sz pc" "is_code ?m ?sz pc" using descend_facts(1) [OF d(1) assms(3)] assms(2) d(2) by simp_all
  have "t \<in> set (succs ?m ?sz pc)" using assms(4-6) by (auto simp: succs_def pushes_def Let_def)
  then have "flow ?m ?sz t" by (rule flow.follow [OF pc])
  then have r: "reach d t" using descend_facts(1) [OF d(1)] flow_aligned assms(7) by blast
  have "pc \<in> set (word_addrs ?sz)" using is_code_swept [OF pc(2)] flow_aligned [OF pc(1)] by simp
  then have "leader d t"
    using analyze_target [of pc ?sz ?m] assms(4-6) descend_facts(4) [OF d(1)] by simp
  then show ?thesis using r d(2,3) glue_keeps_live [OF r] by simp
qed

lemma live_targets_labelled_witness:
  "\<exists>s. analysis False [0x12, 0x00] = Some s \<and> leader s 0x200"
proof -
  obtain s where s: "analysis False [0x12, 0x00] = Some s" using analysis_total [of "[0x12, 0x00]" False] by auto
  obtain d where d: "descend (disas_memory [0x12, 0x00]) (length [0x12, 0x00 :: u8])
      (analyze (disas_memory [0x12, 0x00]) (length [0x12, 0x00 :: u8]) disas_init) = Some d" "reach s = reach d"
    using s by (rule analysis_cases)
  have r: "reach s 0x200" using descend_facts(1) [OF d(1), of "0x200"] d(2) demo_code flow.entry by simp
  have w: "word_at (disas_memory [0x12, 0x00]) 0x200 = 0x1200"
    by (simp add: disas_memory_def word_at_def nth_append)
  show ?thesis
    using live_targets_labelled [OF s r, of "0x200"] s demo_code by (simp add: w op_k_def fnnn_def labelable_iff)
qed

text \<open>
  A label inside dead bytes stands only at the start of its run: the byte before it is
  reachable, or it is the first of the ROM.
\<close>

theorem dead_runs_one_label:
  assumes "analysis decode rom = Some s" "leader s a" "\<not> reach s a" "a \<noteq> 0x200"
  shows "even a \<and> 0x200 < a \<and> a < 0x200 + length rom \<and> reach s (a - 1)"
proof -
  let ?m = "disas_memory rom" and ?sz = "length rom"
  obtain d where d: "descend ?m ?sz (analyze ?m ?sz disas_init) = Some d"
    "reach s = reach d" "leader s = leader (glue_from ?sz 0x200 d)" using assms(1) by (rule analysis_cases)
  have "label_inv ?sz (glue_from ?sz 0x200 d)" by (rule glue_label_inv [OF descend_facts(5) [OF d(1)]])
  then have a: "even a" "0x200 < a" "a < 0x200 + ?sz" using assms(2,4) d(3) by (auto simp: label_inv_def)
  then show ?thesis using glue_dead_runs [of ?sz "0x200" d a] assms(2,3) d by simp
qed

lemma dead_runs_one_label_witness:
  "\<exists>s. analysis False [0x12, 0x00, 0xFF, 0xFF] = Some s \<and> leader s 0x202 \<and> \<not> reach s 0x202 \<and> reach s 0x201"
proof -
  let ?rom = "[0x12, 0x00, 0xFF, 0xFF] :: u8 list"
  let ?m = "disas_memory ?rom"
  obtain s where s: "analysis False ?rom = Some s" using analysis_total [of ?rom False] by auto
  obtain d where d: "descend ?m (length ?rom) (analyze ?m (length ?rom) disas_init) = Some d"
    "reach s = reach d" "leader s = leader (glue_from (length ?rom) 0x200 d)"
    using s by (rule analysis_cases)
  have w: "word_at ?m 0x200 = 0x1200" "word_at ?m 0x202 = 0xFFFF"
    by (simp_all add: disas_memory_def word_at_def nth_append)
  have "is_code ?m (length ?rom) 0x200" "\<not> is_code ?m (length ?rom) 0x202"
    by (simp_all add: is_code_def w valid_opcode_def op_k_def fkk_def)
  then have r: "reach d 0x200" "\<not> reach d 0x202" "reach d 0x201" "\<not> reach d 0x203"
    using descend_facts(1,2) [OF d(1), of "0x200"] descend_facts(1,2) [OF d(1), of "0x202"] flow.entry by simp_all
  then have "run_end (\<lambda>a. \<not> reach d a) 0x204 0x202 = 0x204" by (simp add: run_end_def upt_conv_Cons)
  then have "glue_from 4 0x200 d = glue_run 4 0x202 0x204 d"
    using r by (simp add: glue_from_step glue_from_done)
  moreover have len: "length ?rom = 4" by simp
  ultimately have "leader s 0x202"
    using d(3) unfolding len by (simp add: leader_glue_run labelable_iff)
  then show ?thesis using dead_runs_one_label [OF s, of "0x202"] s r d(2) by simp
qed

section \<open>The report\<close>

lemma region_total_Cons: "region_total ((a, b, d) # rs) c = (if d = c then b - a else 0) + region_total rs c"
  by (simp add: region_total_def)

lemma filter_const:
  "(\<And>a. a \<in> set as \<Longrightarrow> c a = d) \<Longrightarrow> filter (\<lambda>a. c a = k) as = (if d = k then as else [])"
  by (induction "as") auto

lemma region_total_count: "region_total (regions c ende pc) k = length (filter (\<lambda>a. c a = k) [pc..<ende])"
proof (induction c ende pc rule: regions.induct)
  case (1 c ende pc)
  show ?case
  proof (cases "pc < ende")
    case True
    let ?stop = "run_end (\<lambda>a. c a = c pc) ende pc"
    have stop: "pc < ?stop" by (rule run_end_progress [OF True]) (rule refl)
    have stop_le: "?stop \<le> ende" by (rule run_end_le) (use True in linarith)
    have "filter (\<lambda>a. c a = k) [pc..<?stop] = (if c pc = k then [pc..<?stop] else [])"
    proof (rule filter_const)
      fix a assume "a \<in> set [pc..<?stop]"
      then have "pc \<le> a" "a < ?stop" by simp_all
      from run_end_inside [OF this] show "c a = c pc" by blast
    qed
    moreover have "[pc..<ende] = [pc..<?stop] @ [?stop..<ende]"
      using upt_add_eq_append [OF less_imp_le [OF stop], of "ende - ?stop"] stop_le by simp
    ultimately have "length (filter (\<lambda>a. c a = k) [pc..<ende]) =
        (if c pc = k then ?stop - pc else 0) + length (filter (\<lambda>a. c a = k) [?stop..<ende])"
      by simp
    then show ?thesis
      using 1 [OF True refl] True by (subst regions.simps) (simp add: region_total_Cons Let_def)
  qed (subst regions.simps, simp add: region_total_def)
qed

text \<open>
  C38: The report accounts for every byte: its regions cut the ROM into runs whose totals count
  the bytes of each class, the code total is the number of reachable bytes, the three totals
  add up to the ROM's size, and without \<^verbatim>\<open>--decode-unreachable\<close> nothing is unknown.
\<close>

theorem report_totals:
  assumes "analysis decode rom = Some s" "length rom \<le> 0xE00"
  shows "(let rs = regions (cls s) (0x200 + length rom) 0x200; bytes = [0x200..<0x200 + length rom] in
    (\<forall>k. region_total rs k = length (filter (\<lambda>a. cls s a = k) bytes)) \<and>
    region_total rs 1 = length (filter (reach s) bytes) \<and>
    region_total rs 0 + region_total rs 1 + region_total rs 2 = length rom \<and>
    (decode \<or> region_total rs 0 = 0))"
proof -
  let ?bytes = "[0x200..<0x200 + length rom]"
  have three: "cls s a = 0 \<or> cls s a = 1 \<or> cls s a = 2" for a
  proof -
    have "cls s a < 3" using analysis_classes(1) [OF assms] by (simp add: classes_ok_def)
    then show ?thesis by linarith
  qed
  have "length (filter (\<lambda>a. cls s a = 0) as) + length (filter (\<lambda>a. cls s a = 1) as) +
      length (filter (\<lambda>a. cls s a = 2) as) = length as" for "as"
  proof (induction "as")
    case (Cons a "as")
    then show ?case using three [of a] by auto
  qed simp
  from this [of ?bytes] have sum: "length (filter (\<lambda>a. cls s a = 0) ?bytes) + length (filter (\<lambda>a. cls s a = 1) ?bytes) +
      length (filter (\<lambda>a. cls s a = 2) ?bytes) = length rom" by simp
  obtain d where d: "descend (disas_memory rom) (length rom) (analyze (disas_memory rom) (length rom) disas_init) = Some d"
    "reach s = reach d" "coded s = coded d" using assms(1) by (rule analysis_cases)
  have "reach s = (\<lambda>a. cls s a = 1)"
    using descend_facts(3) [OF d(1)] d(2,3) unfolding coded_def fun_eq_iff by metis
  moreover have "decode \<or> filter (\<lambda>a. cls s a = 0) ?bytes = []"
    using analysis_classes(2) [OF assms] by (auto simp: filter_empty_conv)
  ultimately show ?thesis using sum by (auto simp: Let_def region_total_count)
qed

lemma report_totals_witness:
  "\<exists>s. analysis False [0x12, 0x00, 0xFF] = Some s \<and>
    (let rs = regions (cls s) (0x200 + length [0x12, 0x00, 0xFF :: u8]) 0x200
     in region_total rs 0 + region_total rs 1 + region_total rs 2 = length [0x12, 0x00, 0xFF :: u8])"
proof -
  obtain s where s: "analysis False [0x12, 0x00, 0xFF] = Some s" using analysis_total [of "[0x12, 0x00, 0xFF]" False] by auto
  have "length [0x12, 0x00, 0xFF :: u8] \<le> 0xE00" by simp
  from report_totals [OF s this] s show ?thesis unfolding Let_def by blast
qed

section \<open>Two limits\<close>

text \<open>
  The prose form of \<^verbatim>\<open>Dxyn\<close> gives its three operands to the wrong places of the format: the
  height printed is x. The assembler form is right.
\<close>

lemma draw_prose_operands:
  "disassemble False disas_init 0x200 0xD125 = ''draw sprite from addr of height 1 at (V2, V5)'' \<and>
   disassemble True disas_init 0x200 0xD125 = ''DRW V1, V2, 0x5''"
  by code_simp

text \<open>
  The write check looks at the code known when the write is met: a store over code reached
  only later on the walk does not raise \<^verbatim>\<open>smc_possible\<close>. Here \<^verbatim>\<open>LD I, 0x206; LD [I], V0;
  JP 0x206; CLS\<close>.
\<close>

lemma late_code_write_unnoticed:
  "\<exists>s. analysis False [0xA2, 0x06, 0xF0, 0x55, 0x12, 0x06, 0x00, 0xE0] = Some s \<and> reach s 0x206 \<and> \<not> smc_possible s"
proof -
  let ?m = "disas_memory [0xA2, 0x06, 0xF0, 0x55, 0x12, 0x06, 0x00, 0xE0]"
  have w: "word_at ?m 0x200 = 0xA206" "word_at ?m 0x202 = 0xF055" "word_at ?m 0x204 = 0x1206" "word_at ?m 0x206 = 0x00E0"
    by (simp_all add: disas_memory_def word_at_def nth_append)
  have p: "pushes 8 0x200 0xA206 = []" "pushes 8 0x202 0xF055 = []" "pushes 8 0x204 0x1206 = [0x206]"
     "pushes 8 0x206 0x00E0 = []"
    by (simp_all add: pushes_def op_k_def fnnn_def labelable_iff)
  have v: "valid_opcode 0xA206" "valid_opcode 0xF055" "valid_opcode 0x1206" "valid_opcode 0x00E0" 
    by (simp_all add: valid_opcode_def op_k_def fkk_def)
  have f: "falls_through 0xA206" "falls_through 0xF055" "\<not> falls_through 0x1206" "falls_through 0x00E0" 
    by (simp_all add: falls_through_def op_k_def)
  have n: "next_ldi l 0xA206 = Some 0x206" "next_ldi l 0xF055 = l" "next_ldi l 0xE0 = l" for l
    by (simp_all add: next_ldi_def op_k_def fnnn_def)
  have e: "note_effects l 8 0xA206 s = s" "note_effects l 8 0x1206 s = s" "note_effects l 8 0x00E0 s = s"
    "note_effects l 8 0xF055 s = mark_ldi l 1 8 (note_write l 1 s)" for l s
    by (simp_all add: note_effects_def op_k_def fkk_def fx_def)
  note step = Let_def w p v f n e push_all_def WORK_SIZE_def
  define s0 where "s0 = analyze ?m 8 disas_init"
  define s2 where "s2 = note_write (Some 0x206) 1 (mark_code 0x202 (mark_code 0x200 s0))"
  define s3 where "s3 = mark_code 0x204 (mark_ldi (Some 0x206) 1 8 s2)"
  have r: "\<not> reach s0 a" for a by (simp add: s0_def disas_init_def)
  have "walk ?m 8 0x200 None [] s0 = walk ?m 8 0x202 (Some 0x206) [] (mark_code 0x200 s0)"
    by (subst walk.simps) (simp add: step r)
  also have "\<dots> = walk ?m 8 0x204 (Some 0x206) [] (mark_ldi (Some 0x206) 1 8 s2)"
    by (subst walk.simps) (simp add: step r s2_def)
  also have "\<dots> = Some ([0x206], s3)"
    by (subst walk.simps) (simp add: step r s2_def s3_def)
  finally have w1: "walk ?m 8 0x200 None [] s0 = Some ([0x206], s3)" .
  have "walk ?m 8 0x206 None [] s3 = walk ?m 8 0x208 None [] (mark_code 0x206 s3)"
    by (subst walk.simps) (simp add: step r s2_def s3_def)
  also have "\<dots> = Some ([], mark_code 0x206 s3)"
    by (subst walk.simps) simp
  finally have w2: "walk ?m 8 0x206 None [] s3 = Some ([], mark_code 0x206 s3)" .
  have d: "descend ?m 8 s0 = Some (mark_code 0x206 s3)" by (simp add: descend_def w1 w2)
  have smc: "\<not> smc_possible s3"
  proof -
    have "smc_possible (mark_ldi (Some 0x206) 1 8 u) = smc_possible u" for u
      by (simp add: mark_ldi_def mark_data_def upt_rec)
    then show ?thesis
      by (simp add: s3_def s2_def mark_code_def note_write_def upt_rec r) (simp add: s0_def disas_init_def)
  qed
  have len: "length [0xA2, 0x06, 0xF0, 0x55, 0x12, 0x06, 0x00, 0xE0 :: u8] = 8" by simp
  show ?thesis
    using smc unfolding analysis_def Let_def len d [unfolded s0_def]
    by (simp add: glue_unreachable_def) (simp add: mark_code_def)
qed

end
