(* ===== verification/C8_Text.thy ===== *)
theory C8_Text
  imports C8_Asm_Props C8_Disas_Thms
begin

text \<open>
  Reading back what \<^verbatim>\<open>disas --asm\<close> prints: characters, numbers, tokens, opcode fields; one
  line of disassembly assembles to the word it came from.
\<close>

section \<open>Digits\<close>

lemma code_char_of [simp]: "n < 256 \<Longrightarrow> code (char_of n) = n"
  by (simp add: code_def)

lemma code_hexd: "n < 16 \<Longrightarrow> code (hexd n) = (if n < 10 then 48 + n else 55 + n)"
  by (simp add: hexd_def)

lemma digit_val_hexd [simp]: "n < 16 \<Longrightarrow> digit_val (hexd n) = n"
  by (auto simp: digit_val_def isdigit_def isupper_def code_hexd)

lemma char_eq_code: "c = d \<longleftrightarrow> code c = code d"
  by (simp add: code_def)

definition hex_char :: "char \<Rightarrow> bool" where
  "hex_char c \<longleftrightarrow> (\<exists>n<16. c = hexd n)"

lemma hex_char_hexd [simp]: "n < 16 \<Longrightarrow> hex_char (hexd n)"
  by (auto simp: hex_char_def)

lemma hex_char_facts:
  assumes "hex_char c"
  shows "token_char c" "toupper c = c" "isalnum c" "c \<noteq> CHR '':''" "c \<noteq> CHR 0x0A" "c \<noteq> CHR 0x00"
    "\<not> isspace c" "\<not> comment_char c" "c \<noteq> CHR '',''"
proof -
  obtain n where n: "n < 16" "c = hexd n" using assms by (auto simp: hex_char_def)
  then have k: "48 \<le> code c \<and> code c \<le> 57 \<or> 65 \<le> code c \<and> code c \<le> 70"
    by (auto simp: code_hexd)
  show "token_char c" "toupper c = c" "isalnum c" "c \<noteq> CHR '':''" "c \<noteq> CHR 0x0A" "c \<noteq> CHR 0x00"
    "\<not> isspace c" "\<not> comment_char c" "c \<noteq> CHR '',''"
    using k by (auto simp: token_char_def toupper_def isalnum_def isalpha_def isupper_def islower_def
        isdigit_def isspace_def comment_char_def char_eq_code [of c], auto simp: code_def)
qed

lemma hex_char_hex: "c \<in> set (hex n) \<Longrightarrow> hex_char c"
proof (induction n rule: less_induct)
  case (less n)
  show ?case
  proof (cases "n < 16")
    case True
    then show ?thesis using less.prems by (simp add: numeral_of.simps [of 16 n])
  next
    case False
    then show ?thesis using less.prems less.IH [of "n div 16"] by (auto simp: numeral_of.simps [of 16 n])
  qed
qed

lemma hexd_0: "hexd 0 = CHR ''0''"
  by (simp add: char_eq_code code_hexd) (simp add: code_def)

lemma hex_char_hexp: "c \<in> set (hexp w n) \<Longrightarrow> hex_char c"
  using hex_char_hexd [of 0] by (auto simp: hexp_def hex_char_hex hexd_0 split: if_splits)

lemma hex_small: "n < 16 \<Longrightarrow> hex n = [hexd n]"
  by (simp add: numeral_of.simps)

lemma hex_nonempty [simp]: "hex n \<noteq> []"
  by (subst numeral_of.simps) simp

lemma hexp_nonempty [simp]: "hexp w n \<noteq> []"
  by (simp add: hexp_def)

lemma read_digits_append:
  "(\<And>c. c \<in> set s \<Longrightarrow> digit_val c < b) \<Longrightarrow>
   read_digits b a (s @ t) = read_digits b (fst (read_digits b a s)) t"
  by (induction s arbitrary: a) auto

lemma hex_char_digit: "hex_char c \<Longrightarrow> digit_val c < 16"
  by (auto simp: hex_char_def)

lemma read_hex: "read_digits 16 0 (hex n) = (n, [])"
proof (induction n rule: less_induct)
  case (less n)
  show ?case
  proof (cases "n < 16")
    case True
    then show ?thesis by (simp add: hex_small)
  next
    case False
    have "read_digits 16 0 (hex (n div 16) @ [hexd (n mod 16)]) =
        read_digits 16 (fst (read_digits 16 0 (hex (n div 16)))) [hexd (n mod 16)]"
      by (rule read_digits_append) (simp add: hex_char_digit hex_char_hex)
    then show ?thesis using less [of "n div 16"] False by (simp add: numeral_of.simps [of 16 n])
  qed
qed

lemma read_hexp: "read_digits 16 0 (hexp w n) = (n, [])"
proof -
  have "read_digits 16 0 (replicate k CHR ''0'' @ s) = read_digits 16 0 s" for k s
  proof (induction k)
    case (Suc k)
    have "digit_val CHR ''0'' = 0" using digit_val_hexd [of 0] by (simp add: hexd_0)
    then show ?case using Suc by simp
  qed simp
  then show ?thesis by (simp add: hexp_def read_hex)
qed

lemma hexp_inj: "hexp w a = hexp w b \<Longrightarrow> a = b"
  by (metis read_hexp fst_conv)

lemma length_hex: "0 < w \<Longrightarrow> n < 16 ^ w \<Longrightarrow> length (hex n) \<le> w"
proof (induction w arbitrary: n)
  case (Suc w)
  show ?case
  proof (cases "n < 16")
    case False
    then have "w \<noteq> 0" using Suc.prems by (cases w) auto
    moreover have "n div 16 < 16 ^ w" using Suc.prems by (simp add: less_mult_imp_div_less mult.commute)
    ultimately show ?thesis using Suc.IH [of "n div 16"] False by (simp add: numeral_of.simps [of 16 n])
  qed (simp add: hex_small)
qed simp

lemma length_hexp: "0 < w \<Longrightarrow> n < 16 ^ w \<Longrightarrow> length (hexp w n) = w"
  using length_hex [of w n] by (simp add: hexp_def)

lemma token_hex [simp]:
  "c \<in> set (hexp w n) \<Longrightarrow> token_char c" "c \<in> set (hex n) \<Longrightarrow> token_char c"
  by (auto dest: hex_char_hexp hex_char_hex simp: hex_char_facts)

lemma upper_hex [simp]: "map toupper (hexp w n) = hexp w n" "map toupper (hex n) = hex n"
  by (auto intro!: map_idI dest: hex_char_hexp hex_char_hex simp: hex_char_facts)

section \<open>Operands\<close>

lemma strtoul_hexp: "n < 2 ^ 64 \<Longrightarrow> strtoul (''0X'' @ hexp w n) = (n, [], False)"
proof -
  assume n: "n < 2 ^ 64"
  obtain d ds where d: "hexp w n = d # ds" using hexp_nonempty by (meson list.exhaust)
  then have "digit_val d < 16" using hex_char_digit hex_char_hexp by (metis list.set_intros(1))
  then have "strtoul (''0X'' @ hexp w n) =
      (let (m, rest) = read_digits 16 0 (hexp w n) in if rest = hexp w n then (0, ''0X'' @ hexp w n, False)
       else if m \<ge> 2 ^ 64 then (2 ^ 64 - 1, rest, True) else (m, rest, False))"
    by (simp add: strtoul_def read_sign_def isspace_def code_def d split: prod.split)
  then show ?thesis using n d read_hexp [of w n] by simp
qed

lemma value_hexp: "n \<le> 0xFFFF \<Longrightarrow> value_of syms r (''0X'' @ hexp w n) = Inr n"
  using strtoul_hexp [of n w] by (simp add: value_of_def)

lemma value_hex: "n < 16 \<Longrightarrow> value_of syms r (''0X'' @ hex n) = Inr n"
  using value_hexp [of n syms r 0] by (simp add: hexp_def)

lemma reg_hex: "x < 16 \<Longrightarrow> reg (''V'' @ hex x) = Inr x"
  by (auto simp: reg_def hex_small isxdigit_def isdigit_def code_hexd Let_def)

definition BN :: "nat \<Rightarrow> string" where "BN a = ''BLOCK'' @ hexp 3 a"

lemma BN_inj [simp]: "BN a = BN b \<longleftrightarrow> a = b"
  by (auto simp: BN_def dest: hexp_inj)

lemma value_BN:
  "value_of syms r (BN a) =
    (case lookup syms (BN a) of Some v \<Rightarrow> Inr v | None \<Rightarrow> if r then Inl (Undefined_symbol (BN a)) else Inr 0)"
proof -
  have "strtoul (BN a) = (0, BN a, False)"
    by (simp add: strtoul_def read_sign_def BN_def isspace_def code_def digit_val_def isdigit_def isupper_def
        islower_def split: list.split)
  moreover have "BN a \<noteq> []" by (simp add: BN_def)
  ultimately show ?thesis by (simp add: value_of_def)
qed

section \<open>Opcodes as numbers\<close>

lemma or_nat: "2 ^ n dvd a \<Longrightarrow> b < 2 ^ n \<Longrightarrow> a OR b = a + (b :: nat)"
proof -
  assume "2 ^ n dvd a" and b: "b < 2 ^ n"
  then obtain c where a: "a = push_bit n c" by (auto simp: push_bit_eq_mult mult.commute elim: dvdE)
  have "b = take_bit n b" using b by (simp add: take_bit_nat_eq_self)
  then have "push_bit n c AND b = push_bit n c AND take_bit n b" by simp
  also have "\<dots> = 0" by (rule bit_eqI) (auto simp: bit_simps)
  finally show ?thesis unfolding a by (rule disjunctive_add_eq_or [symmetric])
qed

text \<open>The encoders add up: the fields do not overlap.\<close>

lemma enc_x_add:
  assumes "4096 dvd hi" "low < 256" "x < 16"
  shows "enc_x (hi + low) x = hi + x * 256 + low"
proof -
  have "hi OR (x * 256 + low) = hi + (x * 256 + low)" "hi OR low = hi + low" "x * 256 OR low = x * 256 + low"
    using or_nat [of 12 hi "x * 256 + low"] or_nat [of 12 hi low] or_nat [of 8 "x * 256" low] assms by auto
  then show ?thesis
    by (simp add: enc_x_def push_bit_eq_mult) (metis add.commute add.left_commute or.assoc or.commute)
qed

lemma enc_xy_add:
  assumes "4096 dvd hi" "low < 16" "x < 16" "y < 16"
  shows "enc_xy (hi + low) x y = hi + x * 256 + y * 16 + low"
proof -
  have "x * 256 OR y * 16 = x * 256 + y * 16" "(x * 256 + y * 16) OR low = x * 256 + y * 16 + low"
    "hi OR (x * 256 + y * 16 + low) = hi + (x * 256 + y * 16 + low)" "hi OR low = hi + low"
    using or_nat [of 8 "x * 256" "y * 16"] or_nat [of 4 "x * 256 + y * 16" low]
      or_nat [of 12 hi "x * 256 + y * 16 + low"] or_nat [of 12 hi low] assms by auto
  then show ?thesis
    by (simp add: enc_xy_def push_bit_eq_mult) (metis add.assoc or.assoc or.commute)
qed

lemma or_low:
  "256 dvd w \<Longrightarrow> z < 256 \<Longrightarrow> w OR z = w + (z :: nat)"
  "16 dvd w \<Longrightarrow> z < 16 \<Longrightarrow> w OR z = w + (z :: nat)"
  "4096 dvd w \<Longrightarrow> z < 4096 \<Longrightarrow> w OR z = w + (z :: nat)"
  using or_nat [of 8 w z] or_nat [of 4 w z] or_nat [of 12 w z] by simp_all

lemma fields:
  "op_k opc = unat opc div 4096" "fx opc = unat opc div 256 mod 16" "fy opc = unat opc div 16 mod 16"
  "fn opc = unat opc mod 16" "fkk opc = unat opc mod 256" "fnnn opc = unat opc mod 4096"
proof -
  have m: "unat (w AND mask k) = unat w mod 2 ^ k" for w :: u16 and k
    by (metis take_bit_eq_mask unsigned_take_bit_eq take_bit_eq_mod)
  have d: "unat (drop_bit k w) = unat w div 2 ^ k" for w :: u16 and k
    unfolding unsigned_drop_bit_eq
    using unsigned_less [of w, where ?'a = nat] by (simp add: drop_bit_eq_div take_bit_nat_eq_self)
  show "op_k opc = unat opc div 4096" "fx opc = unat opc div 256 mod 16" "fy opc = unat opc div 16 mod 16"
    "fn opc = unat opc mod 16" "fkk opc = unat opc mod 256" "fnnn opc = unat opc mod 4096"
    using m [of _ 4] m [of _ 8] m [of _ 12] d [of 12 opc] d [of 8 opc] d [of 4 opc]
    by (simp_all add: op_k_def fx_def fy_def fn_def fkk_def fnnn_def mask_eq_exp_minus_1)
qed

lemma field_bounds [simp]:
  "fx opc < 16" "fy opc < 16" "fn opc < 16" "fkk opc < 256" "fnnn opc < 4096" "op_k opc < 16"
  using unsigned_less [of opc, where ?'a = nat] by (simp_all add: fields less_mult_imp_div_less)

lemma opcode_sum:
  "unat opc = op_k opc * 4096 + fnnn opc" "fnnn opc = fx opc * 256 + fkk opc" "fkk opc = fy opc * 16 + fn opc"
proof -
  show "unat opc = op_k opc * 4096 + fnnn opc" by (simp add: fields)
  show "fnnn opc = fx opc * 256 + fkk opc"
    using mod_mult2_eq [of "unat opc" 256 16] by (simp add: fields)
  show "fkk opc = fy opc * 16 + fn opc"
    using mod_mult2_eq [of "unat opc" 16 16] by (simp add: fields)
qed

lemma word_bytes_add:
  assumes "b < 256"
  shows "word_bytes (a * 256 + b) = [of_nat a, of_nat b]"
proof -
  have "of_nat (a * 256) = (0 :: u8)" by (subst word_of_nat_eq_0_iff) simp
  then have "of_nat (a * 256 + b) = (of_nat b :: u8)" by (simp only: of_nat_add add_0)
  moreover have "drop_bit 8 (a * 256 + b) = a" using assms by (simp add: drop_bit_eq_div)
  ultimately show ?thesis unfolding word_bytes_def by (simp only:)
qed

lemma word_bytes_word_at: "word_bytes (unat (word_at m pc)) = [m ! pc, m ! (pc + 1)]"
proof -
  let ?w = "word_at m pc"
  have "unat ?w = unat (m ! pc) * 256 + unat (m ! (pc + 1))"
  proof -
    have "push_bit 8 (ucast (m ! pc) :: u16) AND ucast (m ! (pc + 1)) = 0"
      by (rule bit_word_eqI) (auto simp: bit_simps dest: bit_imp_le_length)
    then have "?w = push_bit 8 (ucast (m ! pc)) + ucast (m ! (pc + 1))"
      unfolding word_at_def by (rule disjunctive_add_eq_or [symmetric])
    then show ?thesis
      using unat_u8_less [of "m ! pc"] unat_u8_less [of "m ! (pc + 1)"]
      by (simp add: push_bit_eq_mult unat_word_ariths unat_ucast_16)
  qed
  then show ?thesis
    by (simp only: word_bytes_add [OF unat_u8_less] of_nat_unat ucast_id)
qed

section \<open>One line\<close>

lemmas lit_chars = token_char_def [of "Char b0 b1 b2 b3 b4 b5 b6 b7"]
  isspace_def [of "Char b0 b1 b2 b3 b4 b5 b6 b7"] comment_char_def [of "Char b0 b1 b2 b3 b4 b5 b6 b7"]
  code_def [of "Char b0 b1 b2 b3 b4 b5 b6 b7"] islower_def [of "Char b0 b1 b2 b3 b4 b5 b6 b7"]
  for b0 b1 b2 b3 b4 b5 b6 b7

lemma toupper_other: "\<not> islower c \<Longrightarrow> toupper c = c"
  by (simp add: toupper_def)

lemma toupper_lits:
  "toupper CHR ''x'' = CHR ''X''" "toupper CHR ''b'' = CHR ''B''" "toupper CHR ''l'' = CHR ''L''"
  "toupper CHR ''o'' = CHR ''O''" "toupper CHR ''c'' = CHR ''C''" "toupper CHR ''k'' = CHR ''K''"
  "toupper CHR ''w'' = CHR ''W''" "toupper CHR ''r'' = CHR ''R''" "toupper CHR ''d'' = CHR ''D''"
  "toupper CHR ''y'' = CHR ''Y''" "toupper CHR ''t'' = CHR ''T''" "toupper CHR ''e'' = CHR ''E''"
  unfolding char_eq_code by (simp_all add: toupper_def islower_def lit_chars)

lemmas tokenizing = tokenize_def lit_chars toupper_other toupper_lits MAX_TOKENS_def newline_def
  takeWhile_append2 dropWhile_append2

text \<open>A line that assembles to one word, to the right one when its symbols are resolved.\<close>

definition assembles :: "symbols \<Rightarrow> bool \<Rightarrow> string \<Rightarrow> nat \<Rightarrow> bool" where
  "assembles syms r line v \<longleftrightarrow>
     (\<exists>t z. tokenize line = Inr t \<and> t \<noteq> [] \<and> \<not> labelled t \<and> t ! 0 \<noteq> ''.ORG'' \<and>
        (\<forall>pc. line_size syms r pc t = Inr (2, word_bytes z)) \<and> (r \<longrightarrow> z = v))"

lemma assembles_instruction:
  assumes "tokenize line = Inr (m # ts)" "last m \<noteq> CHR '':''" "hd m \<noteq> CHR ''.''"
    and "instruction syms r (m # ts) = Inr z" "r \<longrightarrow> z = v"
  shows "assembles syms r line v"
proof -
  have "m \<noteq> ''.ORG''" "m \<noteq> ''.BYTE''" "m \<noteq> ''.WORD''" using assms(3) by auto
  then have "line_size syms r pc (m # ts) = Inr (2, word_bytes z)" for pc
    using assms(4) by (simp add: line_size_def)
  then show ?thesis unfolding assembles_def using assms \<open>m \<noteq> ''.ORG''\<close>
    by (intro exI [of _ "m # ts"] exI [of _ z]) (simp add: labelled_def)
qed

lemma assembles_word:
  assumes "tokenize line = Inr [''.WORD'', ''0X'' @ hexp 4 v]" "v \<le> 0xFFFF"
  shows "assembles syms r line v"
  unfolding assembles_def
  by (rule exI [of _ "[''.WORD'', ''0X'' @ hexp 4 v]"], rule exI [of _ v])
    (simp add: assms(1) labelled_def line_size_def ranged_def value_hexp [OF assms(2), simplified] assms(2) not_less)

text \<open>What the symbols hold: labels of the disassembly with their addresses, all of them once resolved.\<close>

definition block_symbols :: "symbols \<Rightarrow> bool \<Rightarrow> disas \<Rightarrow> bool" where
  "block_symbols syms r s \<longleftrightarrow>
     (\<forall>a. a < 4096 \<longrightarrow> lookup syms (BN a) = None \<or> lookup syms (BN a) = Some a) \<and>
     (\<forall>a. r \<longrightarrow> leader s a \<longrightarrow> a < 4096 \<longrightarrow> lookup syms (BN a) = Some a)"

definition target_token :: "disas \<Rightarrow> nat \<Rightarrow> string" where
  "target_token s a = (if leader s a then BN a else ''0X'' @ hexp 3 a)"

lemma ranged_target:
  assumes "block_symbols syms r s" "a < 4096"
  shows "\<exists>z. ranged syms r (target_token s a) 0xfff what = Inr z \<and> z < 4096 \<and> (r \<longrightarrow> z = a)"
proof -
  have "a \<le> 0xFFFF" using assms(2) by simp
  then show ?thesis
    using assms value_hexp [of a syms r 3]
    by (cases "leader s a"; cases "lookup syms (BN a)"; cases r)
      (auto simp: ranged_def target_token_def value_BN block_symbols_def)
qed

section \<open>The forms of a line\<close>

definition line_tail :: "string \<Rightarrow> bool" where
  "line_tail u \<longleftrightarrow> u = newline \<or> u = '' ; unreachable'' @ newline"

lemma tokenize_targets:
  assumes "line_tail u"
  shows "tokenize (''        CLS'' @ u) = Inr [''CLS'']"
    "tokenize (''        RET'' @ u) = Inr [''RET'']"
    "tokenize (''        .word 0x'' @ hexp 4 v @ '' ; unrecognized opcode'' @ u) = Inr [''.WORD'', ''0X'' @ hexp 4 v]"
    "tokenize (''        .word 0x'' @ hexp 4 v @ '' ; data (unreachable)'' @ u) = Inr [''.WORD'', ''0X'' @ hexp 4 v]"
    "tokenize (''        JP '' @ block_name a @ u) = Inr [''JP'', BN a]"
    "tokenize (''        JP 0x'' @ hexp 3 a @ u) = Inr [''JP'', ''0X'' @ hexp 3 a]"
    "tokenize (''        CALL '' @ block_name a @ u) = Inr [''CALL'', BN a]"
    "tokenize (''        CALL 0x'' @ hexp 3 a @ u) = Inr [''CALL'', ''0X'' @ hexp 3 a]"
    "tokenize (''        LD I, '' @ block_name a @ u) = Inr [''LD'', ''I'', BN a]"
    "tokenize (''        LD I, 0x'' @ hexp 3 a @ u) = Inr [''LD'', ''I'', ''0X'' @ hexp 3 a]"
    "tokenize (''        JP V0, 0x'' @ hexp 3 a @
       '' ; WARNING: indirect jump, block analysis may be incomplete'' @ u) = Inr [''JP'', ''V0'', ''0X'' @ hexp 3 a]"
  using assms unfolding line_tail_def by (elim disjE; simp add: tokenizing block_name_def BN_def)+

lemma tokenize_bytes:
  assumes "line_tail u"
  shows "tokenize (''        SE V'' @ hex x @ '', 0x'' @ hexp 2 v @ u) = Inr [''SE'', ''V'' @ hex x, ''0X'' @ hexp 2 v]"
    "tokenize (''        SNE V'' @ hex x @ '', 0x'' @ hexp 2 v @ u) = Inr [''SNE'', ''V'' @ hex x, ''0X'' @ hexp 2 v]"
    "tokenize (''        LD V'' @ hex x @ '', 0x'' @ hexp 2 v @ u) = Inr [''LD'', ''V'' @ hex x, ''0X'' @ hexp 2 v]"
    "tokenize (''        ADD V'' @ hex x @ '', 0x'' @ hexp 2 v @ u) = Inr [''ADD'', ''V'' @ hex x, ''0X'' @ hexp 2 v]"
    "tokenize (''        RND V'' @ hex x @ '', 0x'' @ hexp 2 v @ u) = Inr [''RND'', ''V'' @ hex x, ''0X'' @ hexp 2 v]"
    "tokenize (''        DRW V'' @ hex x @ '', V'' @ hex y @ '', 0x'' @ hex v @ u) =
       Inr [''DRW'', ''V'' @ hex x, ''V'' @ hex y, ''0X'' @ hex v]"
    "tokenize (''        SKP V'' @ hex x @ u) = Inr [''SKP'', ''V'' @ hex x]"
    "tokenize (''        SKNP V'' @ hex x @ u) = Inr [''SKNP'', ''V'' @ hex x]"
  using assms unfolding line_tail_def by (elim disjE; simp add: tokenizing)+

lemma tokenize_regs:
  assumes "line_tail u"
  shows "tokenize (''        SE V'' @ hex x @ '', V'' @ hex y @ u) = Inr [''SE'', ''V'' @ hex x, ''V'' @ hex y]"
    "tokenize (''        SNE V'' @ hex x @ '', V'' @ hex y @ u) = Inr [''SNE'', ''V'' @ hex x, ''V'' @ hex y]"
    "tokenize (''        LD V'' @ hex x @ '', V'' @ hex y @ u) = Inr [''LD'', ''V'' @ hex x, ''V'' @ hex y]"
    "tokenize (''        OR V'' @ hex x @ '', V'' @ hex y @ u) = Inr [''OR'', ''V'' @ hex x, ''V'' @ hex y]"
    "tokenize (''        AND V'' @ hex x @ '', V'' @ hex y @ u) = Inr [''AND'', ''V'' @ hex x, ''V'' @ hex y]"
    "tokenize (''        XOR V'' @ hex x @ '', V'' @ hex y @ u) = Inr [''XOR'', ''V'' @ hex x, ''V'' @ hex y]"
    "tokenize (''        ADD V'' @ hex x @ '', V'' @ hex y @ u) = Inr [''ADD'', ''V'' @ hex x, ''V'' @ hex y]"
    "tokenize (''        SUB V'' @ hex x @ '', V'' @ hex y @ u) = Inr [''SUB'', ''V'' @ hex x, ''V'' @ hex y]"
    "tokenize (''        SHR V'' @ hex x @ '', V'' @ hex y @ u) = Inr [''SHR'', ''V'' @ hex x, ''V'' @ hex y]"
    "tokenize (''        SUBN V'' @ hex x @ '', V'' @ hex y @ u) = Inr [''SUBN'', ''V'' @ hex x, ''V'' @ hex y]"
    "tokenize (''        SHL V'' @ hex x @ '', V'' @ hex y @ u) = Inr [''SHL'', ''V'' @ hex x, ''V'' @ hex y]"
  using assms unfolding line_tail_def by (elim disjE; simp add: tokenizing)+

lemma tokenize_special:
  assumes "line_tail u"
  shows "tokenize (''        LD V'' @ hex x @ '', DT'' @ u) = Inr [''LD'', ''V'' @ hex x, ''DT'']"
    "tokenize (''        LD V'' @ hex x @ '', K'' @ u) = Inr [''LD'', ''V'' @ hex x, ''K'']"
    "tokenize (''        LD DT, V'' @ hex x @ u) = Inr [''LD'', ''DT'', ''V'' @ hex x]"
    "tokenize (''        LD ST, V'' @ hex x @ u) = Inr [''LD'', ''ST'', ''V'' @ hex x]"
    "tokenize (''        ADD I, V'' @ hex x @ u) = Inr [''ADD'', ''I'', ''V'' @ hex x]"
    "tokenize (''        LD F, V'' @ hex x @ u) = Inr [''LD'', ''F'', ''V'' @ hex x]"
    "tokenize (''        LD B, V'' @ hex x @ u) = Inr [''LD'', ''B'', ''V'' @ hex x]"
    "tokenize (''        LD [I], V'' @ hex x @ u) = Inr [''LD'', ''[I]'', ''V'' @ hex x]"
    "tokenize (''        LD V'' @ hex x @ '', [I]'' @ u) = Inr [''LD'', ''V'' @ hex x, ''[I]'']"
  using assms unfolding line_tail_def by (elim disjE; simp add: tokenizing)+

text \<open>What the encoder makes of these tokens.\<close>

lemma instruction_target:
  assumes "block_symbols syms r s" "a < 4096" "k = 0x1000 \<or> k = 0x2000 \<or> k = 0xA000"
  shows "\<exists>z. instruction syms r (if k = 0x1000 then [''JP'', target_token s a]
      else if k = 0x2000 then [''CALL'', target_token s a] else [''LD'', ''I'', target_token s a]) = Inr z \<and>
    (r \<longrightarrow> z = k + a)"
proof -
  obtain z where z: "ranged syms r (target_token s a) 0xfff ''address'' = Inr z" "z < 4096" "r \<longrightarrow> z = a"
    using ranged_target [OF assms(1,2)] by blast
  have "0x1000 OR z = 0x1000 + z" "0x2000 OR z = 0x2000 + z" "0xA000 OR z = 0xA000 + z"
    using z(2) or_low(3) [of "0x1000" z] or_low(3) [of "0x2000" z] or_low(3) [of "0xA000" z] by simp_all
  then show ?thesis
    using assms(3) z by (auto simp: instruction_def asm_jp_def asm_ld_def need_def)
qed

lemma ranged_hexp: "n \<le> b \<Longrightarrow> n \<le> 0xFFFF \<Longrightarrow> ranged syms r (''0X'' @ hexp w n) b what = Inr n"
  by (simp only: ranged_def value_hexp andthen.simps) simp

lemma ranged_hex: "n < 16 \<Longrightarrow> ranged syms r (''0X'' @ hex n) 0xf what = Inr n"
  by (simp only: ranged_def value_hex andthen.simps) simp

lemmas encode = instruction_def asm_jp_def asm_skip_def asm_ld_def asm_add_def asm_alu_def asm_shift_def
  asm_rnd_def asm_drw_def need_def starts_V_def

lemma enc_add0:
  "4096 dvd hi \<Longrightarrow> x < 16 \<Longrightarrow> enc_x hi x = hi + x * 256"
  "4096 dvd hi \<Longrightarrow> x < 16 \<Longrightarrow> y < 16 \<Longrightarrow> enc_xy hi x y = hi + x * 256 + y * 16"
  using enc_x_add [of hi 0 x] enc_xy_add [of hi 0 x y] by simp_all

lemma instruction_byte:
  assumes "x < 16" "v < 256"
  shows "instruction syms r [''SE'', ''V'' @ hex x, ''0X'' @ hexp 2 v] = Inr (0x3000 + x * 256 + v)"
    "instruction syms r [''SNE'', ''V'' @ hex x, ''0X'' @ hexp 2 v] = Inr (0x4000 + x * 256 + v)"
    "instruction syms r [''LD'', ''V'' @ hex x, ''0X'' @ hexp 2 v] = Inr (0x6000 + x * 256 + v)"
    "instruction syms r [''ADD'', ''V'' @ hex x, ''0X'' @ hexp 2 v] = Inr (0x7000 + x * 256 + v)"
    "instruction syms r [''RND'', ''V'' @ hex x, ''0X'' @ hexp 2 v] = Inr (0xC000 + x * 256 + v)"
proof -
  have b: "ranged syms r (''0X'' @ hexp 2 v) 0xff ''byte'' = Inr v"
    by (rule ranged_hexp) (use assms in simp_all)
  have o: "enc_x hi x OR v = hi + x * 256 + v" if "4096 dvd hi" for hi
  proof -
    from that obtain c where "hi = 256 * (16 * c)" by (auto elim!: dvdE)
    then have "256 dvd hi" by simp
    then show ?thesis using that assms by (simp add: enc_add0 or_low(1))
  qed
  show "instruction syms r [''SE'', ''V'' @ hex x, ''0X'' @ hexp 2 v] = Inr (0x3000 + x * 256 + v)"
    "instruction syms r [''SNE'', ''V'' @ hex x, ''0X'' @ hexp 2 v] = Inr (0x4000 + x * 256 + v)"
    "instruction syms r [''LD'', ''V'' @ hex x, ''0X'' @ hexp 2 v] = Inr (0x6000 + x * 256 + v)"
    "instruction syms r [''ADD'', ''V'' @ hex x, ''0X'' @ hexp 2 v] = Inr (0x7000 + x * 256 + v)"
    "instruction syms r [''RND'', ''V'' @ hex x, ''0X'' @ hexp 2 v] = Inr (0xC000 + x * 256 + v)"
    using b reg_hex [OF assms(1)] by (simp_all add: encode o)
qed

lemma instruction_regs:
  assumes "x < 16" "y < 16"
  shows "instruction syms r [''SE'', ''V'' @ hex x, ''V'' @ hex y] = Inr (0x5000 + x * 256 + y * 16)"
    "instruction syms r [''SNE'', ''V'' @ hex x, ''V'' @ hex y] = Inr (0x9000 + x * 256 + y * 16)"
    "instruction syms r [''LD'', ''V'' @ hex x, ''V'' @ hex y] = Inr (0x8000 + x * 256 + y * 16)"
    "instruction syms r [''OR'', ''V'' @ hex x, ''V'' @ hex y] = Inr (0x8000 + x * 256 + y * 16 + 1)"
    "instruction syms r [''AND'', ''V'' @ hex x, ''V'' @ hex y] = Inr (0x8000 + x * 256 + y * 16 + 2)"
    "instruction syms r [''XOR'', ''V'' @ hex x, ''V'' @ hex y] = Inr (0x8000 + x * 256 + y * 16 + 3)"
    "instruction syms r [''ADD'', ''V'' @ hex x, ''V'' @ hex y] = Inr (0x8000 + x * 256 + y * 16 + 4)"
    "instruction syms r [''SUB'', ''V'' @ hex x, ''V'' @ hex y] = Inr (0x8000 + x * 256 + y * 16 + 5)"
    "instruction syms r [''SHR'', ''V'' @ hex x, ''V'' @ hex y] = Inr (0x8000 + x * 256 + y * 16 + 6)"
    "instruction syms r [''SUBN'', ''V'' @ hex x, ''V'' @ hex y] = Inr (0x8000 + x * 256 + y * 16 + 7)"
    "instruction syms r [''SHL'', ''V'' @ hex x, ''V'' @ hex y] = Inr (0x8000 + x * 256 + y * 16 + 14)"
proof -
  have o: "0x8000 + x * 256 + y * 16 OR v = 0x8000 + x * 256 + y * 16 + v" if "v < 16" for v
  proof (rule or_low(2) [OF _ that])
    show "16 dvd 0x8000 + x * 256 + y * 16" by presburger
  qed
  have add: "enc_xy 0x8004 x y = 0x8000 + x * 256 + y * 16 + 4"
    using enc_xy_add [of "0x8000" 4 x y] assms by simp
  show "instruction syms r [''SE'', ''V'' @ hex x, ''V'' @ hex y] = Inr (0x5000 + x * 256 + y * 16)"
    "instruction syms r [''SNE'', ''V'' @ hex x, ''V'' @ hex y] = Inr (0x9000 + x * 256 + y * 16)"
    "instruction syms r [''LD'', ''V'' @ hex x, ''V'' @ hex y] = Inr (0x8000 + x * 256 + y * 16)"
    "instruction syms r [''ADD'', ''V'' @ hex x, ''V'' @ hex y] = Inr (0x8000 + x * 256 + y * 16 + 4)"
    "instruction syms r [''OR'', ''V'' @ hex x, ''V'' @ hex y] = Inr (0x8000 + x * 256 + y * 16 + 1)"
    "instruction syms r [''AND'', ''V'' @ hex x, ''V'' @ hex y] = Inr (0x8000 + x * 256 + y * 16 + 2)"
    "instruction syms r [''XOR'', ''V'' @ hex x, ''V'' @ hex y] = Inr (0x8000 + x * 256 + y * 16 + 3)"
    "instruction syms r [''SUB'', ''V'' @ hex x, ''V'' @ hex y] = Inr (0x8000 + x * 256 + y * 16 + 5)"
    "instruction syms r [''SHR'', ''V'' @ hex x, ''V'' @ hex y] = Inr (0x8000 + x * 256 + y * 16 + 6)"
    "instruction syms r [''SUBN'', ''V'' @ hex x, ''V'' @ hex y] = Inr (0x8000 + x * 256 + y * 16 + 7)"
    "instruction syms r [''SHL'', ''V'' @ hex x, ''V'' @ hex y] = Inr (0x8000 + x * 256 + y * 16 + 14)"
    using reg_hex [OF assms(1)] reg_hex [OF assms(2)] assms by (simp_all add: encode enc_add0 add o)
qed

lemma enc_x_low:
  assumes "x < 16"
  shows "enc_x 0xF007 x = 0xF000 + x * 256 + 0x07" "enc_x 0xF00A x = 0xF000 + x * 256 + 0x0A"
    "enc_x 0xF015 x = 0xF000 + x * 256 + 0x15" "enc_x 0xF018 x = 0xF000 + x * 256 + 0x18"
    "enc_x 0xF01E x = 0xF000 + x * 256 + 0x1E" "enc_x 0xF029 x = 0xF000 + x * 256 + 0x29"
    "enc_x 0xF033 x = 0xF000 + x * 256 + 0x33" "enc_x 0xF055 x = 0xF000 + x * 256 + 0x55"
    "enc_x 0xF065 x = 0xF000 + x * 256 + 0x65" "enc_x 0xE09E x = 0xE000 + x * 256 + 0x9E"
    "enc_x 0xE0A1 x = 0xE000 + x * 256 + 0xA1"
proof -
  have "enc_x (0xF000 + low) x = 0xF000 + x * 256 + low" "enc_x (0xE000 + low) x = 0xE000 + x * 256 + low"
    if "low < 256" for low
    using enc_x_add [of "0xF000" low x] enc_x_add [of "0xE000" low x] that assms by simp_all
  note add = this
  show "enc_x 0xF007 x = 0xF000 + x * 256 + 0x07" "enc_x 0xF00A x = 0xF000 + x * 256 + 0x0A"
    "enc_x 0xF015 x = 0xF000 + x * 256 + 0x15" "enc_x 0xF018 x = 0xF000 + x * 256 + 0x18"
    "enc_x 0xF01E x = 0xF000 + x * 256 + 0x1E" "enc_x 0xF029 x = 0xF000 + x * 256 + 0x29"
    "enc_x 0xF033 x = 0xF000 + x * 256 + 0x33" "enc_x 0xF055 x = 0xF000 + x * 256 + 0x55"
    "enc_x 0xF065 x = 0xF000 + x * 256 + 0x65" "enc_x 0xE09E x = 0xE000 + x * 256 + 0x9E"
    "enc_x 0xE0A1 x = 0xE000 + x * 256 + 0xA1"
    using add(1) [of 7] add(1) [of "0x0A"] add(1) [of "0x15"] add(1) [of "0x18"] add(1) [of "0x1E"]
      add(1) [of "0x29"] add(1) [of "0x33"] add(1) [of "0x55"] add(1) [of "0x65"] add(2) [of "0x9E"] add(2) [of "0xA1"]
    by simp_all
qed

lemma instruction_special:
  assumes "x < 16"
  shows "instruction syms r [''LD'', ''V'' @ hex x, ''DT''] = Inr (0xF000 + x * 256 + 0x07)"
    "instruction syms r [''LD'', ''V'' @ hex x, ''K''] = Inr (0xF000 + x * 256 + 0x0A)"
    "instruction syms r [''LD'', ''DT'', ''V'' @ hex x] = Inr (0xF000 + x * 256 + 0x15)"
    "instruction syms r [''LD'', ''ST'', ''V'' @ hex x] = Inr (0xF000 + x * 256 + 0x18)"
    "instruction syms r [''ADD'', ''I'', ''V'' @ hex x] = Inr (0xF000 + x * 256 + 0x1E)"
    "instruction syms r [''LD'', ''F'', ''V'' @ hex x] = Inr (0xF000 + x * 256 + 0x29)"
    "instruction syms r [''LD'', ''B'', ''V'' @ hex x] = Inr (0xF000 + x * 256 + 0x33)"
    "instruction syms r [''LD'', ''[I]'', ''V'' @ hex x] = Inr (0xF000 + x * 256 + 0x55)"
    "instruction syms r [''LD'', ''V'' @ hex x, ''[I]''] = Inr (0xF000 + x * 256 + 0x65)"
    "instruction syms r [''SKP'', ''V'' @ hex x] = Inr (0xE000 + x * 256 + 0x9E)"
    "instruction syms r [''SKNP'', ''V'' @ hex x] = Inr (0xE000 + x * 256 + 0xA1)"
  using reg_hex [OF assms] by (simp_all add: encode enc_x_low [OF assms])

section \<open>Every instruction assembles back\<close>

lemma assembles_raw:
  assumes "line_tail u"
  shows "assembles syms r (''        '' @ raw_word True pc opc @ u) (unat opc)"
proof (rule assembles_word)
  show "tokenize (''        '' @ raw_word True pc opc @ u) = Inr [''.WORD'', ''0X'' @ hexp 4 (unat opc)]"
    using tokenize_targets(3) [OF assms, of "unat opc"] by (simp add: raw_word_def)
  show "unat opc \<le> 0xFFFF" using unsigned_less [of opc, where ?'a = nat] by simp
qed

lemma assembles_target:
  assumes "block_symbols syms r s" "line_tail u" "k = 0x1000 \<or> k = 0x2000 \<or> k = 0xA000" "a < 4096"
  shows "assembles syms r (''        '' @ (if k = 0x1000 then ''JP '' else if k = 0x2000 then ''CALL '' else ''LD I, '') @
    (if leader s a then block_name a else ''0x'' @ hexp 3 a) @ u) (k + a)"
proof -
  let ?t = "if k = 0x1000 then [''JP'', target_token s a]
      else if k = 0x2000 then [''CALL'', target_token s a] else [''LD'', ''I'', target_token s a]"
  obtain z where z: "instruction syms r ?t = Inr z" "r \<longrightarrow> z = k + a"
    using instruction_target [OF assms(1,4,3)] by blast
  have tok: "tokenize (''        '' @ (if k = 0x1000 then ''JP '' else if k = 0x2000 then ''CALL '' else ''LD I, '') @
      (if leader s a then block_name a else ''0x'' @ hexp 3 a) @ u) = Inr ?t"
    using tokenize_targets(5-10) [OF assms(2), of a] assms(3)
    by (cases "leader s a") (auto simp: target_token_def)
  show ?thesis
    by (rule assembles_instruction [where m = "hd ?t" and ts = "tl ?t" and z = z])
      (use tok z assms(3) in \<open>auto\<close>)
qed

lemma assembles_from:
  assumes "tokenize line = Inr (m # ts)" "instruction syms r (m # ts) = Inr z"
    and "last m \<noteq> CHR '':''" "hd m \<noteq> CHR ''.''" "z = v"
  shows "assembles syms r line v"
  by (rule assembles_instruction [OF assms(1,3,4,2)]) (simp add: assms(5))

text \<open>The groups with a second-level decoder.\<close>

lemma assembles_text_8:
  assumes "line_tail u" "op_k opc = 8"
  shows "assembles syms r (''        '' @ text_8 True pc opc @ u) (unat opc)"
proof -
  have v: "unat opc = 0x8000 + fx opc * 256 + fy opc * 16 + fn opc"
    using opcode_sum [of opc] assms(2) by simp
  have x: "fx opc < 16" "fy opc < 16" by simp_all
  consider "fn opc = 0" | "fn opc = 1" | "fn opc = 2" | "fn opc = 3" | "fn opc = 4" | "fn opc = 5"
    | "fn opc = 6" | "fn opc = 7" | "fn opc = 14" | "fn opc \<notin> {0,1,2,3,4,5,6,7,14}" by auto
  then show ?thesis
  proof cases
    case 1 then show ?thesis using assembles_from [OF tokenize_regs(3) [OF assms(1)] instruction_regs(3) [OF x], of "unat opc"] v
      by (simp add: text_8_def vreg_def Let_def)
  next
    case 2 then show ?thesis using assembles_from [OF tokenize_regs(4) [OF assms(1)] instruction_regs(4) [OF x], of "unat opc"] v
      by (simp add: text_8_def vreg_def Let_def)
  next
    case 3 then show ?thesis using assembles_from [OF tokenize_regs(5) [OF assms(1)] instruction_regs(5) [OF x], of "unat opc"] v
      by (simp add: text_8_def vreg_def Let_def)
  next
    case 4 then show ?thesis using assembles_from [OF tokenize_regs(6) [OF assms(1)] instruction_regs(6) [OF x], of "unat opc"] v
      by (simp add: text_8_def vreg_def Let_def)
  next
    case 5 then show ?thesis using assembles_from [OF tokenize_regs(7) [OF assms(1)] instruction_regs(7) [OF x], of "unat opc"] v
      by (simp add: text_8_def vreg_def Let_def)
  next
    case 6 then show ?thesis using assembles_from [OF tokenize_regs(8) [OF assms(1)] instruction_regs(8) [OF x], of "unat opc"] v
      by (simp add: text_8_def vreg_def Let_def)
  next
    case 7 then show ?thesis using assembles_from [OF tokenize_regs(9) [OF assms(1)] instruction_regs(9) [OF x], of "unat opc"] v
      by (simp add: text_8_def vreg_def Let_def)
  next
    case 8 then show ?thesis using assembles_from [OF tokenize_regs(10) [OF assms(1)] instruction_regs(10) [OF x], of "unat opc"] v
      by (simp add: text_8_def vreg_def Let_def)
  next
    case 9 then show ?thesis using assembles_from [OF tokenize_regs(11) [OF assms(1)] instruction_regs(11) [OF x], of "unat opc"] v
      by (simp add: text_8_def vreg_def Let_def)
  next
    case 10 then show ?thesis using assembles_raw [OF assms(1)] by (simp add: text_8_def Let_def)
  qed
qed

lemma assembles_text_e:
  assumes "line_tail u" "op_k opc = 14"
  shows "assembles syms r (''        '' @ text_e True pc opc @ u) (unat opc)"
proof -
  have v: "unat opc = 0xE000 + fx opc * 256 + fkk opc" using opcode_sum [of opc] assms(2) by simp
  have x: "fx opc < 16" by simp
  consider "fkk opc = 0x9e" | "fkk opc = 0xa1" | "fkk opc \<notin> {0x9e, 0xa1}" by auto
  then show ?thesis
  proof cases
    case 1 then show ?thesis using assembles_from [OF tokenize_bytes(7) [OF assms(1)] instruction_special(10) [OF x], of "unat opc"] v
      by (simp add: text_e_def vreg_def Let_def)
  next
    case 2 then show ?thesis using assembles_from [OF tokenize_bytes(8) [OF assms(1)] instruction_special(11) [OF x], of "unat opc"] v
      by (simp add: text_e_def vreg_def Let_def)
  next
    case 3 then show ?thesis using assembles_raw [OF assms(1)] by (simp add: text_e_def Let_def)
  qed
qed

lemma assembles_text_f:
  assumes "line_tail u" "op_k opc = 15"
  shows "assembles syms r (''        '' @ text_f True pc opc @ u) (unat opc)"
proof -
  have v: "unat opc = 0xF000 + fx opc * 256 + fkk opc" using opcode_sum [of opc] assms(2) by simp
  have x: "fx opc < 16" by simp
  consider "fkk opc = 0x07" | "fkk opc = 0x0a" | "fkk opc = 0x15" | "fkk opc = 0x18" | "fkk opc = 0x1e"
    | "fkk opc = 0x29" | "fkk opc = 0x33" | "fkk opc = 0x55" | "fkk opc = 0x65"
    | "fkk opc \<notin> {0x07, 0x0a, 0x15, 0x18, 0x1e, 0x29, 0x33, 0x55, 0x65}" by auto
  then show ?thesis
  proof cases
    case 1 then show ?thesis using assembles_from [OF tokenize_special(1) [OF assms(1)] instruction_special(1) [OF x], of "unat opc"] v
      by (simp add: text_f_def vreg_def Let_def)
  next
    case 2 then show ?thesis using assembles_from [OF tokenize_special(2) [OF assms(1)] instruction_special(2) [OF x], of "unat opc"] v
      by (simp add: text_f_def vreg_def Let_def)
  next
    case 3 then show ?thesis using assembles_from [OF tokenize_special(3) [OF assms(1)] instruction_special(3) [OF x], of "unat opc"] v
      by (simp add: text_f_def vreg_def Let_def)
  next
    case 4 then show ?thesis using assembles_from [OF tokenize_special(4) [OF assms(1)] instruction_special(4) [OF x], of "unat opc"] v
      by (simp add: text_f_def vreg_def Let_def)
  next
    case 5 then show ?thesis using assembles_from [OF tokenize_special(5) [OF assms(1)] instruction_special(5) [OF x], of "unat opc"] v
      by (simp add: text_f_def vreg_def Let_def)
  next
    case 6 then show ?thesis using assembles_from [OF tokenize_special(6) [OF assms(1)] instruction_special(6) [OF x], of "unat opc"] v
      by (simp add: text_f_def vreg_def Let_def)
  next
    case 7 then show ?thesis using assembles_from [OF tokenize_special(7) [OF assms(1)] instruction_special(7) [OF x], of "unat opc"] v
      by (simp add: text_f_def vreg_def Let_def)
  next
    case 8 then show ?thesis using assembles_from [OF tokenize_special(8) [OF assms(1)] instruction_special(8) [OF x], of "unat opc"] v
      by (simp add: text_f_def vreg_def Let_def)
  next
    case 9 then show ?thesis using assembles_from [OF tokenize_special(9) [OF assms(1)] instruction_special(9) [OF x], of "unat opc"] v
      by (simp add: text_f_def vreg_def Let_def)
  next
    case 10 then show ?thesis using assembles_raw [OF assms(1)] by (simp add: text_f_def Let_def)
  qed
qed

text \<open>Every instruction.\<close>

lemma assembles_disassemble:
  assumes "line_tail u" "block_symbols syms r s"
  shows "assembles syms r (''        '' @ disassemble True s pc opc @ u) (unat opc)"
proof -
  have v: "unat opc = op_k opc * 4096 + fnnn opc" "fnnn opc = fx opc * 256 + fkk opc" "fkk opc = fy opc * 16 + fn opc"
    by (rule opcode_sum)+
  have x: "fx opc < 16" "fy opc < 16" "fn opc < 16" "fkk opc < 256" "fnnn opc < 4096" by simp_all
  note raw = assembles_raw [OF assms(1)] and dis = disassemble_def Let_def vreg_def
  have jp_v0: "instruction syms r [''JP'', ''V0'', ''0X'' @ hexp 3 (fnnn opc)] = Inr (0xB000 + fnnn opc)"
    using ranged_hexp [of "fnnn opc" "0xfff" syms r 3 "''address''"] or_low(3) [of "0xB000" "fnnn opc"] x(5)
    by (simp add: encode)
  have drw: "instruction syms r [''DRW'', ''V'' @ hex (fx opc), ''V'' @ hex (fy opc), ''0X'' @ hex (fn opc)] =
      Inr (0xD000 + fx opc * 256 + fy opc * 16 + fn opc)"
  proof -
    have "16 dvd 0xD000 + fx opc * 256 + fy opc * 16" by presburger
    then show ?thesis
      using ranged_hex [OF x(3), of syms r "''nibble''"] reg_hex [OF x(1)] reg_hex [OF x(2)] or_low(2) [OF _ x(3)]
        enc_add0(2) [OF _ x(1,2), of "0xD000"]
      by (simp add: encode del: add.assoc)
  qed
  consider "opc = 0x00E0" | "opc = 0x00EE" | "opc \<noteq> 0x00E0" "opc \<noteq> 0x00EE" by blast
  then show ?thesis
  proof cases
    case 1
    then show ?thesis
      using assembles_from [OF tokenize_targets(1) [OF assms(1)], of syms r "0xE0" "0xE0"] by (simp add: dis encode)
  next
    case 2
    then show ?thesis
      using assembles_from [OF tokenize_targets(2) [OF assms(1)], of syms r "0xEE" "0xEE"] by (simp add: dis encode)
  next
    case 3
    have "op_k opc < 16" by simp
    then show ?thesis
    proof (cases rule: less_16_cases)
      case 1 then show ?thesis using raw 3 by (simp add: dis)
    next
      case 2 then show ?thesis using assembles_target [OF assms(2,1) _ x(5), of "0x1000"] 3 v(1) by (simp add: dis)
    next
      case call: 3 then show ?thesis using assembles_target [OF assms(2,1) _ x(5), of "0x2000"] 3 v(1) by (simp add: dis)
    next
      case 4 then show ?thesis using assembles_from [OF tokenize_bytes(1) [OF assms(1)] instruction_byte(1) [OF x(1,4)], of "unat opc"] 3 v(1,2) by (simp add: dis)
    next
      case 5 then show ?thesis using assembles_from [OF tokenize_bytes(2) [OF assms(1)] instruction_byte(2) [OF x(1,4)], of "unat opc"] 3 v(1,2) by (simp add: dis)
    next
      case k: 6
      show ?thesis
      proof (cases "fn opc = 0")
        case True
        then show ?thesis
          using assembles_from [OF tokenize_regs(1) [OF assms(1)] instruction_regs(1) [OF x(1,2)], of "unat opc"]
            3 k v by (simp add: dis)
      qed (use raw 3 k in \<open>simp add: dis\<close>)
    next
      case 7 then show ?thesis using assembles_from [OF tokenize_bytes(3) [OF assms(1)] instruction_byte(3) [OF x(1,4)], of "unat opc"] 3 v(1,2) by (simp add: dis)
    next
      case 8 then show ?thesis using assembles_from [OF tokenize_bytes(4) [OF assms(1)] instruction_byte(4) [OF x(1,4)], of "unat opc"] 3 v(1,2) by (simp add: dis)
    next
      case 9 then show ?thesis using assembles_text_8 [OF assms(1)] 3 by (simp add: dis)
    next
      case k: 10
      show ?thesis
      proof (cases "fn opc = 0")
        case True
        then show ?thesis
          using assembles_from [OF tokenize_regs(2) [OF assms(1)] instruction_regs(2) [OF x(1,2)], of "unat opc"]
            3 k v by (simp add: dis)
      qed (use raw 3 k in \<open>simp add: dis\<close>)
    next
      case 11 then show ?thesis using assembles_target [OF assms(2,1) _ x(5), of "0xA000"] 3 v(1) by (simp add: dis)
    next
      case 12 then show ?thesis using assembles_from [OF tokenize_targets(11) [OF assms(1)] jp_v0, of "unat opc"] 3 v(1) by (simp add: dis)
    next
      case 13 then show ?thesis using assembles_from [OF tokenize_bytes(5) [OF assms(1)] instruction_byte(5) [OF x(1,4)], of "unat opc"] 3 v(1,2) by (simp add: dis)
    next
      case 14 then show ?thesis using assembles_from [OF tokenize_bytes(6) [OF assms(1)] drw, of "unat opc"] 3 v by (simp add: dis)
    next
      case 15 then show ?thesis using assembles_text_e [OF assms(1)] 3 by (simp add: dis)
    next
      case 16 then show ?thesis using assembles_text_f [OF assms(1)] 3 by (simp add: dis)
    qed
  qed
qed

end
