(* ===== verification/C8_Roundtrip.thy ===== *)
theory C8_Roundtrip
  imports C8_Text
begin

text \<open>
  The round trip: assembling what \<^verbatim>\<open>disas --asm\<close> prints for a ROM gives the ROM back. The
  text splits into the printed lines, the first pass defines exactly the printed labels, and
  the second emits every word.
\<close>

section \<open>Lines of text\<close>

definition printable :: "string \<Rightarrow> bool" where
  "printable s \<longleftrightarrow> (\<forall>c\<in>set s. 32 \<le> code c)"

lemma printable_simps [simp]:
  "printable []" "printable (c # s) \<longleftrightarrow> 32 \<le> code c \<and> printable s"
  "printable (s @ t) \<longleftrightarrow> printable s \<and> printable t"
  by (auto simp: printable_def)

lemma printable_hex [simp]: "printable (hex n)" "printable (hexp w n)"
proof -
  have "32 \<le> code c" if "hex_char c" for c
    using that by (auto simp: hex_char_def code_hexd)
  then show "printable (hex n)" "printable (hexp w n)"
    by (auto simp: printable_def dest: hex_char_hex hex_char_hexp)
qed

lemma printable_disassemble: "printable (disassemble True s pc opc)"
  by (simp add: disassemble_def text_8_def text_e_def text_f_def raw_word_def vreg_def block_name_def Let_def lit_chars)

lemma length_disassemble: "length (disassemble True s pc opc) \<le> 100"
proof -
  have "unat opc < 16 ^ 4" using unsigned_less [of opc, where ?'a = nat] by simp
  then show ?thesis
    using length_hexp [of 4 "unat opc"] length_hexp [of 3 "fnnn opc"] length_hexp [of 2 "fkk opc"]
    by (simp add: disassemble_def text_8_def text_e_def text_f_def raw_word_def vreg_def block_name_def Let_def hex_small)
qed

definition clean_line :: "string \<Rightarrow> bool" where
  "clean_line l \<longleftrightarrow> (\<exists>b. l = b @ newline \<and> printable b \<and> length b < 1023)"

lemma fgets_clean:
  "printable b \<Longrightarrow> length b < n \<Longrightarrow> fgets n (b @ newline @ rest) = (b @ newline, rest)"
proof (induction b arbitrary: n)
  case Nil
  then show ?case by (cases n) (simp_all add: newline_def)
next
  case (Cons c b)
  then have "c \<noteq> CHR 0x0A" by (auto simp: code_def)
  then show ?case using Cons by (cases n) auto
qed

lemma file_lines_clean: "\<forall>l\<in>set ls. clean_line l \<Longrightarrow> file_lines (concat ls) = ls"
proof (induction ls)
  case Nil
  then show ?case by (simp add: file_lines.simps)
next
  case (Cons l ls)
  then obtain b where b: "l = b @ newline" "printable b" "length b < 1023" by (auto simp: clean_line_def)
  have "c \<noteq> CHR 0x00" if "c \<in> set l" for c
    using that b(1,2) by (auto simp: printable_def newline_def code_def)
  then have "takeWhile (\<lambda>c. c \<noteq> CHR 0x00) l = l" by (simp add: takeWhile_eq_all_conv)
  moreover have "fgets 1023 (l @ concat ls) = (l, concat ls)" using fgets_clean [OF b(2,3)] b(1) by simp
  moreover have "l @ concat ls \<noteq> []" using b(1) by (simp add: newline_def)
  ultimately show ?case using Cons by (simp add: file_lines.simps [of "l @ concat ls"] MAX_LINE_def)
qed

lemma clean_output_line: "printable txt \<Longrightarrow> length txt \<le> 100 \<Longrightarrow> clean_line (output_line True s pc txt)"
  unfolding clean_line_def
  by (rule exI [of _ "''        '' @ txt @ (if pc < 0x1000 \<and> \<not> reach s pc then '' ; unreachable'' else [])"])
    (simp add: output_line_def lit_chars)

lemma clean_name_line: "a < 0x1000 \<Longrightarrow> clean_line (name_line a)"
  unfolding clean_line_def name_line_def
  by (rule exI [of _ "block_name a @ '':''"])
    (use length_hexp [of 3 a] in \<open>simp add: block_name_def lit_chars\<close>)

lemma clean_word_lines:
  assumes "pc < 0x1000"
  shows "\<forall>l\<in>set (word_lines True decode s m pc). clean_line l"
proof -
  have "unat (word_at m pc) < 16 ^ 4" using unsigned_less [of "word_at m pc", where ?'a = nat] by simp
  note len = length_hexp [OF _ this, simplified]
  have "clean_line (''        .word 0x'' @ hexp 4 (unat (word_at m pc)) @ '' ; data (unreachable)'' @ newline)"
    unfolding clean_line_def
    by (rule exI [of _ "''        .word 0x'' @ hexp 4 (unat (word_at m pc)) @ '' ; data (unreachable)''"])
      (use len in \<open>simp add: lit_chars\<close>)
  moreover have "clean_line (output_line True s pc (disassemble True s pc (word_at m pc)))"
    by (rule clean_output_line [OF printable_disassemble length_disassemble])
  ultimately have "clean_line (word_line True decode s m pc)" by (simp add: word_line_def)
  then show ?thesis using clean_name_line [OF assms] by (auto simp: word_lines_def label_line_def)
qed

lemma clean_trailing_lines:
  assumes "sz \<le> 0xE00"
  shows "\<forall>l\<in>set (trailing_lines True s m sz). clean_line l"
proof -
  have "clean_line (trailing_line True s m pc)" for pc
    unfolding clean_line_def by (rule exI [of _ "''        .byte 0x'' @ hexp 2 (unat (m ! pc))"])
      (use length_hexp [of 2 "unat (m ! pc)"] unat_u8_less [of "m ! pc"] in \<open>simp add: trailing_line_def lit_chars\<close>)
  moreover have "clean_line (name_line (0x200 + sz - 1))" by (rule clean_name_line) (use assms in simp)
  ultimately show ?thesis by (auto simp: trailing_lines_def label_line_def Let_def)
qed

section \<open>The two passes over the printed lines\<close>

lemma line_size_bytes:
  assumes "line_size syms r pc t = Inr (n, bs)" "t = [] \<or> t ! 0 \<noteq> ''.ORG''"
  shows "length bs = n"
proof -
  have words: "length (concat (map word_bytes vs)) = 2 * length vs" for vs
    by (induction vs) (simp_all add: word_bytes_def)
  have vals: "data_values syms r b w ss = Inr vs \<Longrightarrow> length vs = length ss" for b w ss vs
  proof (induction ss arbitrary: vs)
    case (Cons s ss)
    then show ?case
      by (cases "ranged syms r s b w"; cases "data_values syms r b w ss") auto
  qed simp
  have ra: "andthen x f = Inr y \<Longrightarrow> \<exists>v. x = Inr v \<and> f v = Inr y" for x :: "'b checked" and f :: "'b \<Rightarrow> 'c checked" and y
    by (cases x) auto
  show ?thesis
    using assms by (auto simp: line_size_def words word_bytes_def dest!: ra dest: vals split: if_splits)
qed

lemma pass2_line_pc: "pass2_line syms pc l = Inr (pc1, bs) \<Longrightarrow> pc1 = pc + length bs"
proof -
  assume p: "pass2_line syms pc l = Inr (pc1, bs)"
  then obtain t where t: "tokenize l = Inr t" by (cases "tokenize l") (auto simp: pass2_line_def)
  let ?t = "if labelled t then tl t else t"
  obtain n cs where n: "line_size syms True pc ?t = Inr (n, cs)"
    using p t by (cases "line_size syms True pc ?t") (auto simp: pass2_line_def Let_def)
  have "pc1 = pc + n" "bs = (if ?t \<noteq> [] \<and> ?t ! 0 = ''.ORG'' then replicate n 0 else take n cs)"
    using p t n by (auto simp: pass2_line_def Let_def)
  then show ?thesis using line_size_bytes [OF n] by auto
qed

lemma pass2_split:
  "pass2 k syms pc xs = (o1, None) \<Longrightarrow>
   pass2 k syms pc (xs @ ys) = (let (o2, e) = pass2 (k + length xs) syms (pc + length o1) ys in (o1 @ o2, e))"
proof (induction xs arbitrary: k pc o1)
  case (Cons x xs)
  then obtain pc1 bs o' where x: "pass2_line syms pc x = Inr (pc1, bs)" "pass2 (Suc k) syms pc1 xs = (o', None)"
    "o1 = bs @ o'" by (auto split: sum.splits prod.splits)
  then have "pc1 = pc + length bs" by (simp add: pass2_line_pc)
  then show ?case using Cons.IH [OF x(2)] x by (simp add: add.assoc split: prod.split)
qed (simp split: prod.split)

text \<open>The symbols the first pass has after the addresses \<open>as\<close>.\<close>

definition table :: "disas \<Rightarrow> nat list \<Rightarrow> symbols" where
  "table s as = map (\<lambda>a. (BN a, a)) (filter (leader s) as)"

lemma table_append [simp]: "table s (as @ bs) = table s as @ table s bs"
  by (simp add: table_def)

lemma lookup_table: "lookup (table s as) (BN a) = (if leader s a \<and> a \<in> set as then Some a else None)"
  by (induction "as") (auto simp: table_def lookup_def)

lemma length_table: "length (table s as) \<le> length as"
  by (simp add: table_def)

lemma block_symbols_table:
  assumes "r \<longrightarrow> (\<forall>a. leader s a \<longrightarrow> a \<in> set as)"
  shows "block_symbols (table s as) r s"
  using assms by (auto simp: block_symbols_def lookup_table)

lemma assembles_word_line:
  assumes "block_symbols syms r s"
  shows "assembles syms r (word_line True decode s m pc) (unat (word_at m pc))"
proof -
  have nl: "line_tail newline" by (simp add: line_tail_def)
  have "unat (word_at m pc) \<le> 0xFFFF" using unsigned_less [of "word_at m pc", where ?'a = nat] by simp
  note data = assembles_word [OF tokenize_targets(4) [OF nl] this, of syms r]
  have "line_tail ((if pc < 0x1000 \<and> \<not> reach s pc then '' ; unreachable'' else []) @ newline)"
    by (simp add: line_tail_def)
  note code = assembles_disassemble [OF this assms, of pc "word_at m pc"]
  show ?thesis
  proof (cases "\<not> decode \<and> \<not> reach s pc")
    case True
    then show ?thesis using data by (simp add: word_line_def)
  next
    case False
    then have "word_line True decode s m pc = ''        '' @ disassemble True s pc (word_at m pc) @
        (if pc < 0x1000 \<and> \<not> reach s pc then '' ; unreachable'' else []) @ newline"
      by (auto simp: word_line_def output_line_def)
    then show ?thesis using code by (simp only:)
  qed
qed

lemma tokenize_label: "tokenize (name_line a) = Inr [BN a @ '':'']"
  by (simp add: tokenizing name_line_def block_name_def BN_def)

lemma is_name_BN: "is_name (BN a)"
proof -
  have "\<forall>c\<in>set (hexp 3 a). isalnum c"
    using hex_char_facts(3) hex_char_hexp by blast
  then show ?thesis
    by (simp add: is_name_def BN_def) (simp add: isalnum_def isalpha_def isupper_def lit_chars)
qed

lemma length_BN: "a < 4096 \<Longrightarrow> length (BN a) = 8"
  using length_hexp [of 3 a] by (simp add: BN_def)

lemma pass1_label:
  assumes "a < 4096" "lookup syms (BN a) = None" "length syms < 2048"
  shows "pass1_line syms a (name_line a) = Inr (syms @ [(BN a, a)], a)"
  using assms is_name_BN [of a] length_BN [of a]
  by (simp add: pass1_line_def tokenize_label labelled_def define_label_def line_size_def MAX_SYMBOLS_def)

lemma pass2_label: "pass2_line syms pc (name_line a) = Inr (pc, [])"
  by (simp add: pass2_line_def tokenize_label labelled_def line_size_def)

lemma pass1_assembles:
  assumes "assembles syms False l v" "pc + 2 \<le> 0x1000"
  shows "pass1_line syms pc l = Inr (syms, pc + 2)"
  using assms by (auto simp: assembles_def pass1_line_def)

lemma pass2_assembles:
  assumes "assembles syms True l v"
  shows "pass2_line syms pc l = Inr (pc + 2, word_bytes v)"
  using assms by (auto simp: assembles_def pass2_line_def Let_def word_bytes_def)

lemma pass1_word_lines:
  assumes "pc + 2 \<le> 0x1000" "pc \<notin> set as" "length as < 2048"
  shows "pass1 k (table s as) pc (word_lines True decode s m pc) = Inr (table s (as @ [pc]), pc + 2)"
proof -
  have t: "length (table s as) < 2048" using length_table [of s "as"] assms(3) by linarith
  have "block_symbols (table s bs) False s" for bs by (rule block_symbols_table) simp
  note body = pass1_assembles [OF assembles_word_line [OF this] assms(1)]
  show ?thesis
  proof (cases "leader s pc")
    case True
    have "pass1_line (table s as) pc (name_line pc) = Inr (table s (as @ [pc]), pc)"
      using pass1_label [of pc "table s as"] assms t True by (simp add: lookup_table, simp add: table_def)
    then show ?thesis
      using body [of "as @ [pc]" decode m] True by (simp add: word_lines_def label_line_def)
  next
    case False
    then have "table s (as @ [pc]) = table s as" by (simp add: table_def)
    then show ?thesis using body [of "as" decode m] False by (simp add: word_lines_def label_line_def)
  qed
qed

lemma pass2_word_lines:
  assumes "block_symbols syms True s"
  shows "pass2 k syms pc (word_lines True decode s m pc) = ([m ! pc, m ! (pc + 1)], None)"
  using pass2_assembles [OF assembles_word_line [OF assms], of pc decode m pc] word_bytes_word_at [of m pc]
  by (cases "leader s pc") (simp_all add: word_lines_def label_line_def pass2_label)

section \<open>The whole file\<close>

definition waddrs :: "nat \<Rightarrow> nat list" where
  "waddrs n = map (\<lambda>i. 0x200 + 2 * i) [0..<n]"

lemma waddrs_simps [simp]: "waddrs 0 = []" "waddrs (Suc n) = waddrs n @ [0x200 + 2 * n]" "length (waddrs n) = n"
  by (simp_all add: waddrs_def)

lemma waddrs_set: "a \<in> set (waddrs n) \<longleftrightarrow> even a \<and> 0x200 \<le> a \<and> a < 0x200 + 2 * n"
proof
  assume "a \<in> set (waddrs n)"
  then show "even a \<and> 0x200 \<le> a \<and> a < 0x200 + 2 * n" by (auto simp: waddrs_def)
next
  assume a: "even a \<and> 0x200 \<le> a \<and> a < 0x200 + 2 * n"
  then obtain i where "a = 2 * i" by blast
  then have "a = 0x200 + 2 * (i - 0x100)" "i - 0x100 < n" using a by auto
  then show "a \<in> set (waddrs n)" by (force simp: waddrs_def)
qed

lemma pass1_words:
  "n \<le> 0x700 \<Longrightarrow> pass1 k [] 0x200 (concat (map (word_lines True decode s m) (waddrs n))) =
    Inr (table s (waddrs n), 0x200 + 2 * n)"
proof (induction n)
  case 0
  then show ?case by (simp add: table_def)
next
  case (Suc n)
  have "0x200 + 2 * n \<notin> set (waddrs n)" by (simp add: waddrs_set)
  then show ?case
    using Suc pass1_word_lines [of "0x200 + 2 * n" "waddrs n" _ s decode m]
    by (simp add: pass1_append del: table_append)
qed

lemma pass2_words:
  assumes "block_symbols syms True s"
  shows "pass2 k syms 0x200 (concat (map (word_lines True decode s m) (waddrs n))) =
    (concat (map (\<lambda>pc. [m ! pc, m ! (pc + 1)]) (waddrs n)), None)"
proof (induction n)
  case (Suc n)
  have "length (concat (map (\<lambda>pc. [m ! pc, m ! (pc + 1)]) (waddrs n))) = 2 * n" by (induction n) simp_all
  then show ?case
    using pass2_split [OF Suc] pass2_word_lines [OF assms, of _ "0x200 + 2 * n" decode m] by simp
qed simp

lemma tokenize_trailing: "tokenize (trailing_line True s m pc) = Inr [''.BYTE'', ''0X'' @ hexp 2 (unat (m ! pc))]"
  by (simp add: tokenizing trailing_line_def)

lemma trailing_size:
  "line_size syms r pc [''.BYTE'', ''0X'' @ hexp 2 (unat (b :: u8))] = Inr (1, [b])"
proof -
  have "ranged syms r (''0X'' @ hexp 2 (unat b)) 0xff ''byte'' = Inr (unat b)"
    by (rule ranged_hexp) (use unat_u8_less [of b] in simp_all)
  then show ?thesis by (simp add: line_size_def)
qed

lemma pass1_trailing:
  assumes "odd sz" "sz \<le> 0xE00" "0x200 + sz - 1 \<notin> set as" "length as < 2048"
  shows "pass1 k (table s as) (0x200 + sz - 1) (trailing_lines True s m sz) =
    Inr (table s (as @ [0x200 + sz - 1]), 0x200 + sz)"
proof -
  let ?pc = "0x200 + sz - 1"
  have "length (table s as) < 2048" using length_table [of s "as"] assms(4) by linarith
  then have lab: "leader s ?pc \<Longrightarrow> pass1_line (table s as) ?pc (name_line ?pc) = Inr (table s (as @ [?pc]), ?pc)"
    using pass1_label [of ?pc "table s as"] assms(2,3) by (simp add: lookup_table, simp add: table_def)
  have none: "\<not> leader s ?pc \<Longrightarrow> table s (as @ [?pc]) = table s as" by (simp add: table_def)
  have "pass1_line syms ?pc (trailing_line True s m ?pc) = Inr (syms, 0x200 + sz)" for syms
    using assms(1,2) tokenize_trailing [of s m ?pc] trailing_size [of syms False ?pc "m ! ?pc"]
    by (simp add: pass1_line_def labelled_def)
  then show ?thesis
    using lab none assms(1) by (cases "leader s ?pc") (simp_all add: trailing_lines_def label_line_def Let_def del: table_append)
qed

lemma pass2_trailing:
  assumes "odd sz"
  shows "pass2 k syms (0x200 + sz - 1) (trailing_lines True s m sz) = ([m ! (0x200 + sz - 1)], None)"
proof -
  let ?pc = "0x200 + sz - 1"
  have "pass2_line syms ?pc (trailing_line True s m ?pc) = Inr (?pc + 1, [m ! ?pc])"
    using tokenize_trailing [of s m ?pc] trailing_size [of syms True ?pc "m ! ?pc"]
    by (simp add: pass2_line_def labelled_def Let_def)
  then show ?thesis
    using assms pass2_label [of syms ?pc ?pc]
    by (cases "leader s ?pc") (simp_all add: trailing_lines_def label_line_def Let_def)
qed

lemma rom_words:
  "2 * n \<le> length rom \<Longrightarrow>
   concat (map (\<lambda>pc. [disas_memory rom ! pc, disas_memory rom ! (pc + 1)]) (waddrs n)) = take (2 * n) rom"
proof (induction n)
  case (Suc n)
  then have "take (2 * Suc n) rom = take (2 * n) rom @ [rom ! (2 * n), rom ! (2 * n + 1)]"
    by (simp add: take_Suc_conv_app_nth)
  moreover have "disas_memory rom ! (0x200 + i) = rom ! i" if "i < length rom" for i
    using that by (simp add: disas_memory_def nth_append)
  from this [of "2 * n"] this [of "2 * n + 1"] have
    "disas_memory rom ! (0x200 + 2 * n) = rom ! (2 * n)" "disas_memory rom ! (0x200 + 2 * n + 1) = rom ! (2 * n + 1)"
    using Suc.prems by (simp_all add: add.assoc)
  ultimately show ?case using Suc by simp
qed simp

lemma roundtrip_lines:
  assumes len: "length rom \<le> 0xE00" "rom \<noteq> []" and lab: "label_inv (length rom) s"
  shows "\<exists>syms pc. pass1 0 [] 0x200 (disas_lines True decode s rom) = Inr (syms, pc) \<and>
    pass2 0 syms 0x200 (disas_lines True decode s rom) = (rom, None)"
proof -
  let ?sz = "length rom" and ?m = "disas_memory rom"
  let ?n = "?sz div 2"
  let ?W = "concat (map (word_lines True decode s ?m) (waddrs ?n))"
  have lines: "disas_lines True decode s rom = ?W @ trailing_lines True s ?m ?sz"
    by (simp add: disas_lines_def Let_def word_addrs_def waddrs_def)
  have p1: "pass1 0 [] 0x200 ?W = Inr (table s (waddrs ?n), 0x200 + 2 * ?n)"
    by (rule pass1_words) (use len in simp)
  have last: "?m ! (0x200 + ?sz - 1) = last rom"
    using len by (simp add: disas_memory_def nth_append last_conv_nth)
  show ?thesis
  proof (cases "odd ?sz")
    case True
    then have n: "0x200 + 2 * ?n = 0x200 + ?sz - 1" by (auto elim: oddE)
    let ?as = "waddrs ?n @ [0x200 + ?sz - 1]"
    have "block_symbols (table s ?as) True s"
    proof (rule block_symbols_table, intro impI allI)
      fix a assume "leader s a"
      then have "even a" "0x200 \<le> a" "a < 0x200 + ?sz" using lab len(2) by (auto simp: label_inv_def)
      then show "a \<in> set ?as" using n by (auto simp: waddrs_set)
    qed
    note p2 = pass2_words [OF this, of 0 decode ?m ?n]
    have l2: "length (concat (map (\<lambda>pc. [?m ! pc, ?m ! (pc + 1)]) (waddrs ?n))) = 2 * ?n"
      using rom_words [of ?n rom] by simp
    have "pass2 0 (table s ?as) 0x200 (disas_lines True decode s rom) = (take (2 * ?n) rom @ [last rom], None)"
      unfolding lines pass2_split [OF p2] l2 n
      using pass2_trailing [OF True, of _ "table s ?as" s ?m] rom_words [of ?n rom] last by simp
    moreover have "take (2 * ?n) rom @ [last rom] = rom"
    proof -
      have "2 * ?n = ?sz - 1" using n len(2) by (cases rom) simp_all
      then show ?thesis using append_butlast_last_id [OF len(2)] by (simp only: butlast_conv_take)
    qed
    moreover have "pass1 0 [] 0x200 (disas_lines True decode s rom) = Inr (table s ?as, 0x200 + ?sz)"
      unfolding lines pass1_append p1 n sum.case prod.case
      by (rule pass1_trailing) (use True len n in \<open>simp_all add: waddrs_set\<close>)
    ultimately show ?thesis by metis
  next
    case False
    then have n: "2 * ?n = ?sz" by simp
    have "block_symbols (table s (waddrs ?n)) True s"
    proof (rule block_symbols_table, intro impI allI)
      fix a assume "leader s a"
      then have "even a" "0x200 \<le> a" "a < 0x200 + ?sz" using lab len(2) by (auto simp: label_inv_def)
      then show "a \<in> set (waddrs ?n)" using n by (simp add: waddrs_set)
    qed
    note p2 = pass2_words [OF this, of 0 decode ?m ?n]
    have "trailing_lines True s ?m ?sz = []" using False by (simp add: trailing_lines_def)
    then show ?thesis using p1 p2 rom_words [of ?n rom] n lines by simp
  qed
qed

lemma disas_lines_clean:
  assumes "length rom \<le> 0xE00"
  shows "\<forall>l\<in>set (disas_lines True decode s rom). clean_line l"
proof -
  have "pc < 0x1000" if "pc \<in> set (word_addrs (length rom))" for pc
    using that assms by (auto simp: word_addrs_def)
  then show ?thesis
    using clean_word_lines [of _ decode s "disas_memory rom"] clean_trailing_lines [OF assms, of s "disas_memory rom"]
    by (auto simp: disas_lines_def Let_def)
qed

lemma roundtrip:
  assumes "disas_main True decode file = Some txt"
  shows "asm_main txt = (take 0xE00 file, None)"
proof -
  let ?rom = "take 0xE00 file"
  have len: "length ?rom \<le> 0xE00" by simp
  obtain s where s: "analysis decode ?rom = Some s" "txt = concat (disas_lines True decode s ?rom)"
    using assms by (auto simp: disas_main_def Let_def)
  obtain d where d: "descend (disas_memory ?rom) (length ?rom) (analyze (disas_memory ?rom) (length ?rom) disas_init) = Some d"
    "leader s = leader (glue_from (length ?rom) 0x200 d)" using s(1) by (rule analysis_cases)
  have "label_inv (length ?rom) s"
    using glue_label_inv [OF descend_facts(5) [OF d(1)], of "0x200"] d(2) by (simp add: label_inv_def)
  note inv = this
  have split: "file_lines txt = disas_lines True decode s ?rom"
    unfolding s(2) by (rule file_lines_clean [OF disas_lines_clean [OF len]])
  show ?thesis
  proof (cases "?rom = []")
    case True
    then have "disas_lines True decode s ?rom = []" by (simp add: disas_lines_def word_addrs_def trailing_lines_def)
    then show ?thesis using split True by (simp add: asm_main_def)
  next
    case False
    from roundtrip_lines [OF len this inv, of decode] show ?thesis
      by (auto simp: asm_main_def split Let_def)
  qed
qed

end
