(* ===== verification/C8_State.thy ===== *)
theory C8_State
  imports C8_Prelude
begin

text \<open>
  The CHIP-8 machine state of \<^verbatim>\<open>chip8.h\<close> and \<^verbatim>\<open>chip8.c\<close> (stack, memory, register
  file, stack pointer, address register, program counter), the two macros that read the
  wrapping 4 KiB address space, the font, and the delay-loop recogniser of \<^verbatim>\<open>idle.h\<close>.
\<close>

section \<open>The machine state\<close>

record chip8 =
  stack :: "u16 list"
  memory :: "u8 list"
  regs :: "u8 list"
  stack_pointer :: i8
  addr :: u16
  program_counter :: u16

definition STACK_SIZE :: nat where "STACK_SIZE = 0x10"
definition MEMORY_SIZE :: nat where "MEMORY_SIZE = 0x1000"
definition REGFILE_SIZE :: nat where "REGFILE_SIZE = 0x10"
definition ENTRYPOINT :: nat where "ENTRYPOINT = 0x200"

lemmas size_defs = STACK_SIZE_def MEMORY_SIZE_def REGFILE_SIZE_def ENTRYPOINT_def

text \<open>\<^verbatim>\<open>MEM_AT\<close> and \<^verbatim>\<open>OPCODE_AT\<close>: every access is masked to twelve bits.\<close>

definition mem_index :: "u16 \<Rightarrow> nat" where
  "mem_index a = unat (a AND 0xFFF)"

definition mem_at :: "'a chip8_scheme \<Rightarrow> u16 \<Rightarrow> u8" where
  "mem_at s a = memory s ! mem_index a"

abbreviation mem_set :: "u16 \<Rightarrow> u8 \<Rightarrow> 'a chip8_scheme \<Rightarrow> 'a chip8_scheme" where
  "mem_set a v \<equiv> memory_update (\<lambda>m. m[mem_index a := v])"

definition opcode_at :: "'a chip8_scheme \<Rightarrow> u16 \<Rightarrow> u16" where
  "opcode_at s pc = push_bit 8 (ucast (mem_at s pc)) OR ucast (mem_at s (pc + 1))"

abbreviation set_reg :: "nat \<Rightarrow> u8 \<Rightarrow> 'a chip8_scheme \<Rightarrow> 'a chip8_scheme" where
  "set_reg x v \<equiv> regs_update (\<lambda>r. r[x := v])"

text \<open>The operand fields of an opcode: the macros \<^verbatim>\<open>X\<close>, \<^verbatim>\<open>Y\<close> and \<^verbatim>\<open>IMMEDIATE4/8/12\<close>.\<close>

definition op_x :: "u16 \<Rightarrow> nat" where "op_x opc = unat (drop_bit 8 opc AND 0xF)"
definition op_y :: "u16 \<Rightarrow> nat" where "op_y opc = unat (drop_bit 4 opc AND 0xF)"
definition imm4 :: "u16 \<Rightarrow> u8" where "imm4 opc = ucast (opc AND 0xF)"
definition imm8 :: "u16 \<Rightarrow> u8" where "imm8 opc = ucast (opc AND 0xFF)"
definition imm12 :: "u16 \<Rightarrow> u16" where "imm12 opc = opc AND 0xFFF"

section \<open>Initial state\<close>

definition font :: "u8 list" where
  "font = [
  0xF0, 0x90, 0x90, 0x90, 0xF0,
  0x20, 0x60, 0x20, 0x20, 0x70,
  0xF0, 0x10, 0xF0, 0x80, 0xF0,
  0xF0, 0x10, 0xF0, 0x10, 0xF0,
  0x90, 0x90, 0xF0, 0x10, 0x10,
  0xF0, 0x80, 0xF0, 0x10, 0xF0,
  0xF0, 0x80, 0xF0, 0x90, 0xF0,
  0xF0, 0x10, 0x20, 0x40, 0x40,
  0xF0, 0x90, 0xF0, 0x90, 0xF0,
  0xF0, 0x90, 0xF0, 0x90, 0xF0,
  0xF0, 0x90, 0xF0, 0x90, 0x90,
  0xE0, 0x90, 0xE0, 0x90, 0xE0,
  0xF0, 0x80, 0x80, 0x80, 0xF0,
  0xE0, 0x90, 0x90, 0x90, 0xE0,
  0xF0, 0x80, 0xF0, 0x80, 0xF0,
  0xF0, 0x80, 0xF0, 0x80, 0x80]"

definition initial_memory :: "u8 list" where
  "initial_memory = font @ replicate (MEMORY_SIZE - length font) 0"

text \<open>
  Loading a ROM: \<^verbatim>\<open>fread (memory + ENTRYPOINT, 1, MEMORY_SIZE - ENTRYPOINT, fp)\<close> copies at
  most 3584 bytes of the file over the memory image.
\<close>

definition load_rom :: "u8 list \<Rightarrow> u8 list \<Rightarrow> u8 list" where
  "load_rom rom m =
     (let r = take (MEMORY_SIZE - ENTRYPOINT) rom
      in take ENTRYPOINT m @ r @ drop (ENTRYPOINT + length r) m)"

section \<open>The delay-timer poll loop\<close>

text \<open>
  \<^verbatim>\<open>chip8_idle_delay_loop\<close> returns 6 and the polled register if the six bytes at \<open>pc\<close>
  are \<^verbatim>\<open>Fx07; 3x00; 1pc\<close>, and 0 otherwise: here the register or \<open>None\<close>.
\<close>

definition chip8_idle_delay_loop :: "'a chip8_scheme \<Rightarrow> u16 \<Rightarrow> nat option" where
  "chip8_idle_delay_loop s pc =
     (let a = opcode_at s pc; b = opcode_at s (pc + 2); c = opcode_at s (pc + 4); x = op_x a
      in if a AND 0xF0FF \<noteq> 0xF007 then None
         else if b AND 0xF0FF \<noteq> 0x3000 \<or> op_x b \<noteq> x then None
         else if c AND 0xF000 \<noteq> 0x1000 \<or> c AND 0x0FFF \<noteq> pc then None
         else Some x)"

section \<open>Lemmas\<close>

lemma mem_index_less [simp]: "mem_index a < 4096"
  by (simp add: mem_index_def)

lemma op_x_less [simp]: "op_x opc < 16"
  by (simp add: op_x_def)

lemma op_y_less [simp]: "op_y opc < 16"
  by (simp add: op_y_def)

lemma mem_index_eq: "mem_index a = unat a mod 4096"
proof -
  have "unat (a AND mask 12) = unat a mod 2 ^ 12"
    by (metis take_bit_eq_mask unsigned_take_bit_eq take_bit_eq_mod)
  then show ?thesis by (simp add: mem_index_def mask_eq_exp_minus_1)
qed

lemma length_font [simp]: "length font = 80"
  by (simp add: font_def)

lemma length_initial_memory [simp]: "length initial_memory = 4096"
  by (simp add: initial_memory_def MEMORY_SIZE_def)

lemma length_load_rom [simp]: "length m = 4096 \<Longrightarrow> length (load_rom rom m) = 4096"
  by (simp add: load_rom_def size_defs Let_def min_def)

lemma mem_at_mem_set:
  "length (memory s) = 4096 \<Longrightarrow>
   mem_at (mem_set a v s) b = (if mem_index a = mem_index b then v else mem_at s b)"
  by (auto simp: mem_at_def)

end
