(* ===== verification/C8_Io.thy ===== *)
theory C8_Io
  imports C8_State
begin

text \<open>
  The I/O layer behind \<^verbatim>\<open>io.h\<close> and \<^verbatim>\<open>bench.h\<close>: the framebuffer, the sprite blitter
  \<^verbatim>\<open>draw_io\<close> in its headless (\<^verbatim>\<open>bench_io.c\<close>) and ncurses (\<^verbatim>\<open>ncurses_io.c\<close>) versions, the
  virtual clock and the synthetic keyboard of the \<^verbatim>\<open>BENCH\<close> build, and the host services
  the interactive build reads: clock, terminal keys and \<^verbatim>\<open>rand\<close>, given as streams of the
  values successive calls return.
\<close>

section \<open>State\<close>

datatype build = BENCH | INTERACTIVE
datatype key_mode = BENCH_KEYS_NONE | BENCH_KEYS_ROTATE
datatype glyph = Blank | Ckboard | Border

text \<open>
  The host: \<open>rand_seq k\<close> is the value of the k-th call of \<^verbatim>\<open>rand\<close> after \<^verbatim>\<open>srand\<close>,
  \<open>clock_nsec k\<close> the \<^verbatim>\<open>tv_nsec\<close> of the k-th reading of the monotonic clock, and
  \<open>key_polls k\<close> the characters waiting at the terminal when \<^verbatim>\<open>read_keys_io\<close> drains it for
  the k-th time. The three positions count the calls made. \<open>window\<close> is the ncurses pad, as
  \<^verbatim>\<open>mvwaddch\<close> (row, column) writes it.
\<close>

record host = chip8 +
  rand_seq :: "nat \<Rightarrow> u32"
  rand_pos :: nat
  clock_nsec :: "nat \<Rightarrow> nat"
  clock_pos :: nat
  key_polls :: "nat \<Rightarrow> int list"
  poll_pos :: nat
  window :: "nat \<times> nat \<Rightarrow> glyph"

record io = host +
  display :: "u8 list"
  width :: nat
  height :: nat
  bench_retired :: nat
  bench_poll_clock :: nat
  bench_budget :: nat
  bench_clock_cap :: nat
  bench_next_safepoint :: nat
  bench_key_mode :: key_mode
  bench_cleared :: u32
  bench_cleared_tick :: int

definition DISPLAY_SIZE :: nat where "DISPLAY_SIZE = 128 * 64"
definition BENCH_INSTR_PER_TICK :: nat where "BENCH_INSTR_PER_TICK = 2000"
definition BENCH_SAFEPOINT_INTERVAL :: nat where "BENCH_SAFEPOINT_INTERVAL = 64"
definition BENCH_POLL_COST :: nat where "BENCH_POLL_COST = 1"
definition BENCH_CLOCK_CAP_FACTOR :: nat where "BENCH_CLOCK_CAP_FACTOR = 64"

section \<open>The framebuffer\<close>

text \<open>
  One pixel of \<^verbatim>\<open>draw_io\<close>: column \<open>i\<close> of sprite row \<open>byte\<close>, at screen row \<open>y2\<close>. The loop
  state is the framebuffer and the collision flag.
\<close>

definition draw_pixel :: "nat \<Rightarrow> nat \<Rightarrow> nat \<Rightarrow> u8 \<Rightarrow> nat \<Rightarrow> u8 list \<times> nat \<Rightarrow> u8 list \<times> nat" where
  "draw_pixel w x y2 byte i = (\<lambda>(d, vf).
     let x2 = i + x in
     if x2 \<ge> w then (d, vf)
     else
       let bit = (if byte AND drop_bit i 0x80 \<noteq> 0 then 1 else 0);
           old_pixel = d ! (x2 + y2 * w);
           new_pixel = old_pixel XOR bit
       in (d[x2 + y2 * w := new_pixel],
           if old_pixel \<noteq> 0 \<and> bit \<noteq> 0 then 1 else vf))"

definition draw_row :: "nat \<Rightarrow> nat \<Rightarrow> nat \<Rightarrow> nat \<Rightarrow> u8 list \<Rightarrow> nat \<Rightarrow> u8 list \<times> nat \<Rightarrow> u8 list \<times> nat" where
  "draw_row w h x y mem j dv =
     (let y2 = j + y in
      if y2 \<ge> h then dv
      else fold (draw_pixel w x y2 (mem ! j)) [0..<8] dv)"

definition draw_fb :: "nat \<Rightarrow> nat \<Rightarrow> nat \<Rightarrow> nat \<Rightarrow> nat \<Rightarrow> u8 list \<Rightarrow> u8 list \<Rightarrow> u8 list \<times> nat" where
  "draw_fb w h x y n mem d = fold (draw_row w h (x mod w) (y mod h) mem) [0..<n] (d, 0)"

definition draw_io_bench :: "nat \<Rightarrow> nat \<Rightarrow> nat \<Rightarrow> u8 list \<Rightarrow> 'a io_scheme \<Rightarrow> nat \<times> 'a io_scheme" where
  "draw_io_bench x y n mem s =
     (let (d, vf) = draw_fb (width s) (height s) x y n mem (display s)
      in (vf, s\<lparr>display := d\<rparr>))"

text \<open>The ncurses version: the same loop, and one \<^verbatim>\<open>mvwaddch\<close> per pixel.\<close>

type_synonym canvas = "nat \<times> nat \<Rightarrow> glyph"

definition draw_pixel_nc ::
  "nat \<Rightarrow> nat \<Rightarrow> nat \<Rightarrow> u8 \<Rightarrow> nat \<Rightarrow> u8 list \<times> canvas \<times> nat \<Rightarrow> u8 list \<times> canvas \<times> nat" where
  "draw_pixel_nc w x y2 byte i = (\<lambda>(d, win, vf).
     let x2 = i + x in
     if x2 \<ge> w then (d, win, vf)
     else
       let bit = (if byte AND drop_bit i 0x80 \<noteq> 0 then 1 else 0);
           old_pixel = d ! (x2 + y2 * w);
           new_pixel = old_pixel XOR bit
       in (d[x2 + y2 * w := new_pixel],
           win((y2 + 1, x2 + 1) := (if new_pixel \<noteq> 0 then Ckboard else Blank)),
           if old_pixel \<noteq> 0 \<and> bit \<noteq> 0 then 1 else vf))"

definition draw_row_nc ::
  "nat \<Rightarrow> nat \<Rightarrow> nat \<Rightarrow> nat \<Rightarrow> u8 list \<Rightarrow> nat \<Rightarrow> u8 list \<times> canvas \<times> nat \<Rightarrow> u8 list \<times> canvas \<times> nat" where
  "draw_row_nc w h x y mem j dv =
     (let y2 = j + y in
      if y2 \<ge> h then dv
      else fold (draw_pixel_nc w x y2 (mem ! j)) [0..<8] dv)"

definition draw_fb_nc ::
  "nat \<Rightarrow> nat \<Rightarrow> nat \<Rightarrow> nat \<Rightarrow> nat \<Rightarrow> u8 list \<Rightarrow> u8 list \<times> canvas \<Rightarrow> u8 list \<times> canvas \<times> nat" where
  "draw_fb_nc w h x y n mem dw =
     fold (draw_row_nc w h (x mod w) (y mod h) mem) [0..<n] (fst dw, snd dw, 0)"

definition draw_io_ncurses :: "nat \<Rightarrow> nat \<Rightarrow> nat \<Rightarrow> u8 list \<Rightarrow> 'a io_scheme \<Rightarrow> nat \<times> 'a io_scheme" where
  "draw_io_ncurses x y n mem s =
     (let (d, win, vf) = draw_fb_nc (width s) (height s) x y n mem (display s, window s)
      in (vf, s\<lparr>display := d, window := win\<rparr>))"

definition clearscreen_io_bench :: "'a io_scheme \<Rightarrow> 'a io_scheme" where
  "clearscreen_io_bench s = s\<lparr>display := replicate DISPLAY_SIZE 0\<rparr>"

definition clearscreen_io_ncurses :: "'a io_scheme \<Rightarrow> 'a io_scheme" where
  "clearscreen_io_ncurses s = s\<lparr>display := replicate DISPLAY_SIZE 0, window := (\<lambda>_. Blank)\<rparr>"

fun draw_io :: "build \<Rightarrow> nat \<Rightarrow> nat \<Rightarrow> nat \<Rightarrow> u8 list \<Rightarrow> 'a io_scheme \<Rightarrow> nat \<times> 'a io_scheme" where
  "draw_io BENCH = draw_io_bench"
| "draw_io INTERACTIVE = draw_io_ncurses"

fun clearscreen_io :: "build \<Rightarrow> 'a io_scheme \<Rightarrow> 'a io_scheme" where
  "clearscreen_io BENCH = clearscreen_io_bench"
| "clearscreen_io INTERACTIVE = clearscreen_io_ncurses"

text \<open>
  \<^verbatim>\<open>init_io\<close>: the bench version also clears the framebuffer; the ncurses version opens a pad of
  \<open>h + 3\<close> rows and \<open>w + 2\<close> columns with a border, \<^verbatim>\<open>box\<close>.
\<close>

definition box :: "nat \<Rightarrow> nat \<Rightarrow> canvas" where
  "box rows columns = (\<lambda>(r, c). if r = 0 \<or> r = rows - 1 \<or> c = 0 \<or> c = columns - 1 then Border else Blank)"

fun init_io :: "build \<Rightarrow> nat \<Rightarrow> nat \<Rightarrow> 'a io_scheme \<Rightarrow> 'a io_scheme" where
  "init_io BENCH w h s = s\<lparr>width := w, height := h, display := replicate DISPLAY_SIZE 0\<rparr>"
| "init_io INTERACTIVE w h s = s\<lparr>width := w, height := h, window := box (h + 3) (w + 2)\<rparr>"

text \<open>FNV-1a over the visible framebuffer.\<close>

definition bench_display_hash :: "'a io_scheme \<Rightarrow> u64" where
  "bench_display_hash s =
     fold (\<lambda>i h. (h XOR (if display s ! i \<noteq> 0 then 1 else 0)) * 1099511628211)
       [0..<width s * height s] 1469598103934665603"

section \<open>The virtual clock and the synthetic keyboard\<close>

text \<open>
  The \<^verbatim>\<open>long long\<close> counters start at 0 and only grow, so they are naturals; the
  conversion of the tick to \<^verbatim>\<open>int\<close> is written out.
\<close>

definition bench_now :: "'a io_scheme \<Rightarrow> nat" where
  "bench_now s = bench_retired s + bench_poll_clock s"

definition bench_tick :: "'a io_scheme \<Rightarrow> int" where
  "bench_tick s = s32 (int (bench_now s div BENCH_INSTR_PER_TICK))"

definition bench_roll_tick :: "nat \<Rightarrow> 'a io_scheme \<Rightarrow> 'a io_scheme" where
  "bench_roll_tick t s =
     (if int t \<noteq> bench_cleared_tick s
      then s\<lparr>bench_cleared_tick := int t, bench_cleared := 0\<rparr> else s)"

definition bench_keys_now :: "'a io_scheme \<Rightarrow> u32 \<times> 'a io_scheme" where
  "bench_keys_now s =
     (let t = bench_now s div BENCH_INSTR_PER_TICK; s1 = bench_roll_tick t s in
      if bench_key_mode s1 = BENCH_KEYS_NONE then (0, s1)
      else if t mod 4 \<ge> 2 then (0, s1)
      else (push_bit ((t div 4) mod 16) 1 AND NOT (bench_cleared s1), s1))"

definition bench_clear_key :: "u8 \<Rightarrow> 'a io_scheme \<Rightarrow> 'a io_scheme" where
  "bench_clear_key key s =
     (let s1 = bench_roll_tick (bench_now s div BENCH_INSTR_PER_TICK) s
      in s1\<lparr>bench_cleared := bench_cleared s1 OR push_bit (unat key) 1\<rparr>)"

definition bench_poll_keys :: "'a io_scheme \<Rightarrow> u32 \<times> 'a io_scheme" where
  "bench_poll_keys s = bench_keys_now (s\<lparr>bench_poll_clock := bench_poll_clock s + BENCH_POLL_COST\<rparr>)"

definition bench_done :: "'a io_scheme \<Rightarrow> bool" where
  "bench_done s \<longleftrightarrow> bench_retired s \<ge> bench_budget s \<or> bench_now s \<ge> bench_clock_cap s"

function advance_from :: "nat \<Rightarrow> nat \<Rightarrow> nat" where
  "advance_from r n =
     (let n' = n + BENCH_SAFEPOINT_INTERVAL in if n' \<le> r then advance_from r n' else n')"
  by pat_completeness auto
termination
  by (relation "measure (\<lambda>(r, n). Suc r - n)") (auto simp: BENCH_SAFEPOINT_INTERVAL_def)

definition bench_advance_safepoint :: "'a io_scheme \<Rightarrow> 'a io_scheme" where
  "bench_advance_safepoint s =
     s\<lparr>bench_next_safepoint := advance_from (bench_retired s) (bench_next_safepoint s)\<rparr>"

text \<open>\<^verbatim>\<open>read_keys_io\<close> of the ncurses build: the mask of the keys waiting at the terminal.\<close>

definition key_mask :: "int \<Rightarrow> u32" where
  "key_mask key =
     (if 48 \<le> key \<and> key \<le> 57 then push_bit (nat (key - 48)) 1
      else if 97 \<le> key \<and> key \<le> 102 then push_bit (nat (key - 97 + 0xa)) 1
      else if 65 \<le> key \<and> key \<le> 70 then push_bit (nat (key - 65 + 0xa)) 1
      else if key = 113 \<or> key = 81 \<or> key = 27 then push_bit 31 1
      else 0)"

definition read_keys_ncurses :: "'a io_scheme \<Rightarrow> u32 \<times> 'a io_scheme" where
  "read_keys_ncurses s =
     (fold (\<lambda>key keys. keys OR key_mask key) (key_polls s (poll_pos s)) 0,
      s\<lparr>poll_pos := Suc (poll_pos s)\<rparr>)"

fun read_keys_io :: "build \<Rightarrow> 'a io_scheme \<Rightarrow> u32 \<times> 'a io_scheme" where
  "read_keys_io BENCH = bench_poll_keys"
| "read_keys_io INTERACTIVE = read_keys_ncurses"

definition rand :: "'a io_scheme \<Rightarrow> u32 \<times> 'a io_scheme" where
  "rand s = (rand_seq s (rand_pos s), s\<lparr>rand_pos := Suc (rand_pos s)\<rparr>)"

end
