(* ===== verification/C8_Interp.thy ===== *)
theory C8_Interp
  imports C8_Io
begin

text \<open>
  The interpreter of \<^verbatim>\<open>interp.c\<close>: its globals, the timer and keyboard services, one
  definition per opcode handler, the decoder \<^verbatim>\<open>basic_block\<close> and the main loop, in the
  \<^verbatim>\<open>BENCH\<close> and the interactive build. A handler returns the C status (0 or an error
  code) with the new state; a polling loop that never sees its event is \<open>Hangs\<close>; a shift
  by 32 or more is \<open>UB\<close>.
\<close>

section \<open>Globals, clock and keys\<close>

record vm = io +
  delay_timer :: u8
  sound_timer :: u8
  last_tick :: int
  opcode :: u16
  keys_down :: "u32 list"
  interrupt_count :: nat

definition NANOS_PER_TICK :: nat where "NANOS_PER_TICK = 16666666"
definition TICKS_PER_SECOND :: nat where "TICKS_PER_SECOND = 60"
definition INPUT_TICKS :: nat where "INPUT_TICKS = 10"

text \<open>The quit key is bit 31 of the key mask.\<close>

definition QUIT :: u32 where "QUIT = push_bit 31 1"

fun clear_key :: "build \<Rightarrow> u8 \<Rightarrow> 'a vm_scheme \<Rightarrow> 'a vm_scheme" where
  "clear_key BENCH key s = bench_clear_key key s"
| "clear_key INTERACTIVE key s =
     s\<lparr>keys_down := map (\<lambda>k. k AND NOT (push_bit (unat key) 1)) (keys_down s)\<rparr>"

fun all_keys_down :: "build \<Rightarrow> 'a vm_scheme \<Rightarrow> u32 \<times> 'a vm_scheme" where
  "all_keys_down BENCH s = bench_keys_now s"
| "all_keys_down INTERACTIVE s = (fold (OR) (keys_down s) 0, s)"

fun tick :: "build \<Rightarrow> 'a vm_scheme \<Rightarrow> int \<times> 'a vm_scheme" where
  "tick BENCH s = (bench_tick s, s)"
| "tick INTERACTIVE s =
     (int ((clock_nsec s (clock_pos s) div NANOS_PER_TICK) mod TICKS_PER_SECOND),
      s\<lparr>clock_pos := Suc (clock_pos s)\<rparr>)"

definition timer_sub :: "u8 \<Rightarrow> int \<Rightarrow> u8" where
  "timer_sub t elapsed = (if int (unat t) > elapsed then word_of_int (int (unat t) - elapsed) else 0)"

definition sync_timers :: "'a vm_scheme \<Rightarrow> 'a vm_scheme" where
  "sync_timers s =
     (let now = bench_tick s; elapsed = now - last_tick s in
      if elapsed > 0
      then s\<lparr>delay_timer := timer_sub (delay_timer s) elapsed,
             sound_timer := timer_sub (sound_timer s) elapsed,
             last_tick := now\<rparr>
      else s)"

fun interrupt :: "build \<Rightarrow> 'a vm_scheme \<Rightarrow> 'a vm_scheme" where
  "interrupt BENCH s = sync_timers s"
| "interrupt INTERACTIVE s =
     (let (current_tick, s1) = tick INTERACTIVE s;
          s2 = (if current_tick \<noteq> last_tick s1
                then s1\<lparr>delay_timer := (if delay_timer s1 > 0 then delay_timer s1 - 1 else delay_timer s1),
                        sound_timer := (if sound_timer s1 > 0 then sound_timer s1 - 1 else sound_timer s1),
                        last_tick := current_tick\<rparr>
                else s1);
          (keys, s3) = read_keys_io INTERACTIVE s2
      in s3\<lparr>keys_down := (keys_down s3)[interrupt_count s3 := keys],
            interrupt_count := (interrupt_count s3 + 1) mod INPUT_TICKS\<rparr>)"

partial_function (option) idle_loop :: "'a vm_scheme \<Rightarrow> 'a vm_scheme option" where
  "idle_loop s =
     (if delay_timer s \<noteq> 0
      then if fst (all_keys_down INTERACTIVE s) AND QUIT \<noteq> 0 then Some s
           else idle_loop (interrupt INTERACTIVE s)
      else Some s)"

definition idle_wait :: "nat \<Rightarrow> 'a vm_scheme \<Rightarrow> 'a vm_scheme option" where
  "idle_wait reg s = map_option (set_reg reg 0) (idle_loop s)"

section \<open>Handlers\<close>

text \<open>The macros \<^verbatim>\<open>ERROR\<close> and \<^verbatim>\<open>STEP\<close>, and the skip of the conditional opcodes.\<close>

definition error_code :: "u16 \<Rightarrow> u16 \<Rightarrow> u32" where
  "error_code opc pc = push_bit 16 (ucast opc) OR ucast pc"

definition ERROR :: "'a vm_scheme \<Rightarrow> 'a vm_scheme outcome" where
  "ERROR s = Done (error_code (opcode s) (program_counter s)) s"

definition STEP :: "'a vm_scheme \<Rightarrow> 'a vm_scheme outcome" where
  "STEP s = Done 0 (s\<lparr>program_counter := program_counter s + 2\<rparr>)"

definition skip_when :: "bool \<Rightarrow> 'a vm_scheme \<Rightarrow> 'a vm_scheme outcome" where
  "skip_when c s = STEP (if c then s\<lparr>program_counter := program_counter s + 2\<rparr> else s)"

definition clearscreen :: "build \<Rightarrow> 'a vm_scheme \<Rightarrow> 'a vm_scheme outcome" where
  "clearscreen b s = STEP (clearscreen_io b s)"

definition jump :: "build \<Rightarrow> 'a vm_scheme \<Rightarrow> 'a vm_scheme outcome" where
  "jump b s =
     (let immediate = imm12 (opcode s); s1 = interrupt b s
      in Done 0 (s1\<lparr>program_counter := immediate\<rparr>))"

definition retern :: "build \<Rightarrow> 'a vm_scheme \<Rightarrow> 'a vm_scheme outcome" where
  "retern b s =
     (let s1 = interrupt b s in
      if sint (stack_pointer s1) > 0
      then let sp = stack_pointer s1 - 1
           in Done 0 (s1\<lparr>stack_pointer := sp, program_counter := stack s1 ! nat (sint sp)\<rparr>)
      else ERROR s1)"

definition call :: "build \<Rightarrow> 'a vm_scheme \<Rightarrow> 'a vm_scheme outcome" where
  "call b s =
     (let immediate = imm12 (opcode s); s1 = interrupt b s in
      if sint (stack_pointer s1) < int STACK_SIZE
      then Done 0 (s1\<lparr>stack := (stack s1)[nat (sint (stack_pointer s1)) := program_counter s1 + 2],
                      stack_pointer := stack_pointer s1 + 1,
                      program_counter := immediate\<rparr>)
      else ERROR s1)"

definition skip_eq_immediate :: "'a vm_scheme \<Rightarrow> 'a vm_scheme outcome" where
  "skip_eq_immediate s = skip_when (regs s ! op_x (opcode s) = imm8 (opcode s)) s"

definition skip_neq_immediate :: "'a vm_scheme \<Rightarrow> 'a vm_scheme outcome" where
  "skip_neq_immediate s = skip_when (regs s ! op_x (opcode s) \<noteq> imm8 (opcode s)) s"

definition skip_eq_register :: "'a vm_scheme \<Rightarrow> 'a vm_scheme outcome" where
  "skip_eq_register s = skip_when (regs s ! op_x (opcode s) = regs s ! op_y (opcode s)) s"

definition skip_neq_register :: "'a vm_scheme \<Rightarrow> 'a vm_scheme outcome" where
  "skip_neq_register s = skip_when (regs s ! op_x (opcode s) \<noteq> regs s ! op_y (opcode s)) s"

definition load_immediate :: "'a vm_scheme \<Rightarrow> 'a vm_scheme outcome" where
  "load_immediate s = STEP (set_reg (op_x (opcode s)) (imm8 (opcode s)) s)"

definition add_immediate :: "'a vm_scheme \<Rightarrow> 'a vm_scheme outcome" where
  "add_immediate s =
     (let x = op_x (opcode s) in STEP (set_reg x (regs s ! x + imm8 (opcode s)) s))"

definition move :: "'a vm_scheme \<Rightarrow> 'a vm_scheme outcome" where
  "move s = STEP (set_reg (op_x (opcode s)) (regs s ! op_y (opcode s)) s)"

definition or_register :: "'a vm_scheme \<Rightarrow> 'a vm_scheme outcome" where
  "or_register s =
     (let x = op_x (opcode s); y = op_y (opcode s) in STEP (set_reg x (regs s ! x OR regs s ! y) s))"

definition and_register :: "'a vm_scheme \<Rightarrow> 'a vm_scheme outcome" where
  "and_register s =
     (let x = op_x (opcode s); y = op_y (opcode s) in STEP (set_reg x (regs s ! x AND regs s ! y) s))"

definition xor_register :: "'a vm_scheme \<Rightarrow> 'a vm_scheme outcome" where
  "xor_register s =
     (let x = op_x (opcode s); y = op_y (opcode s) in STEP (set_reg x (regs s ! x XOR regs s ! y) s))"

text \<open>The flag is stored last, so that it wins over the result when \<open>x = 15\<close>.\<close>

definition add_register :: "'a vm_scheme \<Rightarrow> 'a vm_scheme outcome" where
  "add_register s =
     (let x = op_x (opcode s); y = op_y (opcode s);
          tmp = (ucast (regs s ! x) + ucast (regs s ! y) :: u16);
          s1 = set_reg x (ucast tmp) s
      in STEP (set_reg 15 (if tmp > 0xff then 1 else 0) s1))"

definition sub_register :: "'a vm_scheme \<Rightarrow> 'a vm_scheme outcome" where
  "sub_register s =
     (let x = op_x (opcode s); y = op_y (opcode s); vx = regs s ! x; vy = regs s ! y;
          s1 = set_reg x (vx - vy) s
      in STEP (set_reg 15 (if vx \<ge> vy then 1 else 0) s1))"

definition shift_right :: "'a vm_scheme \<Rightarrow> 'a vm_scheme outcome" where
  "shift_right s =
     (let x = op_x (opcode s); vx = regs s ! x; s1 = set_reg x (drop_bit 1 vx) s
      in STEP (set_reg 15 (vx AND 0x01) s1))"

definition subn_register :: "'a vm_scheme \<Rightarrow> 'a vm_scheme outcome" where
  "subn_register s =
     (let x = op_x (opcode s); y = op_y (opcode s); vx = regs s ! x; vy = regs s ! y;
          s1 = set_reg x (vy - vx) s
      in STEP (set_reg 15 (if vy \<ge> vx then 1 else 0) s1))"

definition shift_left :: "'a vm_scheme \<Rightarrow> 'a vm_scheme outcome" where
  "shift_left s =
     (let x = op_x (opcode s); vx = regs s ! x; s1 = set_reg x (push_bit 1 vx) s
      in STEP (set_reg 15 (if vx AND 0x80 \<noteq> 0 then 1 else 0) s1))"

definition load_addr_immediate :: "'a vm_scheme \<Rightarrow> 'a vm_scheme outcome" where
  "load_addr_immediate s = STEP (s\<lparr>addr := imm12 (opcode s)\<rparr>)"

definition branch :: "'a vm_scheme \<Rightarrow> 'a vm_scheme outcome" where
  "branch s = Done 0 (s\<lparr>program_counter := imm12 (opcode s) + ucast (regs s ! 0)\<rparr>)"

definition random_byte :: "'a vm_scheme \<Rightarrow> 'a vm_scheme outcome" where
  "random_byte s =
     (let (r, s1) = rand s
      in STEP (set_reg (op_x (opcode s)) (ucast (r AND 0xff AND ucast (imm8 (opcode s)))) s1))"

text \<open>In the \<^verbatim>\<open>BENCH\<close> build every timer access first catches up with the virtual clock.\<close>

definition timer_access :: "build \<Rightarrow> 'a vm_scheme \<Rightarrow> 'a vm_scheme" where
  "timer_access b s = (if b = BENCH then sync_timers s else s)"

definition get_delay_timer :: "build \<Rightarrow> 'a vm_scheme \<Rightarrow> 'a vm_scheme outcome" where
  "get_delay_timer b s =
     (let s1 = timer_access b s in STEP (set_reg (op_x (opcode s)) (delay_timer s1) s1))"

definition set_delay_timer :: "build \<Rightarrow> 'a vm_scheme \<Rightarrow> 'a vm_scheme outcome" where
  "set_delay_timer b s =
     (let s1 = timer_access b s in STEP (s1\<lparr>delay_timer := regs s1 ! op_x (opcode s)\<rparr>))"

definition set_sound_timer :: "build \<Rightarrow> 'a vm_scheme \<Rightarrow> 'a vm_scheme outcome" where
  "set_sound_timer b s =
     (let s1 = timer_access b s in STEP (s1\<lparr>sound_timer := regs s1 ! op_x (opcode s)\<rparr>))"

definition add_addr :: "'a vm_scheme \<Rightarrow> 'a vm_scheme outcome" where
  "add_addr s = STEP (s\<lparr>addr := addr s + ucast (regs s ! op_x (opcode s))\<rparr>)"

definition store_bcd :: "'a vm_scheme \<Rightarrow> 'a vm_scheme outcome" where
  "store_bcd s =
     (let tmp = regs s ! op_x (opcode s);
          hundreds = tmp div 100; tmp1 = tmp mod 100;
          tens = tmp1 div 10; tmp2 = tmp1 mod 10;
          a = addr s
      in STEP (mem_set (a + 2) tmp2 (mem_set (a + 1) tens (mem_set (a + 0) hundreds s))))"

definition skip_key_x :: "build \<Rightarrow> bool \<Rightarrow> 'a vm_scheme \<Rightarrow> 'a vm_scheme outcome" where
  "skip_key_x b up s =
     (let vx = regs s ! op_x (opcode s); (keys, s1) = all_keys_down b s in
      if unat vx \<ge> 32 then UB
      else if (keys AND push_bit (unat vx) 1 \<noteq> 0) \<noteq> up
           then let s2 = clear_key b vx s1
                in STEP (s2\<lparr>program_counter := program_counter s2 + 2\<rparr>)
           else STEP s1)"

text \<open>
  The \<^verbatim>\<open>do ... while\<close> loop of \<^verbatim>\<open>load_on_key\<close>; only the \<^verbatim>\<open>BENCH\<close> build gives up when the run
  is over.
\<close>

partial_function (option) poll_loop :: "build \<Rightarrow> 'a vm_scheme \<Rightarrow> (u32 \<times> 'a vm_scheme) option" where
  "poll_loop b s =
     (let (all_keys, s1) = read_keys_io b s in
      if b = BENCH \<and> bench_done s1 then Some (all_keys, s1)
      else if all_keys = 0 then poll_loop b s1
      else Some (all_keys, s1))"

definition take_key :: "build \<Rightarrow> nat \<Rightarrow> u32 \<Rightarrow> nat \<Rightarrow> 'a vm_scheme \<Rightarrow> 'a vm_scheme" where
  "take_key b x all_keys i s =
     (let s1 = clear_key b (of_nat i) s
      in if all_keys AND push_bit i 1 \<noteq> 0 then set_reg x (of_nat i) s1 else s1)"

definition load_on_key :: "build \<Rightarrow> 'a vm_scheme \<Rightarrow> 'a vm_scheme outcome" where
  "load_on_key b s =
     (case poll_loop b s of
        None \<Rightarrow> Hangs
      | Some (all_keys, s1) \<Rightarrow>
          let s2 = fold (take_key b (op_x (opcode s)) all_keys) [0..<16] s1
          in if all_keys AND QUIT \<noteq> 0 then ERROR s2 else STEP s2)"

text \<open>The interactive build holds a draw until the 60 Hz tick rolls over.\<close>

partial_function (option) wait_tick :: "'a vm_scheme \<Rightarrow> (int \<times> 'a vm_scheme) option" where
  "wait_tick s =
     (let (current_tick, s1) = tick INTERACTIVE s
      in if current_tick = last_tick s1 then wait_tick s1 else Some (current_tick, s1))"

definition frame_sync :: "build \<Rightarrow> 'a vm_scheme \<Rightarrow> 'a vm_scheme option" where
  "frame_sync b s =
     (if b = BENCH then Some s
      else map_option (\<lambda>(current_tick, s1). s1\<lparr>last_tick := current_tick\<rparr>) (wait_tick s))"

definition draw :: "build \<Rightarrow> 'a vm_scheme \<Rightarrow> 'a vm_scheme outcome" where
  "draw b s =
     (let x = op_x (opcode s); y = op_y (opcode s); immediate = unat (imm4 (opcode s));
          s1 = interrupt b s;
          sprite = map (\<lambda>i. mem_at s1 (addr s1 + of_nat i)) [0..<immediate];
          (vf, s2) = draw_io b (unat (regs s1 ! x)) (unat (regs s1 ! y)) immediate sprite s1;
          s3 = set_reg 15 (of_nat vf) s2
      in case frame_sync b s3 of None \<Rightarrow> Hangs | Some s4 \<Rightarrow> STEP s4)"

definition save_registers :: "'a vm_scheme \<Rightarrow> 'a vm_scheme outcome" where
  "save_registers s =
     STEP (fold (\<lambda>i t. mem_set (addr t + of_nat i) (regs t ! i) t) [0..<op_x (opcode s) + 1] s)"

definition restore_registers :: "'a vm_scheme \<Rightarrow> 'a vm_scheme outcome" where
  "restore_registers s =
     STEP (fold (\<lambda>i t. set_reg i (mem_at t (addr t + of_nat i)) t) [0..<op_x (opcode s) + 1] s)"

definition load_sprite_addr :: "'a vm_scheme \<Rightarrow> 'a vm_scheme outcome" where
  "load_sprite_addr s = STEP (s\<lparr>addr := ucast (regs s ! op_x (opcode s) AND 0x0f) * 5\<rparr>)"

section \<open>The decoder\<close>

definition op_8 :: "'a vm_scheme \<Rightarrow> 'a vm_scheme outcome" where
  "op_8 s =
     (let n = opcode s AND 0x000f in
      if n = 0x0 then move s
      else if n = 0x1 then or_register s
      else if n = 0x2 then and_register s
      else if n = 0x3 then xor_register s
      else if n = 0x4 then add_register s
      else if n = 0x5 then sub_register s
      else if n = 0x6 then shift_right s
      else if n = 0x7 then subn_register s
      else if n = 0xe then shift_left s
      else ERROR s)"

definition op_e :: "build \<Rightarrow> 'a vm_scheme \<Rightarrow> 'a vm_scheme outcome" where
  "op_e b s =
     (let kk = opcode s AND 0x00ff in
      if kk = 0x9e then skip_key_x b False s
      else if kk = 0xa1 then skip_key_x b True s
      else ERROR s)"

definition op_f :: "build \<Rightarrow> 'a vm_scheme \<Rightarrow> 'a vm_scheme outcome" where
  "op_f b s =
     (let kk = opcode s AND 0x00ff in
      if kk = 0x07 then get_delay_timer b s
      else if kk = 0x0a then load_on_key b s
      else if kk = 0x15 then set_delay_timer b s
      else if kk = 0x18 then set_sound_timer b s
      else if kk = 0x1e then add_addr s
      else if kk = 0x29 then load_sprite_addr s
      else if kk = 0x33 then store_bcd s
      else if kk = 0x55 then save_registers s
      else if kk = 0x65 then restore_registers s
      else ERROR s)"

definition dispatch :: "build \<Rightarrow> 'a vm_scheme \<Rightarrow> 'a vm_scheme outcome" where
  "dispatch b s =
     (if opcode s = 0x00e0 then clearscreen b s
      else if opcode s = 0x00ee then retern b s
      else let k = unat (drop_bit 12 (opcode s AND 0xf000)) in
        if k = 0x0 then jump b s
        else if k = 0x1 then jump b s
        else if k = 0x2 then call b s
        else if k = 0x3 then skip_eq_immediate s
        else if k = 0x4 then skip_neq_immediate s
        else if k = 0x5 then skip_eq_register s
        else if k = 0x6 then load_immediate s
        else if k = 0x7 then add_immediate s
        else if k = 0x8 then op_8 s
        else if k = 0x9 then skip_neq_register s
        else if k = 0xa then load_addr_immediate s
        else if k = 0xb then branch s
        else if k = 0xc then random_byte s
        else if k = 0xd then draw b s
        else if k = 0xe then op_e b s
        else if k = 0xf then op_f b s
        else ERROR s)"

definition basic_block :: "build \<Rightarrow> 'a vm_scheme \<Rightarrow> 'a vm_scheme outcome" where
  "basic_block b s = dispatch b (s\<lparr>opcode := opcode_at s (program_counter s)\<rparr>)"

section \<open>The main loop\<close>

text \<open>
  One pass of \<^verbatim>\<open>while (1)\<close>: it goes on with a state and instruction count, or stops with the
  state and count the final report prints, or does not return, or is undefined.
\<close>

datatype 's pass = Next 's nat | Stop 's nat | Stuck | Undefined

definition elided :: "bool \<Rightarrow> 'a vm_scheme \<Rightarrow> nat option" where
  "elided elide_idle s =
     (if elide_idle
      then case chip8_idle_delay_loop s (program_counter s) of
             None \<Rightarrow> None
           | Some reg \<Rightarrow> if delay_timer s \<noteq> 0 then Some reg else None
      else None)"

definition execute :: "build \<Rightarrow> 'a vm_scheme \<Rightarrow> nat \<Rightarrow> 'a vm_scheme pass" where
  "execute b s count =
     (case basic_block b (if b = BENCH then s\<lparr>bench_retired := bench_retired s + 1\<rparr> else s) of
        Hangs \<Rightarrow> Stuck
      | UB \<Rightarrow> Undefined
      | Done r s1 \<Rightarrow>
          if r \<noteq> 0 then Stop s1 count
          else if b = BENCH \<and> bench_done s1 then Stop s1 (count + 1)
          else Next s1 (count + 1))"

definition interp_pass :: "build \<Rightarrow> bool \<Rightarrow> 'a vm_scheme \<Rightarrow> nat \<Rightarrow> 'a vm_scheme pass" where
  "interp_pass b elide_idle s count =
     (let (keys, s1) = all_keys_down b s in
      if keys AND QUIT \<noteq> 0 then Stop s1 count
      else case (if b = INTERACTIVE then elided elide_idle s1 else None) of
             Some reg \<Rightarrow>
               (case idle_wait reg s1 of
                  None \<Rightarrow> Stuck
                | Some s2 \<Rightarrow> Next (s2\<lparr>program_counter := program_counter s2 + 6\<rparr>) (count + 3))
           | None \<Rightarrow> execute b s1 count)"

partial_function (option) interp_loop ::
  "build \<Rightarrow> bool \<Rightarrow> 'a vm_scheme \<Rightarrow> nat \<Rightarrow> 'a vm_scheme pass option" where
  "interp_loop b elide_idle s count =
     (case interp_pass b elide_idle s count of
        Next s1 count1 \<Rightarrow> interp_loop b elide_idle s1 count1
      | p \<Rightarrow> Some p)"

text \<open>
  \<^verbatim>\<open>main\<close> from the loaded ROM on: the static initial state, the ROM, the first tick, the
  screen, the entry point. An empty ROM is refused.
\<close>

definition initial_vm :: "(nat \<Rightarrow> u32) \<Rightarrow> (nat \<Rightarrow> nat) \<Rightarrow> (nat \<Rightarrow> int list) \<Rightarrow> nat \<Rightarrow> key_mode \<Rightarrow> vm" where
  "initial_vm rnd clk polls budget keymode =
     \<lparr>stack = replicate STACK_SIZE 0, memory = initial_memory, regs = replicate REGFILE_SIZE 0,
      stack_pointer = 0, addr = 0, program_counter = 0,
      rand_seq = rnd, rand_pos = 0, clock_nsec = clk, clock_pos = 0,
      key_polls = polls, poll_pos = 0, window = (\<lambda>_. Blank),
      display = replicate DISPLAY_SIZE 0, width = 0, height = 0,
      bench_retired = 0, bench_poll_clock = 0, bench_budget = budget,
      bench_clock_cap = budget * BENCH_CLOCK_CAP_FACTOR,
      bench_next_safepoint = BENCH_SAFEPOINT_INTERVAL, bench_key_mode = keymode,
      bench_cleared = 0, bench_cleared_tick = -1,
      delay_timer = 0, sound_timer = 0, last_tick = 0, opcode = 0,
      keys_down = replicate INPUT_TICKS 0, interrupt_count = 0\<rparr>"

definition boot :: "build \<Rightarrow> u8 list \<Rightarrow> 'a vm_scheme \<Rightarrow> 'a vm_scheme" where
  "boot b rom s =
     (let s1 = s\<lparr>memory := load_rom rom (memory s)\<rparr>;
          (t, s2) = tick b s1;
          s3 = init_io b 64 32 (s2\<lparr>last_tick := t\<rparr>)
      in s3\<lparr>program_counter := of_nat ENTRYPOINT\<rparr>)"

definition interp_main :: "build \<Rightarrow> bool \<Rightarrow> u8 list \<Rightarrow> 'a vm_scheme \<Rightarrow> string + 'a vm_scheme pass option" where
  "interp_main b elide_idle rom s =
     (if rom = [] then Inl ''Could not read ROM''
      else Inr (interp_loop b elide_idle (boot b rom s) 0))"

end
