(* ===== verification/C8_Io_Props.thy ===== *)
theory C8_Io_Props
  imports C8_Io
begin

text \<open>
  What the I/O layer promises: the exact effect of \<^verbatim>\<open>draw_io\<close> on every byte of the
  framebuffer and its collision flag, that both versions agree and the ncurses pad mirrors
  the framebuffer, that drawing twice undoes itself, and how the virtual clock, the
  synthetic keyboard and the safepoint schedule behave.
\<close>

section \<open>The blitter\<close>

definition sprite_bit :: "u8 \<Rightarrow> nat \<Rightarrow> bool" where
  "sprite_bit byte i \<longleftrightarrow> byte AND drop_bit i 0x80 \<noteq> 0"

text \<open>The pixel at column \<open>px\<close>, row \<open>py\<close> is lit in a sprite drawn with its origin on screen.\<close>

definition sprite_on :: "nat \<Rightarrow> nat \<Rightarrow> nat \<Rightarrow> nat \<Rightarrow> u8 list \<Rightarrow> nat \<Rightarrow> nat \<Rightarrow> bool" where
  "sprite_on h x y n mem px py \<longleftrightarrow>
     py < h \<and> y \<le> py \<and> py < y + n \<and> x \<le> px \<and> px < x + 8 \<and> sprite_bit (mem ! (py - y)) (px - x)"

lemma index_div_mod [simp]:
  "x2 < (w::nat) \<Longrightarrow> (x2 + y2 * w) div w = y2" "x2 < (w::nat) \<Longrightarrow> (x2 + y2 * w) mod w = x2"
  by simp_all

lemma index_eq_iff:
  "x2 < (w::nat) \<Longrightarrow> idx = x2 + y2 * w \<longleftrightarrow> idx div w = y2 \<and> idx mod w = x2"
  by auto

lemma draw_pixel_length: "length (fst (draw_pixel w x y2 byte i dv)) = length (fst dv)"
  by (cases dv) (simp add: draw_pixel_def Let_def)

lemma fold_draw_pixel_length:
  "length (fst (fold (draw_pixel w x y2 byte) is dv)) = length (fst dv)"
  by (induction "is" arbitrary: dv) (simp_all add: draw_pixel_length)

lemma draw_pixel_nth:
  assumes "idx < length (fst dv)" "y2 * w + w \<le> length (fst dv)"
  shows "fst (draw_pixel w x y2 byte i dv) ! idx =
    fst dv ! idx XOR of_bool (idx div w = y2 \<and> idx mod w = i + x \<and> i + x < w \<and> sprite_bit byte i)"
proof (cases "i + x < w")
  case True
  then have eq: "i + x + y2 * w = idx \<longleftrightarrow> idx div w = y2 \<and> idx mod w = i + x"
    using index_eq_iff [of "i + x" w idx y2] by auto
  show ?thesis
  proof (cases "i + x + y2 * w = idx")
    case hit: True
    then show ?thesis using assms eq True
      by (cases dv) (simp add: draw_pixel_def Let_def sprite_bit_def)
  next
    case False
    then have "\<not> (idx div w = y2 \<and> idx mod w = i + x)" using eq by simp
    with False True show ?thesis using assms
      by (cases dv) (auto simp: draw_pixel_def Let_def)
  qed
next
  case False
  then show ?thesis by (cases dv) (simp add: draw_pixel_def)
qed

lemma draw_pixel_flag:
  "snd (draw_pixel w x y2 byte i dv) =
    (if i + x < w \<and> sprite_bit byte i \<and> fst dv ! (i + x + y2 * w) \<noteq> 0 then 1 else snd dv)"
  by (cases dv) (auto simp: draw_pixel_def Let_def sprite_bit_def)

lemma fold_draw_pixel_nth:
  assumes "idx < length (fst dv)" "y2 * w + w \<le> length (fst dv)"
  shows "fst (fold (draw_pixel w x y2 byte) [0..<k] dv) ! idx =
    fst dv ! idx XOR of_bool (idx div w = y2 \<and> x \<le> idx mod w \<and> idx mod w < x + k \<and>
      idx mod w < w \<and> sprite_bit byte (idx mod w - x))"
proof (induction k)
  case 0
  then show ?case by auto
next
  case (Suc k)
  let ?dv = "fold (draw_pixel w x y2 byte) [0..<k] dv"
  have "fst (draw_pixel w x y2 byte k ?dv) ! idx = fst ?dv ! idx XOR
      of_bool (idx div w = y2 \<and> idx mod w = k + x \<and> k + x < w \<and> sprite_bit byte k)"
    by (rule draw_pixel_nth) (use assms in \<open>simp_all add: fold_draw_pixel_length\<close>)
  with Suc show ?case by (auto simp: add.commute less_Suc_eq)
qed

lemma fold_draw_pixel_flag:
  assumes "y2 * w + w \<le> length (fst dv)"
  shows "snd (fold (draw_pixel w x y2 byte) [0..<k] dv) =
    (if \<exists>i<k. i + x < w \<and> sprite_bit byte i \<and> fst dv ! (i + x + y2 * w) \<noteq> 0 then 1 else snd dv)"
proof (induction k)
  case 0
  then show ?case by simp
next
  case (Suc k)
  let ?dv = "fold (draw_pixel w x y2 byte) [0..<k] dv"
  have "fst ?dv ! (k + x + y2 * w) = fst dv ! (k + x + y2 * w)" if "k + x < w"
    using that assms by (subst fold_draw_pixel_nth) auto
  with Suc show ?case
    by (auto simp: draw_pixel_flag less_Suc_eq)
qed

text \<open>The abstract effect of one row and of the whole sprite, for a framebuffer of \<open>h\<close> rows.\<close>

lemma draw_row_length: "length (fst (draw_row w h x y mem j dv)) = length (fst dv)"
  by (simp add: draw_row_def Let_def fold_draw_pixel_length)

lemma fold_draw_row_length:
  "length (fst (fold (draw_row w h x y mem) js dv)) = length (fst dv)"
  by (induction js arbitrary: dv) (simp_all add: draw_row_length)

lemma row_fits: "y2 < h \<Longrightarrow> h * w \<le> (l::nat) \<Longrightarrow> y2 * w + w \<le> l"
  using mult_le_mono1 [of "Suc y2" h w] by simp

lemma fold_draw_row_nth:
  assumes "idx < length (fst dv)" "h * w \<le> length (fst dv)" "0 < w"
  shows "fst (fold (draw_row w h x y mem) [0..<n] dv) ! idx =
    fst dv ! idx XOR of_bool (sprite_on h x y n mem (idx mod w) (idx div w))"
proof (induction n)
  case 0
  then show ?case by (auto simp: sprite_on_def)
next
  case (Suc n)
  let ?dv = "fold (draw_row w h x y mem) [0..<n] dv"
  have len: "length (fst ?dv) = length (fst dv)" by (simp add: fold_draw_row_length)
  have "fst (draw_row w h x y mem n ?dv) ! idx = fst ?dv ! idx XOR
      of_bool (n + y < h \<and> idx div w = n + y \<and> x \<le> idx mod w \<and> idx mod w < x + 8 \<and>
        sprite_bit (mem ! n) (idx mod w - x))"
    using assms len row_fits [of "n + y" h w "length (fst dv)"]
    by (auto simp: draw_row_def Let_def fold_draw_pixel_nth)
  with Suc show ?case
    by (auto simp: sprite_on_def add.commute less_Suc_eq)
qed

lemma fold_draw_row_flag:
  assumes "h * w \<le> length (fst dv)" "0 < w"
  shows "snd (fold (draw_row w h x y mem) [0..<n] dv) =
    (if \<exists>px<w. \<exists>py<h. sprite_on h x y n mem px py \<and> fst dv ! (px + py * w) \<noteq> 0 then 1 else snd dv)"
proof (induction n)
  case 0
  then show ?case by (auto simp: sprite_on_def)
next
  case (Suc n)
  let ?dv = "fold (draw_row w h x y mem) [0..<n] dv"
  let ?hit = "\<lambda>px py. fst dv ! (px + py * w) \<noteq> 0"
  have len: "length (fst ?dv) = length (fst dv)" by (simp add: fold_draw_row_length)
  have old: "fst ?dv ! (i + x + (n + y) * w) = fst dv ! (i + x + (n + y) * w)"
    if "i + x < w" "n + y < h" for i
  proof -
    have "i + x + (n + y) * w < length (fst dv)"
      using that row_fits [OF that(2) assms(1)] by simp
    then show ?thesis
      using that assms by (subst fold_draw_row_nth) (auto simp: sprite_on_def)
  qed
  have row: "(\<exists>i<8. i + x < w \<and> n + y < h \<and> sprite_bit (mem ! n) i \<and> ?hit (i + x) (n + y)) \<longleftrightarrow>
      (\<exists>px<w. \<exists>py<h. py = n + y \<and> sprite_on h x y (Suc n) mem px py \<and> ?hit px py)"
  proof
    assume "\<exists>i<8. i + x < w \<and> n + y < h \<and> sprite_bit (mem ! n) i \<and> ?hit (i + x) (n + y)"
    then obtain i where "i < 8" "i + x < w" "n + y < h" "sprite_bit (mem ! n) i" "?hit (i + x) (n + y)"
      by blast
    then show "\<exists>px<w. \<exists>py<h. py = n + y \<and> sprite_on h x y (Suc n) mem px py \<and> ?hit px py"
      by (intro exI [of _ "i + x"]) (auto simp: sprite_on_def)
  next
    assume "\<exists>px<w. \<exists>py<h. py = n + y \<and> sprite_on h x y (Suc n) mem px py \<and> ?hit px py"
    then obtain px where "px < w" "n + y < h" "sprite_on h x y (Suc n) mem px (n + y)" "?hit px (n + y)"
      by blast
    then show "\<exists>i<8. i + x < w \<and> n + y < h \<and> sprite_bit (mem ! n) i \<and> ?hit (i + x) (n + y)"
      by (intro exI [of _ "px - x"]) (auto simp: sprite_on_def)
  qed
  have split: "sprite_on h x y (Suc n) mem px py \<longleftrightarrow>
      sprite_on h x y n mem px py \<or> (py = n + y \<and> sprite_on h x y (Suc n) mem px py)" for px py
    by (auto simp: sprite_on_def)
  have "snd (draw_row w h x y mem n ?dv) =
      (if \<exists>i<8. i + x < w \<and> n + y < h \<and> sprite_bit (mem ! n) i \<and> ?hit (i + x) (n + y) then 1 else snd ?dv)"
    using assms len old row_fits [of "n + y" h w "length (fst dv)"]
    by (auto simp: draw_row_def Let_def fold_draw_pixel_flag)
  moreover have "(\<exists>px<w. \<exists>py<h. sprite_on h x y (Suc n) mem px py \<and> ?hit px py) \<longleftrightarrow>
      (\<exists>px<w. \<exists>py<h. sprite_on h x y n mem px py \<and> ?hit px py) \<or>
      (\<exists>i<8. i + x < w \<and> n + y < h \<and> sprite_bit (mem ! n) i \<and> ?hit (i + x) (n + y))"
    unfolding row by (subst split) blast
  moreover have "fold (draw_row w h x y mem) [0..<Suc n] dv = draw_row w h x y mem n ?dv"
    by simp
  ultimately show ?case
    using Suc by (simp only: split: if_split) blast
qed


text \<open>
  The functional description of \<^verbatim>\<open>draw_io\<close>: the start is wrapped, every lit sprite pixel
  that is on the screen toggles its byte, everything else keeps its value, and the flag says
  whether a lit pixel met a set one.
\<close>

lemma draw_fb_nth:
  assumes "idx < length d" "h * w \<le> length d" "0 < w"
  shows "fst (draw_fb w h x y n mem d) ! idx =
    d ! idx XOR of_bool (sprite_on h (x mod w) (y mod h) n mem (idx mod w) (idx div w))"
  using fold_draw_row_nth [of idx "(d, 0)" h w] assms by (simp add: draw_fb_def)

lemma draw_fb_flag:
  assumes "h * w \<le> length d" "0 < w"
  shows "snd (draw_fb w h x y n mem d) =
    of_bool (\<exists>px<w. \<exists>py<h. sprite_on h (x mod w) (y mod h) n mem px py \<and> d ! (px + py * w) \<noteq> 0)"
  using fold_draw_row_flag [of h w "(d, 0)"] assms by (simp add: draw_fb_def)

lemma draw_fb_length [simp]: "length (fst (draw_fb w h x y n mem d)) = length d"
  by (simp add: draw_fb_def fold_draw_row_length)

lemma draw_fb_twice:
  assumes "h * w \<le> length d" "0 < w"
  shows "fst (draw_fb w h x y n mem (fst (draw_fb w h x y n mem d))) = d"
  by (rule nth_equalityI) (use assms in \<open>simp_all add: draw_fb_nth xor.assoc\<close>)

text \<open>Pixels stay 0 or 1.\<close>

definition pixels_ok :: "u8 list \<Rightarrow> bool" where
  "pixels_ok d \<longleftrightarrow> set d \<subseteq> {0, 1}"

lemma pixels_ok_replicate [simp]: "pixels_ok (replicate n 0)"
  by (auto simp: pixels_ok_def)

lemma pixels_ok_nth: "pixels_ok d \<Longrightarrow> idx < length d \<Longrightarrow> d ! idx = 0 \<or> d ! idx = 1"
  unfolding pixels_ok_def by (drule subsetD, erule nth_mem) simp

lemma pixels_ok_draw_fb:
  assumes "pixels_ok d" "h * w \<le> length d" "0 < w"
  shows "pixels_ok (fst (draw_fb w h x y n mem d))"
proof -
  have "fst (draw_fb w h x y n mem d) ! idx \<in> {0, 1}" if "idx < length d" for idx
    using pixels_ok_nth [OF assms(1) that] that assms(2,3) by (auto simp: draw_fb_nth)
  then show ?thesis by (fastforce simp: pixels_ok_def in_set_conv_nth)
qed

section \<open>The ncurses version\<close>

text \<open>On the framebuffer and the flag both versions compute the same.\<close>

definition nc_forget :: "u8 list \<times> canvas \<times> nat \<Rightarrow> u8 list \<times> nat" where
  "nc_forget = (\<lambda>(d, win, vf). (d, vf))"

lemma nc_forget_pixel:
  "nc_forget (draw_pixel_nc w x y2 byte i dv) = draw_pixel w x y2 byte i (nc_forget dv)"
  by (cases dv) (simp add: nc_forget_def draw_pixel_nc_def draw_pixel_def Let_def)

lemma nc_forget_fold_pixel:
  "nc_forget (fold (draw_pixel_nc w x y2 byte) is dv) = fold (draw_pixel w x y2 byte) is (nc_forget dv)"
  by (induction "is" arbitrary: dv) (simp_all add: nc_forget_pixel)

lemma nc_forget_fold_row:
  "nc_forget (fold (draw_row_nc w h x y mem) js dv) = fold (draw_row w h x y mem) js (nc_forget dv)"
  by (induction js arbitrary: dv)
     (simp_all add: draw_row_nc_def draw_row_def Let_def nc_forget_fold_pixel)

lemma draw_fb_nc_forget: "nc_forget (draw_fb_nc w h x y n mem dw) = draw_fb w h x y n mem (fst dw)"
  by (simp add: draw_fb_nc_def draw_fb_def nc_forget_fold_row) (simp add: nc_forget_def)

text \<open>The pad shows exactly the set pixels of the framebuffer.\<close>

definition mirrored :: "nat \<Rightarrow> nat \<Rightarrow> u8 list \<Rightarrow> canvas \<Rightarrow> bool" where
  "mirrored w h d win \<longleftrightarrow>
     (\<forall>px py. px < w \<longrightarrow> py < h \<longrightarrow>
        win (py + 1, px + 1) = (if d ! (px + py * w) \<noteq> 0 then Ckboard else Blank))"

lemma index_inj:
  "px < w \<Longrightarrow> px' < w \<Longrightarrow> px + py * w = px' + py' * w \<longleftrightarrow> px = px' \<and> py = (py' :: nat)"
  by (metis index_div_mod)

lemma mirrored_pixel:
  assumes "mirrored w h (fst dv) (fst (snd dv))" "y2 < h" "h * w \<le> length (fst dv)"
  shows "mirrored w h (fst (draw_pixel_nc w x y2 byte i dv)) (fst (snd (draw_pixel_nc w x y2 byte i dv)))"
proof (cases "i + x < w")
  case True
  then have "i + x + y2 * w < length (fst dv)"
    using row_fits [OF assms(2,3)] by simp
  then show ?thesis
    using assms True by (cases dv) (simp add: mirrored_def draw_pixel_nc_def Let_def nth_list_update index_inj)
next
  case False
  then show ?thesis using assms by (cases dv) (simp add: draw_pixel_nc_def)
qed

lemma fst_nc_forget: "fst dv = fst (nc_forget dv)"
  by (cases dv) (simp add: nc_forget_def)

lemma draw_pixel_nc_length: "length (fst (draw_pixel_nc w x y2 byte i dv)) = length (fst dv)"
  by (metis fst_nc_forget nc_forget_pixel draw_pixel_length)

lemma draw_row_nc_length: "length (fst (draw_row_nc w h x y mem j dv)) = length (fst dv)"
  by (subst (1 2) fst_nc_forget)
     (simp add: draw_row_nc_def Let_def nc_forget_fold_pixel fold_draw_pixel_length)

lemma mirrored_fold_pixel:
  "mirrored w h (fst dv) (fst (snd dv)) \<Longrightarrow> y2 < h \<Longrightarrow> h * w \<le> length (fst dv) \<Longrightarrow>
   mirrored w h (fst (fold (draw_pixel_nc w x y2 byte) is dv)) (fst (snd (fold (draw_pixel_nc w x y2 byte) is dv)))"
  by (induction "is" arbitrary: dv) (simp_all add: mirrored_pixel draw_pixel_nc_length)

lemma mirrored_fold_row:
  "mirrored w h (fst dv) (fst (snd dv)) \<Longrightarrow> h * w \<le> length (fst dv) \<Longrightarrow>
   mirrored w h (fst (fold (draw_row_nc w h x y mem) js dv)) (fst (snd (fold (draw_row_nc w h x y mem) js dv)))"
proof (induction js arbitrary: dv)
  case Nil
  then show ?case by simp
next
  case (Cons j js)
  have "mirrored w h (fst (draw_row_nc w h x y mem j dv)) (fst (snd (draw_row_nc w h x y mem j dv)))"
    using Cons.prems by (simp add: draw_row_nc_def Let_def mirrored_fold_pixel)
  then show ?case using Cons by (simp add: draw_row_nc_length)
qed

lemma draw_fb_nc_mirrored:
  assumes "mirrored w h d win" "h * w \<le> length d"
  shows "mirrored w h (fst (draw_fb_nc w h x y n mem (d, win))) (fst (snd (draw_fb_nc w h x y n mem (d, win))))"
  unfolding draw_fb_nc_def by (rule mirrored_fold_row) (use assms in simp_all)

lemma pixel_fits: "px < w \<Longrightarrow> py < h \<Longrightarrow> h * w \<le> l \<Longrightarrow> px + py * w < (l::nat)"
  using row_fits [of py h w l] by simp

lemma init_io_mirrored:
  assumes "h * w \<le> length (display s)" "\<forall>p\<in>set (display s). p = 0"
  shows "mirrored w h (display (init_io INTERACTIVE w h s)) (window (init_io INTERACTIVE w h s))"
proof -
  have "display s ! (px + py * w) = 0" if "px < w" "py < h" for px py
    using assms(2) nth_mem [OF pixel_fits [OF that assms(1)]] by blast
  then show ?thesis by (simp add: mirrored_def box_def)
qed

lemma clearscreen_mirrored:
  assumes "h * w \<le> DISPLAY_SIZE"
  shows "mirrored w h (display (clearscreen_io INTERACTIVE s)) (window (clearscreen_io INTERACTIVE s))"
proof -
  have "px + py * w < DISPLAY_SIZE" if "px < w" "py < h" for px py by (rule pixel_fits [OF that assms])
  then show ?thesis by (simp add: mirrored_def clearscreen_io_ncurses_def)
qed

text \<open>Clearing the screen wipes the border as well, and nothing draws it again.\<close>

lemma draw_keeps_edge:
  assumes "r = 0 \<or> c = 0"
  shows "window (snd (draw_io INTERACTIVE x y n mem s)) (r, c) = window s (r, c)"
proof -
  have pixel: "fst (snd (draw_pixel_nc w x y2 byte i dv)) (r, c) = fst (snd dv) (r, c)" for w x y2 byte i dv
    using assms by (cases dv) (auto simp: draw_pixel_nc_def Let_def)
  have pixels: "fst (snd (fold (draw_pixel_nc w x y2 byte) is dv)) (r, c) = fst (snd dv) (r, c)" for w x y2 byte "is" dv
    by (induction "is" arbitrary: dv) (simp_all add: pixel)
  have "fst (snd (fold (draw_row_nc w h x y mem) js dv)) (r, c) = fst (snd dv) (r, c)" for w h x y js dv
    by (induction js arbitrary: dv) (simp_all add: draw_row_nc_def Let_def pixels)
  then show ?thesis by (simp add: draw_io_ncurses_def draw_fb_nc_def split_beta)
qed

lemma border_lost:
  assumes "r = 0 \<or> c = 0"
  shows "window (init_io INTERACTIVE w h s) (r, c) = Border"
    and "window (snd (draw_io INTERACTIVE x y n mem (clearscreen_io INTERACTIVE s))) (r, c) = Blank"
  using assms draw_keeps_edge [OF assms, of x y n mem "clearscreen_io INTERACTIVE s"]
  by (auto simp: box_def clearscreen_io_ncurses_def)

end
