(* ===== verification/C8_Interp_Inv.thy ===== *)
theory C8_Interp_Inv
  imports C8_Interp C8_Io_Props
begin

text \<open>
  The machine's type invariant and its preservation by every handler and by the decoder:
  arrays keep their sizes, the stack pointer stays in \<open>0..16\<close>, the screen stays 64 by 32
  with pixels 0 or 1, the key ring keeps its ten slots. From it every array access of a
  handler is in bounds.
\<close>

section \<open>Outcomes\<close>

primrec outcome_all :: "(u32 \<Rightarrow> 's \<Rightarrow> bool) \<Rightarrow> 's outcome \<Rightarrow> bool" where
  "outcome_all P (Done r s) = P r s"
| "outcome_all P Hangs = True"
| "outcome_all P UB = True"

primrec outcome_map :: "('s \<Rightarrow> 't) \<Rightarrow> 's outcome \<Rightarrow> 't outcome" where
  "outcome_map f (Done r s) = Done r (f s)"
| "outcome_map f Hangs = Hangs"
| "outcome_map f UB = UB"

lemma outcome_all_D: "outcome_all P out \<Longrightarrow> out = Done r s \<Longrightarrow> P r s"
  by simp

lemmas plain_handlers =
  skip_eq_immediate_def skip_neq_immediate_def skip_eq_register_def skip_neq_register_def
  load_immediate_def add_immediate_def move_def or_register_def and_register_def xor_register_def
  add_register_def sub_register_def shift_right_def subn_register_def shift_left_def
  load_addr_immediate_def branch_def add_addr_def store_bcd_def load_sprite_addr_def

section \<open>Stable predicates\<close>

text \<open>
  What every handler keeps, proved once: a predicate on states that survives the elementary
  updates and the services survives every handler and the decoder. The contract lists the
  updates the handlers make of the state and the services they call.
\<close>

locale vm_stable =
  fixes P :: "'a vm_scheme \<Rightarrow> bool"
  assumes upd_regs: "P s \<Longrightarrow> (\<And>r. length (f r) = length r) \<Longrightarrow> P (regs_update f s)"
    and upd_memory: "P s \<Longrightarrow> (\<And>m. length (g m) = length m) \<Longrightarrow> P (memory_update g s)"
    and upd_pc: "P s \<Longrightarrow> P (s\<lparr>program_counter := a\<rparr>)"
    and upd_addr: "P s \<Longrightarrow> P (s\<lparr>addr := a\<rparr>)"
    and upd_opcode: "P s \<Longrightarrow> P (s\<lparr>opcode := a\<rparr>)"
    and upd_delay: "P s \<Longrightarrow> P (s\<lparr>delay_timer := t\<rparr>)"
    and upd_sound: "P s \<Longrightarrow> P (s\<lparr>sound_timer := t\<rparr>)"
    and upd_last_tick: "P s \<Longrightarrow> P (s\<lparr>last_tick := i\<rparr>)"
    and upd_rand: "P s \<Longrightarrow> P (s\<lparr>rand_pos := n\<rparr>)"
    and upd_clock: "P s \<Longrightarrow> P (s\<lparr>clock_pos := n\<rparr>)"
    and upd_push: "P s \<Longrightarrow> sint (stack_pointer s) < int STACK_SIZE \<Longrightarrow>
          P (s\<lparr>stack := (stack s)[nat (sint (stack_pointer s)) := a],
               stack_pointer := stack_pointer s + 1\<rparr>)"
    and upd_pop: "P s \<Longrightarrow> 0 < sint (stack_pointer s) \<Longrightarrow>
          P (s\<lparr>stack_pointer := stack_pointer s - 1\<rparr>)"
    and upd_interrupt: "P s \<Longrightarrow> P (interrupt b s)"
    and upd_clear_key: "P s \<Longrightarrow> P (clear_key b key s)"
    and upd_all_keys: "P s \<Longrightarrow> P (snd (all_keys_down b s))"
    and upd_read_keys: "P s \<Longrightarrow> P (snd (read_keys_io b s))"
    and upd_clearscreen: "P s \<Longrightarrow> P (clearscreen_io b s)"
    and upd_draw: "P s \<Longrightarrow> P (snd (draw_io b x y n mem s))"
begin

abbreviation keeps :: "'a vm_scheme outcome \<Rightarrow> bool" where
  "keeps \<equiv> outcome_all (\<lambda>r s. P s)"

lemmas upds = upd_regs upd_memory upd_pc upd_addr upd_opcode upd_delay upd_sound upd_last_tick
  upd_rand upd_clock upd_push upd_pop upd_interrupt upd_clear_key upd_all_keys upd_read_keys
  upd_clearscreen upd_draw

lemma upd_pop_jump: "P s \<Longrightarrow> 0 < sint (stack_pointer s) \<Longrightarrow>
    P (s\<lparr>stack_pointer := stack_pointer s - 1, program_counter := a\<rparr>)"
  using upd_pc [OF upd_pop] by simp

lemma upd_push_jump: "P s \<Longrightarrow> sint (stack_pointer s) < int STACK_SIZE \<Longrightarrow>
    P (s\<lparr>stack := (stack s)[nat (sint (stack_pointer s)) := a],
         stack_pointer := stack_pointer s + 1, program_counter := c\<rparr>)"
  using upd_pc [OF upd_push] by simp

lemma upd_sync: "P s \<Longrightarrow> P (sync_timers s)"
  using upd_interrupt [of s BENCH] by simp

lemma keeps_STEP: "P s \<Longrightarrow> keeps (STEP s)"
  by (simp add: STEP_def upd_pc)

lemma keeps_ERROR: "P s \<Longrightarrow> keeps (ERROR s)"
  by (simp add: ERROR_def)

lemma keeps_skip_when: "P s \<Longrightarrow> keeps (skip_when c s)"
  by (simp add: skip_when_def keeps_STEP upd_pc)

lemma keeps_clearscreen: "P s \<Longrightarrow> keeps (clearscreen b s)"
  by (simp add: clearscreen_def keeps_STEP upds)

lemma keeps_jump: "P s \<Longrightarrow> keeps (jump b s)"
  by (simp add: jump_def Let_def upds)

lemma keeps_retern: "P s \<Longrightarrow> keeps (retern b s)"
  using upd_interrupt [of s b] by (simp add: retern_def Let_def upd_pop_jump keeps_ERROR)

lemma keeps_call: "P s \<Longrightarrow> keeps (call b s)"
  using upd_interrupt [of s b] by (simp add: call_def Let_def upd_push_jump keeps_ERROR)

lemma keeps_plain:
  assumes "P s"
  shows "keeps (skip_eq_immediate s)" "keeps (skip_neq_immediate s)"
    "keeps (skip_eq_register s)" "keeps (skip_neq_register s)"
    "keeps (load_immediate s)" "keeps (add_immediate s)" "keeps (move s)"
    "keeps (or_register s)" "keeps (and_register s)" "keeps (xor_register s)"
    "keeps (add_register s)" "keeps (sub_register s)" "keeps (shift_right s)"
    "keeps (subn_register s)" "keeps (shift_left s)" "keeps (load_addr_immediate s)"
    "keeps (branch s)" "keeps (add_addr s)" "keeps (store_bcd s)"
    "keeps (load_sprite_addr s)"
  using assms by (simp_all add: plain_handlers Let_def keeps_STEP keeps_skip_when upds)

lemma keeps_random_byte: "P s \<Longrightarrow> keeps (random_byte s)"
  by (simp add: random_byte_def rand_def keeps_STEP upds)

lemma keeps_timers:
  assumes "P s"
  shows "keeps (get_delay_timer b s)" "keeps (set_delay_timer b s)" "keeps (set_sound_timer b s)"
  using assms
  by (simp_all add: get_delay_timer_def set_delay_timer_def set_sound_timer_def timer_access_def
      Let_def keeps_STEP upds upd_sync)

lemma keeps_skip_key_x:
  assumes "P s"
  shows "keeps (skip_key_x b up s)"
proof -
  obtain keys s1 where k: "all_keys_down b s = (keys, s1)" by fastforce
  then have "P s1" using upd_all_keys [OF assms, of b] by simp
  then show ?thesis
    by (simp add: skip_key_x_def Let_def k keeps_STEP upds del: all_keys_down.simps clear_key.simps)
qed

lemma upd_poll_loop: "P s \<Longrightarrow> poll_loop b s = Some (keys, s') \<Longrightarrow> P s'"
proof (rule poll_loop.raw_induct [where P = "\<lambda>b s r. P s \<longrightarrow> P (snd r)", THEN mp, of b s "(keys, s')", unfolded snd_conv])
  fix f and b :: build and s :: "'a vm_scheme" and r
  assume IH: "\<And>b s r. f b s = Some r \<Longrightarrow> P s \<longrightarrow> P (snd r)"
    and eq: "(let (all_keys, s1) = read_keys_io b s in
      if b = BENCH \<and> bench_done s1 then Some (all_keys, s1)
      else if all_keys = 0 then f b s1 else Some (all_keys, s1)) = Some r"
  obtain k s1 where k: "read_keys_io b s = (k, s1)" by fastforce
  have "P s \<Longrightarrow> P s1" using upd_read_keys [of s b] k by simp
  then show "P s \<longrightarrow> P (snd r)"
    using eq k IH [of b s1 r]
    by (cases r) (auto simp del: read_keys_io.simps split: if_splits)
qed auto

lemma upd_fold_take_key: "P s \<Longrightarrow> P (fold (take_key b x keys) is s)"
  by (induction "is" arbitrary: s) (simp_all add: take_key_def Let_def upds)

lemma keeps_load_on_key: "P s \<Longrightarrow> keeps (load_on_key b s)"
  by (auto simp: load_on_key_def Let_def upd_fold_take_key keeps_STEP keeps_ERROR
      split: option.splits dest: upd_poll_loop)

lemma upd_wait_tick: "P s \<Longrightarrow> wait_tick s = Some (t, s') \<Longrightarrow> P s'"
proof (rule wait_tick.raw_induct [where P = "\<lambda>s r. P s \<longrightarrow> P (snd r)", THEN mp, of s "(t, s')", unfolded snd_conv])
  fix f and s :: "'a vm_scheme" and r
  assume IH: "\<And>s r. f s = Some r \<Longrightarrow> P s \<longrightarrow> P (snd r)"
    and eq: "(let (current_tick, s1) = tick INTERACTIVE s
      in if current_tick = last_tick s1 then f s1 else Some (current_tick, s1)) = Some r"
  have "P s \<Longrightarrow> P (snd (tick INTERACTIVE s))" by (simp add: upd_clock)
  then show "P s \<longrightarrow> P (snd r)"
    using eq IH [of "snd (tick INTERACTIVE s)" r] by (auto split: if_splits)
qed auto

lemma upd_frame_sync: "P s \<Longrightarrow> frame_sync b s = Some s' \<Longrightarrow> P s'"
  by (auto simp: frame_sync_def upd_last_tick split: if_splits dest: upd_wait_tick)

lemma upd_idle_loop: "P s \<Longrightarrow> idle_loop s = Some s' \<Longrightarrow> P s'"
proof (rule idle_loop.raw_induct [where P = "\<lambda>s r. P s \<longrightarrow> P r", THEN mp, of s s'])
  fix f and s r :: "'a vm_scheme"
  assume IH: "\<And>s r. f s = Some r \<Longrightarrow> P s \<longrightarrow> P r"
    and eq: "(if delay_timer s \<noteq> 0
      then if fst (all_keys_down INTERACTIVE s) AND QUIT \<noteq> 0 then Some s
           else f (interrupt INTERACTIVE s)
      else Some s) = Some r"
  show "P s \<longrightarrow> P r"
    using eq IH [of "interrupt INTERACTIVE s" r] upd_interrupt [of s INTERACTIVE]
    by (auto split: if_splits)
qed auto

lemma keeps_draw:
  assumes "P s"
  shows "keeps (draw b s)"
proof -
  have "P (snd (draw_io b x y n mem (interrupt b s)))" for x y n mem
    using assms by (intro upds)
  then have "P s2" if "draw_io b x y n mem (interrupt b s) = (vf, s2)" for x y n mem vf s2
    by (metis snd_conv that)
  then show ?thesis
    by (auto simp: draw_def Let_def keeps_STEP upds split: prod.splits option.splits
        dest!: upd_frame_sync [rotated])
qed

lemma upd_fold_regs: "P s \<Longrightarrow> P (fold (\<lambda>i t. set_reg i (f i t) t) is s)"
  by (induction "is" arbitrary: s) (simp_all add: upds)

lemma upd_fold_memory: "P s \<Longrightarrow> P (fold (\<lambda>i t. mem_set (g i t) (f i t) t) is s)"
  by (induction "is" arbitrary: s) (simp_all add: upds)

lemma keeps_block_moves:
  assumes "P s"
  shows "keeps (save_registers s)" "keeps (restore_registers s)"
  unfolding save_registers_def restore_registers_def
  by (rule keeps_STEP, rule upd_fold_memory, rule assms, rule keeps_STEP, rule upd_fold_regs, rule assms)

lemmas keeps_handlers = keeps_ERROR keeps_clearscreen keeps_jump keeps_retern keeps_call keeps_plain
  keeps_random_byte keeps_timers keeps_skip_key_x keeps_load_on_key keeps_draw keeps_block_moves

lemma keeps_groups:
  assumes "P s"
  shows "keeps (op_8 s)" "keeps (op_e b s)" "keeps (op_f b s)"
  using assms by (simp_all add: op_8_def op_e_def op_f_def Let_def keeps_handlers)

lemma keeps_dispatch: "P s \<Longrightarrow> keeps (dispatch b s)"
  by (simp add: dispatch_def Let_def keeps_handlers keeps_groups)

lemma keeps_basic_block: "P s \<Longrightarrow> keeps (basic_block b s)"
  by (simp add: basic_block_def keeps_dispatch upd_opcode)

end

section \<open>The invariant\<close>

definition vm_ok :: "'a vm_scheme \<Rightarrow> bool" where
  "vm_ok s \<longleftrightarrow>
     length (stack s) = STACK_SIZE \<and> length (memory s) = MEMORY_SIZE \<and>
     length (regs s) = REGFILE_SIZE \<and>
     0 \<le> sint (stack_pointer s) \<and> sint (stack_pointer s) \<le> int STACK_SIZE \<and>
     width s = 64 \<and> height s = 32 \<and> length (display s) = DISPLAY_SIZE \<and> pixels_ok (display s) \<and>
     length (keys_down s) = INPUT_TICKS \<and> interrupt_count s < INPUT_TICKS"

lemmas vm_consts = size_defs DISPLAY_SIZE_def INPUT_TICKS_def

lemma sint_dec: "0 < sint (w::i8) \<Longrightarrow> sint (w - 1) = sint w - 1"
  using sint_less [of w] by (simp add: sint_word_diff signed_take_bit_int_eq_self)

lemma sint_inc: "sint (w::i8) < 127 \<Longrightarrow> sint (w + 1) = sint w + 1"
  using sint_greater_eq [of w] by (simp add: sint_word_add signed_take_bit_int_eq_self)

lemma vm_ok_regs [simp]: "(\<And>r. length (f r) = length r) \<Longrightarrow> vm_ok (regs_update f s) = vm_ok s"
  by (simp add: vm_ok_def)

lemma vm_ok_memory [simp]: "(\<And>m. length (f m) = length m) \<Longrightarrow> vm_ok (memory_update f s) = vm_ok s"
  by (simp add: vm_ok_def)

lemma vm_ok_fields [simp]:
  "vm_ok (s\<lparr>program_counter := pc\<rparr>) = vm_ok s"
  "vm_ok (s\<lparr>addr := a\<rparr>) = vm_ok s"
  "vm_ok (s\<lparr>opcode := v\<rparr>) = vm_ok s"
  "vm_ok (s\<lparr>delay_timer := t\<rparr>) = vm_ok s"
  "vm_ok (s\<lparr>sound_timer := t\<rparr>) = vm_ok s"
  "vm_ok (s\<lparr>last_tick := i\<rparr>) = vm_ok s"
  "vm_ok (s\<lparr>rand_pos := n\<rparr>) = vm_ok s"
  "vm_ok (s\<lparr>clock_pos := n\<rparr>) = vm_ok s"
  "vm_ok (s\<lparr>poll_pos := n\<rparr>) = vm_ok s"
  "vm_ok (s\<lparr>window := win\<rparr>) = vm_ok s"
  "vm_ok (s\<lparr>bench_retired := n\<rparr>) = vm_ok s"
  "vm_ok (s\<lparr>bench_poll_clock := n\<rparr>) = vm_ok s"
  "vm_ok (s\<lparr>bench_cleared := k\<rparr>) = vm_ok s"
  "vm_ok (s\<lparr>bench_cleared_tick := i\<rparr>) = vm_ok s"
  by (simp_all add: vm_ok_def)

section \<open>Services\<close>

lemma vm_ok_bench_roll_tick [simp]: "vm_ok (bench_roll_tick t s) = vm_ok s"
  by (simp add: bench_roll_tick_def)

lemma vm_ok_bench_keys_now [simp]: "vm_ok (snd (bench_keys_now s)) = vm_ok s"
  by (simp add: bench_keys_now_def Let_def)

lemma vm_ok_bench_clear_key [simp]: "vm_ok (bench_clear_key key s) = vm_ok s"
  by (simp add: bench_clear_key_def Let_def)

lemma vm_ok_clear_key [simp]: "vm_ok (clear_key b key s) = vm_ok s"
  by (cases b) (simp_all, simp add: vm_ok_def)

lemma vm_ok_all_keys_down [simp]: "vm_ok (snd (all_keys_down b s)) = vm_ok s"
  by (cases b) simp_all

lemma vm_ok_read_keys_io [simp]: "vm_ok (snd (read_keys_io b s)) = vm_ok s"
  by (cases b) (simp_all add: bench_poll_keys_def read_keys_ncurses_def)

lemma vm_ok_tick [simp]: "vm_ok (snd (tick b s)) = vm_ok s"
  by (cases b) simp_all

lemma vm_ok_sync_timers [simp]: "vm_ok (sync_timers s) = vm_ok s"
  by (simp add: sync_timers_def Let_def)

lemma vm_ok_interrupt [intro]: "vm_ok s \<Longrightarrow> vm_ok (interrupt b s)"
  by (cases b) (simp_all add: Let_def read_keys_ncurses_def, simp add: vm_ok_def INPUT_TICKS_def)

lemma vm_ok_clearscreen_io [simp]: "vm_ok s \<Longrightarrow> vm_ok (clearscreen_io b s)"
  by (cases b) (simp_all add: clearscreen_io_bench_def clearscreen_io_ncurses_def vm_ok_def)

lemma display_fits: "vm_ok s \<Longrightarrow> height s * width s \<le> length (display s) \<and> 0 < width s"
  by (simp add: vm_ok_def DISPLAY_SIZE_def)

text \<open>Both versions of \<^verbatim>\<open>draw_io\<close> in terms of \<open>draw_fb\<close>.\<close>

lemma draw_io_eq:
  "draw_io b x y n mem s =
    (snd (draw_fb (width s) (height s) x y n mem (display s)),
     (if b = BENCH then id
      else window_update (\<lambda>_. fst (snd (draw_fb_nc (width s) (height s) x y n mem (display s, window s)))))
     (s\<lparr>display := fst (draw_fb (width s) (height s) x y n mem (display s))\<rparr>))"
proof (cases b)
  case BENCH
  then show ?thesis by (simp add: draw_io_bench_def split: prod.splits)
next
  case INTERACTIVE
  obtain d win vf where e: "draw_fb_nc (width s) (height s) x y n mem (display s, window s) = (d, win, vf)"
    by (metis prod_cases3)
  have "draw_fb (width s) (height s) x y n mem (display s) = (d, vf)"
    using draw_fb_nc_forget [of "width s" "height s" x y n mem "(display s, window s)"] e
    by (simp add: nc_forget_def)
  with e show ?thesis using INTERACTIVE by (simp add: draw_io_ncurses_def)
qed

lemma vm_ok_draw_io [intro]: "vm_ok s \<Longrightarrow> vm_ok (snd (draw_io b x y n mem s))"
  using display_fits [of s] pixels_ok_draw_fb [of "display s" "height s" "width s" x y n mem]
  by (auto simp: draw_io_eq vm_ok_def)

text \<open>The invariant fulfils the contract.\<close>

interpretation ok: vm_stable vm_ok
proof (unfold_locales, goal_cases)
  case (11 s a)
  then show ?case by (auto simp: vm_ok_def sint_inc STACK_SIZE_def)
next
  case (12 s)
  then show ?case by (auto simp: vm_ok_def sint_dec)
qed (simp_all only: vm_ok_regs vm_ok_memory vm_ok_fields vm_ok_interrupt vm_ok_clear_key
    vm_ok_all_keys_down vm_ok_read_keys_io vm_ok_clearscreen_io vm_ok_draw_io)

lemma vm_ok_basic_block: "vm_ok s \<Longrightarrow> basic_block b s = Done r s' \<Longrightarrow> vm_ok s'"
  using ok.keeps_basic_block [of s b] by simp

end
