(* ===== verification/C8_Interp_Bench.thy ===== *)
theory C8_Interp_Bench
  imports C8_Interp_Inv
begin

text \<open>
  The deterministic build: every handler returns, the run stops within the instruction
  budget with an exact account of the retired instructions, and nothing it computes depends
  on the host's clock, terminal or screen.
\<close>

section \<open>What no handler touches\<close>

definition bench_frame :: "'a vm_scheme \<Rightarrow> nat \<times> nat \<times> nat \<times> key_mode \<times> nat" where
  "bench_frame s =
     (bench_retired s, bench_budget s, bench_clock_cap s, bench_key_mode s, bench_next_safepoint s)"

definition frame_inv :: "nat \<times> nat \<times> nat \<times> key_mode \<times> nat \<Rightarrow> nat \<Rightarrow> 'a vm_scheme \<Rightarrow> bool" where
  "frame_inv c p s \<longleftrightarrow> bench_frame s = c \<and> p \<le> bench_poll_clock s"

lemmas frame_defs = frame_inv_def bench_frame_def

lemma frame_inv_keys [simp]:
  "frame_inv c p (bench_roll_tick t s) = frame_inv c p s"
  "frame_inv c p (snd (bench_keys_now s)) = frame_inv c p s"
  "frame_inv c p (bench_clear_key key s) = frame_inv c p s"
  by (simp_all add: bench_roll_tick_def bench_keys_now_def bench_clear_key_def Let_def frame_defs)

lemma frame_inv_read_keys: "frame_inv c p s \<Longrightarrow> frame_inv c p (snd (read_keys_io b s))"
  by (cases b) (simp_all add: bench_poll_keys_def read_keys_ncurses_def, simp_all add: frame_defs)

interpretation fr: vm_stable "frame_inv c p" for c p
proof (unfold_locales, goal_cases)
  case (13 s b)
  then show ?case
    by (cases b) (simp_all add: sync_timers_def Let_def read_keys_ncurses_def frame_defs)
next
  case (14 s b key)
  then show ?case by (cases b) (simp_all, simp add: frame_defs)
next
  case (15 s b)
  then show ?case by (cases b) simp_all
next
  case (16 s b)
  then show ?case by (rule frame_inv_read_keys)
next
  case (17 s b)
  then show ?case
    by (cases b) (simp_all add: clearscreen_io_bench_def clearscreen_io_ncurses_def frame_defs)
next
  case (18 s b x y n mem)
  then show ?case by (simp add: draw_io_eq frame_defs)
qed (simp_all add: frame_defs)

lemma basic_block_frame:
  assumes "basic_block b s = Done r s'"
  shows "bench_frame s' = bench_frame s" "bench_poll_clock s \<le> bench_poll_clock s'"
  using fr.keeps_basic_block [of "bench_frame s" "bench_poll_clock s" s b] assms
  by (simp_all add: frame_inv_def)

section \<open>Polling ends\<close>

text \<open>
  In the \<^verbatim>\<open>BENCH\<close> build every poll charges the virtual clock, so \<^verbatim>\<open>Fx0A\<close> returns: with a
  key, or because the run is over.
\<close>

lemma poll_keys_clock:
  "bench_poll_keys s = (keys, s1) \<Longrightarrow>
   bench_frame s1 = bench_frame s \<and> bench_poll_clock s1 = bench_poll_clock s + 1"
  by (auto simp: bench_poll_keys_def bench_keys_now_def bench_roll_tick_def bench_frame_def
      BENCH_POLL_COST_def Let_def split: if_splits)

lemma poll_loop_BENCH:
  "\<exists>keys s'. poll_loop BENCH s = Some (keys, s') \<and> (keys \<noteq> 0 \<or> bench_done s')"
proof (induction "bench_clock_cap s - bench_now s" arbitrary: s rule: less_induct)
  case less
  obtain keys s1 where k: "bench_poll_keys s = (keys, s1)" by fastforce
  note clock = poll_keys_clock [OF k]
  show ?case
  proof (cases "bench_done s1 \<or> keys \<noteq> 0")
    case True
    then show ?thesis by (subst poll_loop.simps) (auto simp: k)
  next
    case False
    then have "bench_now s1 < bench_clock_cap s1" by (simp add: bench_done_def)
    then have "bench_clock_cap s1 - bench_now s1 < bench_clock_cap s - bench_now s"
      using clock by (simp add: bench_now_def bench_frame_def)
    from less [OF this] show ?thesis
      using False by (subst poll_loop.simps) (simp add: k)
  qed
qed

definition returns :: "'s outcome \<Rightarrow> bool" where
  "returns out \<longleftrightarrow> out \<noteq> Hangs"

lemma returns_simps [simp]:
  "returns (Done r s)" "returns UB" "returns (STEP s)" "returns (ERROR s)" "returns (skip_when c s)"
  by (simp_all add: returns_def STEP_def ERROR_def skip_when_def)

lemma returns_load_on_key: "returns (load_on_key BENCH s)"
  using poll_loop_BENCH [of s] by (auto simp: load_on_key_def Let_def)

lemma returns_handlers:
  "returns (clearscreen b s)" "returns (jump b s)" "returns (retern b s)" "returns (call b s)"
  "returns (random_byte s)" "returns (get_delay_timer b s)" "returns (set_delay_timer b s)"
  "returns (set_sound_timer b s)" "returns (skip_key_x b up s)" "returns (draw BENCH s)"
  "returns (save_registers s)" "returns (restore_registers s)"
  by (simp_all add: clearscreen_def jump_def retern_def call_def random_byte_def get_delay_timer_def
      set_delay_timer_def set_sound_timer_def skip_key_x_def draw_def frame_sync_def save_registers_def
      restore_registers_def Let_def split: prod.splits)

lemma returns_plain:
  "returns (skip_eq_immediate s)" "returns (skip_neq_immediate s)" "returns (skip_eq_register s)"
  "returns (skip_neq_register s)" "returns (load_immediate s)" "returns (add_immediate s)"
  "returns (load_addr_immediate s)" "returns (branch s)" "returns (op_8 s)"
  by (simp_all add: plain_handlers op_8_def Let_def)

lemma basic_block_BENCH_returns: "returns (basic_block BENCH s)"
  by (simp add: basic_block_def dispatch_def op_e_def op_f_def Let_def returns_handlers returns_plain
      returns_load_on_key add_addr_def load_sprite_addr_def store_bcd_def)

section \<open>The run\<close>

text \<open>The synthetic keyboard never presses the quit key.\<close>

lemma bench_keys_no_quit: "fst (bench_keys_now s) AND QUIT = 0"
proof -
  have other: "(push_bit m 1 AND y) AND push_bit q 1 = (0 :: u32)" if "m \<noteq> q" for m q y
    using that by (intro bit_word_eqI) (auto simp: bit_simps)
  have "(push_bit (k mod 16) 1 AND y) AND push_bit 31 1 = (0 :: u32)" for k y
    by (rule other) (simp add: less_imp_neq)
  then show ?thesis by (simp only: bench_keys_now_def Let_def QUIT_def) simp
qed

text \<open>
  A main loop as an interface: it unfolds into its pass, no pass gets stuck from an
  invariant state, and a pass that goes on keeps the invariant and comes closer to the end.
  Then the loop returns, and what holds at each stop holds of its result.
\<close>

locale run_loop =
  fixes pass :: "'s \<Rightarrow> nat \<Rightarrow> 's pass"
    and loop :: "'s \<Rightarrow> nat \<Rightarrow> 's pass option"
    and I :: "'s \<Rightarrow> nat \<Rightarrow> bool"
    and Q :: "'s \<Rightarrow> nat \<Rightarrow> bool"
    and left :: "'s \<Rightarrow> nat"
  assumes loop_unfold: "loop s c = (case pass s c of Next s1 c1 \<Rightarrow> loop s1 c1 | p \<Rightarrow> Some p)"
    and pass_next: "I s c \<Longrightarrow> pass s c = Next s1 c1 \<Longrightarrow> I s1 c1 \<and> left s1 < left s"
    and pass_stop: "I s c \<Longrightarrow> pass s c = Stop s1 c1 \<Longrightarrow> Q s1 c1"
    and pass_live: "I s c \<Longrightarrow> pass s c \<noteq> Stuck"
begin

lemma loop_returns:
  "I s c \<Longrightarrow> loop s c = Some Undefined \<or> (\<exists>s1 c1. loop s c = Some (Stop s1 c1) \<and> Q s1 c1)"
proof (induction "left s" arbitrary: s c rule: less_induct)
  case less
  show ?case
  proof (cases "pass s c")
    case (Next s1 c1)
    then show ?thesis
      using less.hyps [of s1 c1] pass_next [OF less.prems Next] by (simp add: loop_unfold [of s c])
  qed (use pass_stop [OF less.prems] pass_live [OF less.prems] in \<open>auto simp: loop_unfold [of s c]\<close>)
qed

end

definition bench_running :: "'a vm_scheme \<Rightarrow> nat \<Rightarrow> bool" where
  "bench_running s c \<longleftrightarrow> vm_ok s \<and> bench_retired s = c \<and> bench_retired s < bench_budget s"

definition bench_stopped :: "nat \<Rightarrow> 'a vm_scheme \<Rightarrow> nat \<Rightarrow> bool" where
  "bench_stopped budget s c \<longleftrightarrow>
     vm_ok s \<and> bench_budget s = budget \<and> bench_retired s \<le> budget \<and>
     (bench_done s \<and> c = bench_retired s \<or> c + 1 = bench_retired s)"

definition budget_left :: "'a vm_scheme \<Rightarrow> nat" where
  "budget_left s = bench_budget s - bench_retired s"

lemma vm_ok_bench_keys_now_pair: "bench_keys_now s = (k, s1) \<Longrightarrow> vm_ok s1 = vm_ok s"
  using vm_ok_bench_keys_now [of s] by simp

lemma bench_keys_now_frame: "bench_keys_now s = (k, s1) \<Longrightarrow> bench_frame s1 = bench_frame s"
  using frame_inv_keys(2) [of "bench_frame s" 0 s] by (simp add: frame_inv_def)

lemma interp_pass_BENCH:
  assumes "bench_running s c"
  shows "interp_pass BENCH e s c = Next s1 c1 \<Longrightarrow>
      bench_running s1 c1 \<and> bench_budget s1 = bench_budget s \<and> bench_retired s1 = bench_retired s + 1"
    and "interp_pass BENCH e s c = Stop s1 c1 \<Longrightarrow> bench_stopped (bench_budget s) s1 c1"
    and "interp_pass BENCH e s c \<noteq> Stuck"
proof -
  obtain k s0 where k: "bench_keys_now s = (k, s0)" by fastforce
  have quit: "k AND QUIT = 0" using bench_keys_no_quit [of s] k by simp
  note fr0 = bench_keys_now_frame [OF k]
  let ?s = "s0\<lparr>bench_retired := bench_retired s0 + 1\<rparr>"
  have ok: "vm_ok ?s" using assms vm_ok_bench_keys_now_pair [OF k] by (simp add: bench_running_def)
  have pass: "interp_pass BENCH e s c = execute BENCH s0 c"
    using k quit by (simp add: interp_pass_def)
  have done_frame: "basic_block BENCH ?s = Done r s2 \<Longrightarrow>
      vm_ok s2 \<and> bench_budget s2 = bench_budget s \<and> bench_retired s2 = bench_retired s + 1" for r s2
    using basic_block_frame [of BENCH ?s r s2] vm_ok_basic_block [OF ok, of BENCH r s2] fr0
    by (simp add: bench_frame_def)
  show "interp_pass BENCH e s c \<noteq> Stuck"
    using basic_block_BENCH_returns [of ?s]
    by (auto simp: pass execute_def returns_def split: outcome.splits if_splits)
  show "bench_running s1 c1 \<and> bench_budget s1 = bench_budget s \<and> bench_retired s1 = bench_retired s + 1"
    if "interp_pass BENCH e s c = Next s1 c1"
    using that done_frame [of _ s1] assms
    by (auto simp: pass execute_def bench_running_def bench_done_def split: outcome.splits if_splits)
  show "bench_stopped (bench_budget s) s1 c1" if "interp_pass BENCH e s c = Stop s1 c1"
    using that done_frame [of _ s1] assms
    by (auto simp: pass execute_def bench_running_def bench_stopped_def split: outcome.splits if_splits)
qed

interpretation bench_loop: run_loop "interp_pass BENCH e" "interp_loop BENCH e"
  "\<lambda>s c. bench_running s c \<and> bench_budget s = n" "bench_stopped n" budget_left for e n
proof (unfold_locales, goal_cases)
  case (1 s c)
  then show ?case by (subst interp_loop.simps) (simp split: pass.splits)
next
  case (2 s c s1 c1)
  then show ?case
    using interp_pass_BENCH(1) [of s c e s1 c1] by (auto simp: budget_left_def bench_running_def)
next
  case (3 s c s1 c1)
  then show ?case using interp_pass_BENCH(2) [of s c e s1 c1] by auto
next
  case (4 s c)
  then show ?case using interp_pass_BENCH(3) [of s c e] by auto
qed

end
