(* ===== verification/C8_Interp_Spec.thy ===== *)
theory C8_Interp_Spec
  imports C8_Interp_Bench
begin

text \<open>
  Functional correctness of the handlers against specifications on natural numbers:
  arithmetic and flags, calls and returns, the decimal and block moves, the timers, the key
  instructions, drawing, and when a handler reports an error.
\<close>

section \<open>Arithmetic\<close>

text \<open>Result and flag of \<^verbatim>\<open>8xyn\<close> for operands \<open>a\<close> = Vx, \<open>b\<close> = Vy.\<close>

fun alu_spec :: "nat \<Rightarrow> nat \<Rightarrow> nat \<Rightarrow> (nat \<times> nat option) option" where
  "alu_spec n a b =
     (if n = 0 then Some (b, None)
      else if n = 1 then Some (a OR b, None)
      else if n = 2 then Some (a AND b, None)
      else if n = 3 then Some (a XOR b, None)
      else if n = 4 then Some ((a + b) mod 256, Some (of_bool (255 < a + b)))
      else if n = 5 then Some ((a + 256 - b) mod 256, Some (of_bool (b \<le> a)))
      else if n = 6 then Some (a div 2, Some (a mod 2))
      else if n = 7 then Some ((b + 256 - a) mod 256, Some (of_bool (a \<le> b)))
      else if n = 14 then Some (2 * a mod 256, Some (of_bool (128 \<le> a)))
      else None)"

text \<open>The register file after an operation: the flag wins over the result.\<close>

definition write_back :: "nat \<Rightarrow> nat \<times> nat option \<Rightarrow> (nat \<Rightarrow> nat) \<Rightarrow> nat \<Rightarrow> nat" where
  "write_back x rf v i =
     (case snd rf of
        Some f \<Rightarrow> if i = 15 then f else if i = x then fst rf else v i
      | None \<Rightarrow> if i = x then fst rf else v i)"

definition reg_values :: "'a vm_scheme \<Rightarrow> nat \<Rightarrow> nat" where
  "reg_values s i = unat (regs s ! i)"

lemma vm_ok_lengths:
  "vm_ok s \<Longrightarrow> length (regs s) = 16" "vm_ok s \<Longrightarrow> length (memory s) = 4096"
  "vm_ok s \<Longrightarrow> length (stack s) = 16" "vm_ok s \<Longrightarrow> length (display s) = 8192"
  by (simp_all add: vm_ok_def vm_consts)

lemma op_8_spec:
  assumes "length (regs s) = 16"
    and "alu_spec (unat (opcode s AND 0xf)) (reg_values s (op_x (opcode s))) (reg_values s (op_y (opcode s))) = Some rf"
    and "i < 16"
  shows "\<exists>s'. op_8 s = Done 0 s' \<and> program_counter s' = program_counter s + 2 \<and>
    reg_values s' i = write_back (op_x (opcode s)) rf (reg_values s) i \<and>
    s' = s\<lparr>regs := regs s', program_counter := program_counter s'\<rparr>"
proof -
  have "unat (opcode s AND 0xf) \<in> {0,1,2,3,4,5,6,7,14}"
    using assms(2) by (auto split: if_splits)
  then have n: "opcode s AND 0xf \<in> {0,1,2,3,4,5,6,7,14}"
    by (simp add: word_eq_iff_unsigned [where ?'a = nat])
  show ?thesis
    using n assms
    by (elim insertE emptyE)
      (auto simp: op_8_def Let_def STEP_def plain_handlers write_back_def reg_values_def nth_list_update
        byte_add byte_sub byte_shift byte_high_bit unsigned_or_eq unsigned_and_eq unsigned_xor_eq
        word_le_nat_alt)
qed


section \<open>Errors\<close>

text \<open>
  The opcodes the interpreter implements: everything but the undefined members of the
  groups 8, E and F. The operand nibble of \<^verbatim>\<open>5xyn\<close> and \<^verbatim>\<open>9xyn\<close> is not looked at, and
  \<^verbatim>\<open>0nnn\<close> is a jump.
\<close>

definition interp_legal :: "u16 \<Rightarrow> bool" where
  "interp_legal opc \<longleftrightarrow>
     (let k = unat (drop_bit 12 (opc AND 0xf000)) in
      (k = 8 \<longrightarrow> opc AND 0xf \<in> {0, 1, 2, 3, 4, 5, 6, 7, 0xe}) \<and>
      (k = 0xe \<longrightarrow> opc AND 0xff \<in> {0x9e, 0xa1}) \<and>
      (k = 0xf \<longrightarrow> opc AND 0xff \<in> {0x07, 0x0a, 0x15, 0x18, 0x1e, 0x29, 0x33, 0x55, 0x65}))"

text \<open>When the next instruction fails: an undefined opcode, or a stack underflow or overflow.\<close>

definition faulty :: "'a vm_scheme \<Rightarrow> u16 \<Rightarrow> bool" where
  "faulty s opc \<longleftrightarrow>
     (if opc = 0x00e0 then False
      else if opc = 0x00ee then sint (stack_pointer s) \<le> 0
      else if unat (drop_bit 12 (opc AND 0xf000)) = 2 then int STACK_SIZE \<le> sint (stack_pointer s)
      else \<not> interp_legal opc)"

lemma high_nibble_less: "unat (drop_bit 12 ((opc::u16) AND 0xf000)) < 16"
proof -
  have "drop_bit 12 (opc AND 0xf000) = drop_bit 12 opc AND drop_bit 12 0xf000"
    by (rule drop_bit_and)
  then show ?thesis using unat_and_15_less [of "drop_bit 12 opc"] by simp
qed

lemma error_code_nonzero: "opc \<noteq> 0 \<Longrightarrow> error_code opc pc \<noteq> 0"
proof
  assume "opc \<noteq> 0" and z: "error_code opc pc = 0"
  from \<open>opc \<noteq> 0\<close> obtain n where n: "n < 16" "bit opc n"
    using bit_word_eqI [of opc 0] by auto
  then have "bit (error_code opc pc) (n + 16)"
    by (simp add: error_code_def bit_simps)
  with z show False by simp
qed


abbreviation succeeds :: "'s outcome \<Rightarrow> bool" where
  "succeeds \<equiv> outcome_all (\<lambda>r s. r = 0)"

lemma succeeds_simps [simp]:
  "succeeds (STEP s)" "succeeds (skip_when c s)"
  by (simp_all add: STEP_def skip_when_def)

lemma succeeds_handlers:
  "succeeds (clearscreen b s)" "succeeds (jump b s)" "succeeds (random_byte s)"
  "succeeds (get_delay_timer b s)" "succeeds (set_delay_timer b s)" "succeeds (set_sound_timer b s)"
  "succeeds (skip_key_x b up s)" "succeeds (draw b s)"
  "succeeds (save_registers s)" "succeeds (restore_registers s)"
  by (simp_all add: clearscreen_def jump_def random_byte_def get_delay_timer_def
      set_delay_timer_def set_sound_timer_def skip_key_x_def draw_def save_registers_def
      restore_registers_def Let_def split: prod.splits option.splits)

lemma succeeds_plain:
  "succeeds (skip_eq_immediate s)" "succeeds (skip_neq_immediate s)" "succeeds (skip_eq_register s)"
  "succeeds (skip_neq_register s)" "succeeds (load_immediate s)" "succeeds (add_immediate s)"
  "succeeds (load_addr_immediate s)" "succeeds (branch s)" "succeeds (add_addr s)"
  "succeeds (load_sprite_addr s)" "succeeds (store_bcd s)"
  by (simp_all add: plain_handlers Let_def)

lemma poll_loop_no_quit: "poll_loop BENCH s = Some (keys, s') \<Longrightarrow> keys AND QUIT = 0"
proof (rule poll_loop.raw_induct
    [where P = "\<lambda>b s r. b = BENCH \<longrightarrow> fst r AND QUIT = 0", THEN mp, of BENCH s "(keys, s')", unfolded fst_conv])
  fix f and b :: build and s :: "'a vm_scheme" and r
  assume IH: "\<And>b s r. f b s = Some r \<Longrightarrow> b = BENCH \<longrightarrow> fst r AND QUIT = 0"
    and eq: "(let (all_keys, s1) = read_keys_io b s in
      if b = BENCH \<and> bench_done s1 then Some (all_keys, s1)
      else if all_keys = 0 then f b s1 else Some (all_keys, s1)) = Some r"
  obtain k s1 where k: "bench_poll_keys s = (k, s1)" by fastforce
  then have "k AND QUIT = 0"
    using bench_keys_no_quit [of "s\<lparr>bench_poll_clock := bench_poll_clock s + BENCH_POLL_COST\<rparr>"]
    by (simp add: bench_poll_keys_def)
  then show "b = BENCH \<longrightarrow> fst r AND QUIT = 0"
    using eq k IH [of b s1 r] by (cases r) (auto split: if_splits)
qed auto

lemma succeeds_load_on_key: "succeeds (load_on_key BENCH s)"
  using poll_loop_no_quit [of s] by (auto simp: load_on_key_def Let_def split: option.split)

lemma sync_timers_frame [simp]:
  "stack_pointer (sync_timers s) = stack_pointer s" "stack (sync_timers s) = stack s"
  "program_counter (sync_timers s) = program_counter s" "opcode (sync_timers s) = opcode s"
  "regs (sync_timers s) = regs s" "memory (sync_timers s) = memory s" "addr (sync_timers s) = addr s"
  by (simp_all add: sync_timers_def Let_def)

abbreviation status_is :: "u32 \<Rightarrow> 's outcome \<Rightarrow> bool" where
  "status_is c \<equiv> outcome_all (\<lambda>r s. r = c)"

lemma status_retern:
  "status_is (if sint (stack_pointer s) \<le> 0 then error_code (opcode s) (program_counter s) else 0)
     (retern BENCH s)"
  by (simp add: retern_def Let_def ERROR_def)

lemma status_call:
  "status_is (if int STACK_SIZE \<le> sint (stack_pointer s)
     then error_code (opcode s) (program_counter s) else 0) (call BENCH s)"
  by (simp add: call_def Let_def ERROR_def)

lemma status_groups:
  "status_is (if opcode s AND 0xf \<in> {0, 1, 2, 3, 4, 5, 6, 7, 0xe} then 0
     else error_code (opcode s) (program_counter s)) (op_8 s)"
  "status_is (if opcode s AND 0xff \<in> {0x9e, 0xa1} then 0
     else error_code (opcode s) (program_counter s)) (op_e BENCH s)"
  "status_is (if opcode s AND 0xff \<in> {0x07, 0x0a, 0x15, 0x18, 0x1e, 0x29, 0x33, 0x55, 0x65} then 0
     else error_code (opcode s) (program_counter s)) (op_f BENCH s)"
  by (simp_all add: op_8_def op_e_def op_f_def Let_def ERROR_def succeeds_handlers succeeds_plain
      succeeds_load_on_key plain_handlers)

lemma status_dispatch:
  "status_is (if faulty s (opcode s) then error_code (opcode s) (program_counter s) else 0)
     (dispatch BENCH s)"
proof -
  define k where "k = unat (drop_bit 12 (opcode s AND 0xf000))"
  have "k < 16" unfolding k_def by (rule high_nibble_less)
  then show ?thesis
    using status_groups [of s] status_retern [of s] status_call [of s]
    unfolding dispatch_def faulty_def interp_legal_def k_def [symmetric] Let_def
    by (cases "opcode s = 0xe0"; cases "opcode s = 0xee"; cases rule: less_16_cases)
      (auto simp: succeeds_handlers succeeds_plain split: if_splits)
qed

lemma basic_block_status:
  assumes "basic_block BENCH s = Done r s'"
  defines "opc \<equiv> opcode_at s (program_counter s)"
  shows "r = (if faulty s opc then error_code opc (program_counter s) else 0)"
  using status_dispatch [of "s\<lparr>opcode := opc\<rparr>"] assms(1)
  by (simp add: basic_block_def opc_def faulty_def)

lemma faulty_nonzero: "faulty s opc \<Longrightarrow> opc \<noteq> 0"
  by (auto simp: faulty_def interp_legal_def)

lemma basic_block_stops_iff:
  assumes "basic_block BENCH s = Done r s'"
  shows "r \<noteq> 0 \<longleftrightarrow> faulty s (opcode_at s (program_counter s))"
  using basic_block_status [OF assms] faulty_nonzero [of s] error_code_nonzero by auto

end
