(* ===== verification/C8_Interp_Moves.thy ===== *)
theory C8_Interp_Moves
  imports C8_Interp_Spec
begin

text \<open>
  Subroutine calls, the decimal store \<^verbatim>\<open>Fx33\<close>, the register spill and reload \<^verbatim>\<open>Fx55\<close> and
  \<^verbatim>\<open>Fx65\<close>, all through the wrapping 4 KiB address space.
\<close>

section \<open>Wrapping addresses\<close>

lemma mem_index_add: "mem_index (a + of_nat i) = (unat a + i) mod 4096"
proof -
  have "(unat a + i) mod 65536 mod 4096 = (unat a + i) mod 4096"
    by (rule mod_mod_cancel) simp
  moreover have "unat (a + of_nat i) = (unat a + i) mod 65536"
    by (simp add: unat_word_ariths unat_of_nat mod_add_right_eq)
  ultimately show ?thesis by (simp add: mem_index_eq)
qed

lemma mem_index_inj:
  assumes "i < 4096" "j < 4096"
  shows "mem_index (a + of_nat i) = mem_index (a + of_nat j) \<longleftrightarrow> i = j"
proof
  assume "mem_index (a + of_nat i) = mem_index (a + of_nat j)"
  then have "(unat a + i) mod 4096 = (unat a + j) mod 4096" by (simp add: mem_index_add)
  then have "int ((unat a + i) mod 4096) = int ((unat a + j) mod 4096)" by (rule arg_cong)
  then have "(int (unat a) + int i) mod 4096 = (int (unat a) + int j) mod 4096"
    by (simp only: of_nat_mod of_nat_add of_nat_numeral)
  then have "4096 dvd (int (unat a) + int i) - (int (unat a) + int j)" by (simp only: mod_eq_dvd_iff)
  then have dvd: "4096 dvd int i - int j" by (simp only: add_diff_cancel_left)
  show "i = j"
  proof (rule ccontr)
    assume "i \<noteq> j"
    then have "int i - int j \<noteq> 0" by linarith
    from dvd_imp_le_int [OF this dvd] assms show False by linarith
  qed
qed simp

lemma mem_index_distinct:
  "mem_index (a + 1) \<noteq> mem_index a" "mem_index (a + 2) \<noteq> mem_index a"
  "mem_index (a + 2) \<noteq> mem_index (a + 1)"
  using mem_index_inj [of 1 0 a] mem_index_inj [of 2 0 a] mem_index_inj [of 2 1 a] by simp_all

section \<open>Decimal store\<close>

lemma store_bcd_spec:
  assumes "length (memory s) = 4096"
  obtains s' where "store_bcd s = Done 0 s'" "program_counter s' = program_counter s + 2"
    "unat (mem_at s' (addr s)) = reg_values s (op_x (opcode s)) div 100"
    "unat (mem_at s' (addr s + 1)) = reg_values s (op_x (opcode s)) div 10 mod 10"
    "unat (mem_at s' (addr s + 2)) = reg_values s (op_x (opcode s)) mod 10"
    "\<And>idx. idx \<notin> {mem_index (addr s), mem_index (addr s + 1), mem_index (addr s + 2)} \<Longrightarrow>
       memory s' ! idx = memory s ! idx"
    "s' = s\<lparr>memory := memory s', program_counter := program_counter s'\<rparr>"
proof -
  let ?v = "regs s ! op_x (opcode s)"
  let ?s = "mem_set (addr s + 2) (?v mod 100 mod 10)
      (mem_set (addr s + 1) (?v mod 100 div 10) (mem_set (addr s) (?v div 100) s))"
  have ten: "n mod 100 div 10 = n div 10 mod 10" "n mod 100 mod 10 = n mod (10 :: nat)" for n
    by (simp_all add: mod_mult2_eq [of n 10 10, simplified] mod_mod_cancel)
  show ?thesis
  proof (rule that)
    show "store_bcd s = Done 0 (?s\<lparr>program_counter := program_counter s + 2\<rparr>)"
      by (simp add: store_bcd_def Let_def STEP_def o_def)
  qed (use assms mem_index_distinct [of "addr s"] in
      \<open>auto simp: mem_at_def reg_values_def unat_div_distrib unat_mod_distrib ten\<close>)
qed

section \<open>Spill and reload\<close>

lemma fold_save:
  assumes "length (memory s) = 4096" "k \<le> 16"
  shows "\<exists>m. fold (\<lambda>i t. mem_set (addr t + of_nat i) (regs t ! i) t) [0..<k] s = s\<lparr>memory := m\<rparr> \<and>
    length m = 4096 \<and>
    (\<forall>i<k. m ! mem_index (addr s + of_nat i) = regs s ! i) \<and>
    (\<forall>idx. (\<forall>i<k. idx \<noteq> mem_index (addr s + of_nat i)) \<longrightarrow> m ! idx = memory s ! idx)"
  using assms(2)
proof (induction k)
  case 0
  then show ?case using assms(1) by (intro exI [of _ "memory s"]) simp
next
  case (Suc k)
  then obtain m where m: "fold (\<lambda>i t. mem_set (addr t + of_nat i) (regs t ! i) t) [0..<k] s = s\<lparr>memory := m\<rparr>"
    "length m = 4096" "\<forall>i<k. m ! mem_index (addr s + of_nat i) = regs s ! i"
    "\<forall>idx. (\<forall>i<k. idx \<noteq> mem_index (addr s + of_nat i)) \<longrightarrow> m ! idx = memory s ! idx" by auto
  have "i < k \<Longrightarrow> mem_index (addr s + of_nat k) \<noteq> mem_index (addr s + of_nat i)" for i
    using Suc.prems by (subst mem_index_inj) auto
  then show ?case
    using m by (intro exI [of _ "m[mem_index (addr s + of_nat k) := regs s ! k]"])
      (auto simp: less_Suc_eq nth_list_update)
qed

lemma fold_restore:
  assumes "length (regs s) = 16" "k \<le> 16"
  shows "\<exists>r. fold (\<lambda>i t. set_reg i (mem_at t (addr t + of_nat i)) t) [0..<k] s = s\<lparr>regs := r\<rparr> \<and>
    length r = 16 \<and> (\<forall>i<16. r ! i = (if i < k then mem_at s (addr s + of_nat i) else regs s ! i))"
  using assms(2)
proof (induction k)
  case 0
  then show ?case using assms(1) by (intro exI [of _ "regs s"]) simp
next
  case (Suc k)
  then obtain r where r: "fold (\<lambda>i t. set_reg i (mem_at t (addr t + of_nat i)) t) [0..<k] s = s\<lparr>regs := r\<rparr>"
    "length r = 16" "\<forall>i<16. r ! i = (if i < k then mem_at s (addr s + of_nat i) else regs s ! i)" by auto
  then show ?case
    using Suc.prems by (intro exI [of _ "r[k := mem_at s (addr s + of_nat k)]"])
      (auto simp: less_Suc_eq nth_list_update mem_at_def)
qed

text \<open>The effect of both instructions, for \<open>x\<close> the last register moved.\<close>

lemma save_registers_spec:
  assumes "length (memory s) = 4096"
  obtains m where "save_registers s = Done 0 (s\<lparr>memory := m, program_counter := program_counter s + 2\<rparr>)"
    "length m = 4096"
    "\<And>i. i \<le> op_x (opcode s) \<Longrightarrow> m ! mem_index (addr s + of_nat i) = regs s ! i"
    "\<And>idx. (\<And>i. i \<le> op_x (opcode s) \<Longrightarrow> idx \<noteq> mem_index (addr s + of_nat i)) \<Longrightarrow> m ! idx = memory s ! idx"
proof -
  have "op_x (opcode s) + 1 \<le> 16" using op_x_less [of "opcode s"] by linarith
  from fold_save [OF assms this] obtain m where m:
    "fold (\<lambda>i t. mem_set (addr t + of_nat i) (regs t ! i) t) [0..<op_x (opcode s) + 1] s = s\<lparr>memory := m\<rparr>"
    "length m = 4096"
    "\<forall>i<op_x (opcode s) + 1. m ! mem_index (addr s + of_nat i) = regs s ! i"
    "\<forall>idx. (\<forall>i<op_x (opcode s) + 1. idx \<noteq> mem_index (addr s + of_nat i)) \<longrightarrow> m ! idx = memory s ! idx"
    by blast
  show ?thesis
  proof (rule that)
    show "save_registers s = Done 0 (s\<lparr>memory := m, program_counter := program_counter s + 2\<rparr>)"
      unfolding save_registers_def m(1) STEP_def by simp
  qed (use m in auto)
qed

lemma restore_registers_spec:
  assumes "length (regs s) = 16"
  obtains r where "restore_registers s = Done 0 (s\<lparr>regs := r, program_counter := program_counter s + 2\<rparr>)"
    "length r = 16"
    "\<And>i. i < 16 \<Longrightarrow> r ! i = (if i \<le> op_x (opcode s) then mem_at s (addr s + of_nat i) else regs s ! i)"
proof -
  have "op_x (opcode s) + 1 \<le> 16" using op_x_less [of "opcode s"] by linarith
  from fold_restore [OF assms this] obtain r where r:
    "fold (\<lambda>i t. set_reg i (mem_at t (addr t + of_nat i)) t) [0..<op_x (opcode s) + 1] s = s\<lparr>regs := r\<rparr>"
    "length r = 16"
    "\<forall>i<16. r ! i = (if i < op_x (opcode s) + 1 then mem_at s (addr s + of_nat i) else regs s ! i)"
    by blast
  show ?thesis
  proof (rule that)
    show "restore_registers s = Done 0 (s\<lparr>regs := r, program_counter := program_counter s + 2\<rparr>)"
      unfolding restore_registers_def r(1) STEP_def by simp
  qed (use r in auto)
qed

section \<open>Calls\<close>

lemma interrupt_frame [simp]:
  "stack_pointer (interrupt b s) = stack_pointer s" "stack (interrupt b s) = stack s"
  "program_counter (interrupt b s) = program_counter s" "opcode (interrupt b s) = opcode s"
  "regs (interrupt b s) = regs s" "memory (interrupt b s) = memory s" "addr (interrupt b s) = addr s"
  by (cases b; simp add: read_keys_ncurses_def Let_def)+

lemma call_spec:
  assumes "sint (stack_pointer s) < 16"
  shows "\<exists>s'. call b s = Done 0 s' \<and> program_counter s' = imm12 (opcode s) \<and>
    stack_pointer s' = stack_pointer s + 1 \<and>
    stack s' = (stack s)[nat (sint (stack_pointer s)) := program_counter s + 2] \<and>
    regs s' = regs s \<and> memory s' = memory s \<and> addr s' = addr s"
  using assms by (simp add: call_def Let_def STACK_SIZE_def)

lemma retern_spec:
  assumes "0 < sint (stack_pointer s)"
  shows "\<exists>s'. retern b s = Done 0 s' \<and>
    program_counter s' = stack s ! nat (sint (stack_pointer s) - 1) \<and>
    stack_pointer s' = stack_pointer s - 1 \<and> stack s' = stack s \<and>
    regs s' = regs s \<and> memory s' = memory s \<and> addr s' = addr s"
  using assms by (simp add: retern_def Let_def sint_dec)

end
