(* ===== verification/C8_Interp_Rel.thy ===== *)
theory C8_Interp_Rel
  imports C8_Interp_Moves
begin

text \<open>
  Relations the interpreter respects. A relation on states that agrees on what the handlers
  read, and that the elementary updates and the services preserve, is preserved by every
  instruction: proved once, for any two engine states. The predicate \<open>G\<close> says when the key wait
  of \<^verbatim>\<open>Fx0A\<close>, the one instruction that lets the virtual clock run, respects it.
\<close>

section \<open>What the services keep\<close>

lemma opcode_keys [simp]:
  "opcode (bench_roll_tick i s) = opcode s"
  "opcode (snd (bench_keys_now s)) = opcode s"
  "opcode (clear_key b key s) = opcode s"
  by (cases b; simp add: bench_roll_tick_def bench_keys_now_def bench_clear_key_def Let_def)+

lemma opcode_fold_take_key [simp]: "opcode (fold (take_key b x keys) is s) = opcode s"
  by (induction "is" arbitrary: s) (simp_all add: take_key_def Let_def del: clear_key.simps)

lemma opcode_read_keys [simp]: "opcode (snd (read_keys_io b s)) = opcode s"
  by (cases b) (simp_all add: bench_poll_keys_def read_keys_ncurses_def)

lemma opcode_poll_loop: "poll_loop b s = Some (keys, s') \<Longrightarrow> opcode s' = opcode s"
proof (rule poll_loop.raw_induct
    [where P = "\<lambda>b s r. opcode (snd r) = opcode s", of b s "(keys, s')", unfolded snd_conv])
  fix f and b :: build and s :: "'a vm_scheme" and r
  assume IH: "\<And>b s r. f b s = Some r \<Longrightarrow> opcode (snd r) = opcode s"
    and eq: "(let (all_keys, s1) = read_keys_io b s in
      if b = BENCH \<and> bench_done s1 then Some (all_keys, s1)
      else if all_keys = 0 then f b s1 else Some (all_keys, s1)) = Some r"
  obtain k s1 where k: "read_keys_io b s = (k, s1)" by fastforce
  then have "opcode s1 = opcode s" using opcode_read_keys [of b s] by simp
  then show "opcode (snd r) = opcode s"
    using eq k IH [of b s1 r] by (cases r) (auto simp del: read_keys_io.simps split: if_splits)
qed

section \<open>The contract\<close>

text \<open>The next instruction waits for a key.\<close>

definition key_wait :: "u16 \<Rightarrow> bool" where
  "key_wait opc \<longleftrightarrow> unat (drop_bit 12 (opc AND 0xf000)) = 0xf \<and> opc AND 0x00ff = 0x0a"

definition waits :: "'a vm_scheme \<Rightarrow> bool" where
  "waits s \<longleftrightarrow> key_wait (opcode_at s (program_counter s))"

locale vm_congruence =
  fixes b :: build and R :: "'a vm_scheme \<Rightarrow> 'c vm_scheme \<Rightarrow> bool" and G :: "'a vm_scheme \<Rightarrow> bool"
  assumes R_read: "R s t \<Longrightarrow> regs s = regs t \<and> memory s = memory t \<and> stack s = stack t \<and>
        stack_pointer s = stack_pointer t \<and> addr s = addr t \<and> program_counter s = program_counter t"
    and R_regs: "R s t \<Longrightarrow> R (regs_update f s) (regs_update f t)"
    and R_memory: "R s t \<Longrightarrow> R (memory_update g s) (memory_update g t)"
    and R_stack: "R s t \<Longrightarrow> R (stack_update h s) (stack_update h t)"
    and R_sp: "R s t \<Longrightarrow> R (stack_pointer_update k s) (stack_pointer_update k t)"
    and R_pc: "R s t \<Longrightarrow> R (program_counter_update p s) (program_counter_update p t)"
    and R_addr: "R s t \<Longrightarrow> R (addr_update a s) (addr_update a t)"
    and R_opcode: "R s t \<Longrightarrow> R (s\<lparr>opcode := v\<rparr>) (t\<lparr>opcode := v\<rparr>)"
    and R_rand: "R s t \<Longrightarrow> fst (rand s) = fst (rand t) \<and> R (snd (rand s)) (snd (rand t))"
    and R_interrupt: "R s t \<Longrightarrow> R (interrupt b s) (interrupt b t)"
    and R_timer: "R s t \<Longrightarrow> R (timer_access b s) (timer_access b t) \<and>
        delay_timer (timer_access b s) = delay_timer (timer_access b t)"
    and R_delay: "R s t \<Longrightarrow> R ((timer_access b s)\<lparr>delay_timer := d\<rparr>) ((timer_access b t)\<lparr>delay_timer := d\<rparr>)"
    and R_sound: "R s t \<Longrightarrow> R ((timer_access b s)\<lparr>sound_timer := d\<rparr>) ((timer_access b t)\<lparr>sound_timer := d\<rparr>)"
    and R_keys: "R s t \<Longrightarrow> fst (all_keys_down b s) = fst (all_keys_down b t) \<and>
        R (snd (all_keys_down b s)) (snd (all_keys_down b t))"
    and R_clear: "R s t \<Longrightarrow> R (clear_key b key s) (clear_key b key t)"
    and R_poll: "R s t \<Longrightarrow> G s \<Longrightarrow> rel_option (rel_prod (=) R) (poll_loop b s) (poll_loop b t)"
    and G_opcode: "G (s\<lparr>opcode := v\<rparr>) = G s"
    and R_screen: "R s t \<Longrightarrow> R (clearscreen_io b s) (clearscreen_io b t)"
    and R_draw: "R s t \<Longrightarrow> fst (draw_io b x y n mem s) = fst (draw_io b x y n mem t) \<and>
        R (snd (draw_io b x y n mem s)) (snd (draw_io b x y n mem t))"
    and R_frame: "R s t \<Longrightarrow> rel_option R (frame_sync b s) (frame_sync b t)"
begin

lemmas R_upds = R_regs R_memory R_stack R_sp R_pc R_addr R_opcode R_interrupt R_clear R_screen

text \<open>Both sides have fetched the same opcode.\<close>

abbreviation RO :: "'a vm_scheme \<Rightarrow> 'c vm_scheme \<Rightarrow> bool" where
  "RO s t \<equiv> R s t \<and> opcode s = opcode t"

lemma RO_reads:
  assumes "RO s t"
  shows "regs s = regs t" "memory s = memory t" "stack s = stack t" "stack_pointer s = stack_pointer t"
    "addr s = addr t" "program_counter s = program_counter t" "opcode s = opcode t"
  using R_read [of s t] assms by simp_all

lemma rel_STEP: "R s t \<Longrightarrow> rel_outcome R (STEP s) (STEP t)"
  using R_read [of s t] R_pc [of s t "\<lambda>_. program_counter t + 2"] by (simp add: STEP_def)

lemma rel_ERROR: "RO s t \<Longrightarrow> rel_outcome R (ERROR s) (ERROR t)"
  using RO_reads [of s t] by (simp add: ERROR_def)

lemma rel_skip_when: "R s t \<Longrightarrow> rel_outcome R (skip_when c s) (skip_when c t)"
  using R_read [of s t] by (simp add: skip_when_def rel_STEP R_upds)

lemma rel_plain:
  assumes "RO s t"
  shows "rel_outcome R (skip_eq_immediate s) (skip_eq_immediate t)"
    "rel_outcome R (skip_neq_immediate s) (skip_neq_immediate t)"
    "rel_outcome R (skip_eq_register s) (skip_eq_register t)"
    "rel_outcome R (skip_neq_register s) (skip_neq_register t)"
    "rel_outcome R (load_immediate s) (load_immediate t)"
    "rel_outcome R (add_immediate s) (add_immediate t)" "rel_outcome R (move s) (move t)"
    "rel_outcome R (or_register s) (or_register t)" "rel_outcome R (and_register s) (and_register t)"
    "rel_outcome R (xor_register s) (xor_register t)" "rel_outcome R (add_register s) (add_register t)"
    "rel_outcome R (sub_register s) (sub_register t)" "rel_outcome R (shift_right s) (shift_right t)"
    "rel_outcome R (subn_register s) (subn_register t)" "rel_outcome R (shift_left s) (shift_left t)"
    "rel_outcome R (load_addr_immediate s) (load_addr_immediate t)"
    "rel_outcome R (branch s) (branch t)" "rel_outcome R (add_addr s) (add_addr t)"
    "rel_outcome R (store_bcd s) (store_bcd t)" "rel_outcome R (load_sprite_addr s) (load_sprite_addr t)"
  using assms
  by (simp_all add: plain_handlers Let_def RO_reads [OF assms] rel_STEP rel_skip_when R_upds)

lemma rel_control:
  assumes "RO s t"
  shows "rel_outcome R (clearscreen b s) (clearscreen b t)" "rel_outcome R (jump b s) (jump b t)"
    "rel_outcome R (retern b s) (retern b t)" "rel_outcome R (call b s) (call b t)"
  using assms R_interrupt [of s t]
  by (simp_all add: clearscreen_def jump_def retern_def call_def Let_def RO_reads [OF assms]
      rel_STEP rel_ERROR R_upds del: clearscreen_io.simps interrupt.simps)

lemma rel_random_byte: "RO s t \<Longrightarrow> rel_outcome R (random_byte s) (random_byte t)"
  using R_rand [of s t] by (simp add: random_byte_def split_beta rel_STEP R_upds)

lemma rel_timers:
  assumes "RO s t"
  shows "rel_outcome R (get_delay_timer b s) (get_delay_timer b t)"
    "rel_outcome R (set_delay_timer b s) (set_delay_timer b t)"
    "rel_outcome R (set_sound_timer b s) (set_sound_timer b t)"
proof -
  have regs: "regs (timer_access b s) = regs (timer_access b t)"
    using R_timer [of s t] R_read assms by blast
  show "rel_outcome R (get_delay_timer b s) (get_delay_timer b t)"
    using assms R_timer [of s t] by (simp add: get_delay_timer_def Let_def rel_STEP R_upds)
  show "rel_outcome R (set_delay_timer b s) (set_delay_timer b t)"
    "rel_outcome R (set_sound_timer b s) (set_sound_timer b t)"
    using assms by (simp_all add: set_delay_timer_def set_sound_timer_def Let_def regs rel_STEP R_delay R_sound)
qed

lemma rel_skip_key_x:
  assumes "RO s t"
  shows "rel_outcome R (skip_key_x b up s) (skip_key_x b up t)"
proof -
  obtain k s1 t1 where e: "all_keys_down b s = (k, s1)" "all_keys_down b t = (k, t1)" and r: "R s1 t1"
    using R_keys [of s t] assms by (metis prod.collapse)
  have c: "R (clear_key b v s1) (clear_key b v t1)" for v by (rule R_clear [OF r])
  have "R (clear_key b v s1\<lparr>program_counter := program_counter (clear_key b v s1) + 2\<rparr>)
     (clear_key b v t1\<lparr>program_counter := program_counter (clear_key b v t1) + 2\<rparr>)" for v
    using R_read [OF c [of v]] R_pc [OF c [of v]] by simp
  then show ?thesis
    using r by (simp add: skip_key_x_def Let_def e RO_reads [OF assms] rel_STEP
        del: all_keys_down.simps clear_key.simps)
qed

lemma R_fold_take_key: "R s t \<Longrightarrow> R (fold (take_key b x keys) is s) (fold (take_key b x keys) is t)"
  by (induction "is" arbitrary: s t) (simp_all add: take_key_def Let_def R_upds)

lemma rel_load_on_key:
  assumes "RO s t" "G s"
  shows "rel_outcome R (load_on_key b s) (load_on_key b t)"
proof (cases "poll_loop b s")
  case None
  then have "poll_loop b t = None" using R_poll [of s t] assms by simp
  with None show ?thesis by (simp add: load_on_key_def)
next
  case (Some p)
  obtain keys s1 where p: "p = (keys, s1)" by fastforce
  then obtain t1 where t1: "poll_loop b t = Some (keys, t1)" "R s1 t1"
    using R_poll [of s t] assms Some by (auto simp: option_rel_Some1 rel_prod_sel)
  let ?f = "fold (take_key b (op_x (opcode t)) keys) [0..<16]"
  have R2: "R (?f s1) (?f t1)" by (rule R_fold_take_key [OF t1(2)])
  have "opcode s1 = opcode s" "opcode t1 = opcode t"
    using opcode_poll_loop Some t1(1) p by auto
  then have RO2: "RO (?f s1) (?f t1)"
    using R2 assms by (simp only: opcode_fold_take_key simp_thms)
  show ?thesis
    unfolding load_on_key_def Some t1(1) p option.case prod.case Let_def conjunct2 [OF assms(1)]
    using rel_ERROR [OF RO2] rel_STEP [OF R2] by presburger
qed

lemma rel_draw:
  assumes "RO s t"
  shows "rel_outcome R (draw b s) (draw b t)"
proof -
  have R1: "R (interrupt b s) (interrupt b t)" using R_interrupt assms by blast
  note reads = RO_reads [OF assms] R_read [OF R1]
  let ?mem = "map (\<lambda>i. mem_at t (addr t + of_nat i)) [0..<unat (imm4 (opcode t))]"
  let ?draw = "\<lambda>u. draw_io b (unat (regs t ! op_x (opcode t))) (unat (regs t ! op_y (opcode t)))
      (unat (imm4 (opcode t))) ?mem u"
  obtain vf s2 t2 where e: "?draw (interrupt b s) = (vf, s2)" "?draw (interrupt b t) = (vf, t2)" and R2: "R s2 t2"
    using R_draw [OF R1] by (metis prod.collapse)
  have "mem_at (interrupt b s) = mem_at t" "mem_at (interrupt b t) = mem_at t"
    using reads by (simp_all add: mem_at_def fun_eq_iff del: interrupt.simps)
  then have d: "draw b s = (case frame_sync b (set_reg 15 (of_nat vf) s2) of None \<Rightarrow> Hangs | Some s4 \<Rightarrow> STEP s4)"
    "draw b t = (case frame_sync b (set_reg 15 (of_nat vf) t2) of None \<Rightarrow> Hangs | Some s4 \<Rightarrow> STEP s4)"
    using e reads by (simp_all add: draw_def Let_def del: interrupt.simps draw_io.simps)
  show ?thesis
    unfolding d using R_frame [OF R_regs [OF R2, of "\<lambda>r. r[15 := of_nat vf]"]]
    by (auto simp: rel_STEP split: option.splits)
qed

lemma rel_block_moves:
  assumes "RO s t"
  shows "rel_outcome R (save_registers s) (save_registers t)"
    "rel_outcome R (restore_registers s) (restore_registers t)"
proof -
  have "R s t \<Longrightarrow> R (fold (\<lambda>i t. mem_set (addr t + of_nat i) (regs t ! i) t) is s)
      (fold (\<lambda>i t. mem_set (addr t + of_nat i) (regs t ! i) t) is t)" for "is" s t
    by (induction "is" arbitrary: s t) (simp_all add: R_upds R_read)
  then show "rel_outcome R (save_registers s) (save_registers t)"
    unfolding save_registers_def RO_reads(7) [OF assms] using assms by (intro rel_STEP) blast
  have "R s t \<Longrightarrow> R (fold (\<lambda>i t. set_reg i (mem_at t (addr t + of_nat i)) t) is s)
      (fold (\<lambda>i t. set_reg i (mem_at t (addr t + of_nat i)) t) is t)" for "is" s t
    by (induction "is" arbitrary: s t) (simp_all add: R_upds R_read mem_at_def)
  then show "rel_outcome R (restore_registers s) (restore_registers t)"
    unfolding restore_registers_def RO_reads(7) [OF assms] using assms by (intro rel_STEP) blast
qed

lemmas rel_handlers = rel_plain rel_control rel_random_byte rel_timers rel_skip_key_x
  rel_load_on_key rel_draw rel_block_moves rel_ERROR

lemma rel_groups:
  assumes "RO s t"
  shows "rel_outcome R (op_8 s) (op_8 t)" "rel_outcome R (op_e b s) (op_e b t)"
    "(opcode s AND 0x00ff = 0x0a \<longrightarrow> G s) \<Longrightarrow> rel_outcome R (op_f b s) (op_f b t)"
  unfolding op_8_def op_e_def op_f_def Let_def RO_reads(7) [OF assms]
  using assms by (simp_all add: rel_handlers)

lemma rel_dispatch:
  assumes "RO s t" "key_wait (opcode s) \<longrightarrow> G s"
  shows "rel_outcome R (dispatch b s) (dispatch b t)"
  unfolding dispatch_def Let_def RO_reads(7) [OF assms(1)]
  using assms by (simp add: rel_handlers rel_groups key_wait_def)

lemma rel_basic_block:
  assumes "R s t" "waits s \<longrightarrow> G s"
  shows "rel_outcome R (basic_block b s) (basic_block b t)"
proof -
  have "opcode_at s (program_counter s) = opcode_at t (program_counter t)"
    using R_read [OF assms(1)] by (simp add: opcode_at_def mem_at_def)
  then show ?thesis
    unfolding basic_block_def by (intro rel_dispatch conjI) (use assms in \<open>simp_all add: R_opcode G_opcode waits_def\<close>)
qed

end

end
