(* ===== verification/C8_Interp_Time.thy ===== *)
theory C8_Interp_Time
  imports C8_Interp_Rel
begin

text \<open>
  Time and input: the lazily synchronised timers of the \<^verbatim>\<open>BENCH\<close> build, the contract of a
  keyboard whose keys can be consumed (met by the virtual and by the ring keyboard), the
  delay-loop elision, and the independence of a \<^verbatim>\<open>BENCH\<close> run from the host.
\<close>

section \<open>Timers\<close>

lemma unat_timer_sub:
  assumes "0 \<le> e"
  shows "unat (timer_sub t e) = unat t - nat e"
proof (cases "int (unat t) > e")
  case True
  then have eq: "int (unat t) - e = int (unat t - nat e)" using assms by linarith
  have less: "unat t - nat e < 2 ^ LENGTH(8)" using unat_u8_less [of t] by simp
  have "timer_sub t e = of_nat (unat t - nat e)"
    unfolding timer_sub_def eq using True by (simp only: eq if_True of_int_of_nat_eq)
  then show ?thesis
    using less by (simp add: unsigned_of_nat take_bit_nat_eq_self)
next
  case False
  then have "unat t \<le> nat e" by linarith
  with False show ?thesis by (simp add: timer_sub_def)
qed

lemma sync_timers_spec:
  "unat (delay_timer (sync_timers s)) = unat (delay_timer s) - nat (bench_tick s - last_tick s)"
  "unat (sound_timer (sync_timers s)) = unat (sound_timer s) - nat (bench_tick s - last_tick s)"
  "last_tick (sync_timers s) = max (last_tick s) (bench_tick s)"
  by (simp_all add: sync_timers_def Let_def unat_timer_sub)

lemma timer_sub_sub:
  assumes "0 \<le> d" "0 \<le> e"
  shows "timer_sub (timer_sub t d) e = timer_sub t (d + e)"
  using assms by (simp add: word_eq_iff_unsigned [where ?'a = nat] unat_timer_sub nat_add_distrib)

lemma timer_sub_0 [simp]: "timer_sub t 0 = t"
  by (simp add: word_eq_iff_unsigned [where ?'a = nat] unat_timer_sub)

text \<open>The effect of \<open>e\<close> elapsed ticks, and \<open>sync_timers\<close> without its guard.\<close>

definition elapse :: "int \<Rightarrow> 'a vm_scheme \<Rightarrow> 'a vm_scheme" where
  "elapse e s = s\<lparr>delay_timer := timer_sub (delay_timer s) e, sound_timer := timer_sub (sound_timer s) e,
     last_tick := last_tick s + e\<rparr>"

lemma sync_timers_eq: "sync_timers s = elapse (max 0 (bench_tick s - last_tick s)) s"
  by (auto simp: sync_timers_def elapse_def Let_def max_def)

lemma elapse_elapse: "0 \<le> d \<Longrightarrow> 0 \<le> e \<Longrightarrow> elapse e (elapse d s) = elapse (d + e) s"
  by (simp add: elapse_def timer_sub_sub add.assoc)

lemma elapse_tick [simp]: "bench_tick (elapse e s) = bench_tick s" "last_tick (elapse e s) = last_tick s + e"
  by (simp_all add: elapse_def bench_tick_def bench_now_def)

text \<open>Advancing the virtual clock: retiring instructions, or polling.\<close>

definition at_clock :: "nat \<Rightarrow> nat \<Rightarrow> 'a io_scheme \<Rightarrow> 'a io_scheme" where
  "at_clock r p s = s\<lparr>bench_retired := r, bench_poll_clock := p\<rparr>"

lemma at_clock_simps [simp]:
  "at_clock r p (elapse e s) = elapse e (at_clock r p s)"
  "at_clock r p (at_clock r' p' s) = at_clock r p s"
  "last_tick (at_clock r p s) = last_tick s"
  by (simp_all add: at_clock_def elapse_def)

lemma sync_lazy:
  assumes "bench_tick (at_clock r p s) \<le> bench_tick (at_clock r' p' s)"
  shows "sync_timers (at_clock r' p' (sync_timers (at_clock r p s))) = sync_timers (at_clock r' p' s)"
proof -
  define d where "d = max 0 (bench_tick (at_clock r p s) - last_tick s)"
  define e where "e = max 0 (bench_tick (at_clock r' p' s) - (last_tick s + d))"
  have "d + e = max 0 (bench_tick (at_clock r' p' s) - last_tick s)"
    using assms by (simp add: d_def e_def max_def)
  moreover have "0 \<le> d" "0 \<le> e" by (simp_all add: d_def e_def)
  moreover have "sync_timers (at_clock r' p' (sync_timers (at_clock r p s))) = elapse e (elapse d (at_clock r' p' s))"
    by (simp add: sync_timers_eq d_def e_def)
  ultimately show ?thesis by (simp add: elapse_elapse sync_timers_eq)
qed

lemma bench_tick_mono:
  assumes "r + p \<le> r' + p'" "r' + p' < 2 ^ 31 * 2000"
  shows "bench_tick (at_clock r p s) \<le> bench_tick (at_clock r' p' s)"
proof -
  have "(r' + p') div 2000 < 2 ^ 31" using assms(2) by (simp add: less_mult_imp_div_less)
  moreover have "(r + p) div 2000 \<le> (r' + p') div 2000" using assms(1) by (rule div_le_mono)
  ultimately show ?thesis
    by (simp add: at_clock_def bench_tick_def bench_now_def BENCH_INSTR_PER_TICK_def s32_id)
qed

section \<open>Consumable keys\<close>

locale key_source =
  fixes keys :: "'s \<Rightarrow> u32 \<times> 's" and clear :: "u8 \<Rightarrow> 's \<Rightarrow> 's"
  assumes clear_key: "unat k < 32 \<Longrightarrow> i < 32 \<Longrightarrow>
      bit (fst (keys (clear k s))) i \<longleftrightarrow> bit (fst (keys s)) i \<and> i \<noteq> unat k"
    and look_again: "fst (keys (snd (keys s))) = fst (keys s)"
begin

lemma consumed: "unat k < 32 \<Longrightarrow> fst (keys (clear k s)) AND push_bit (unat k) 1 = 0"
  by (rule bit_word_eqI) (auto simp: bit_simps clear_key)

lemma others_kept:
  "unat k < 32 \<Longrightarrow> unat j < 32 \<Longrightarrow> j \<noteq> k \<Longrightarrow>
   fst (keys (clear k s)) AND push_bit (unat j) 1 = fst (keys s) AND push_bit (unat j) 1"
  by (rule bit_word_eqI) (auto simp: bit_simps clear_key word_eq_iff_unsigned [where ?'a = nat])

end

lemma bit_fold_or: "bit (fold (OR) ks (a::u32)) i \<longleftrightarrow> bit a i \<or> (\<exists>k\<in>set ks. bit k i)"
  by (induction ks arbitrary: a) (auto simp: bit_simps)

lemma bench_keys_bit:
  "bit (fst (bench_keys_now s)) i \<longleftrightarrow>
     (let t = bench_now s div BENCH_INSTR_PER_TICK in
      bench_key_mode s \<noteq> BENCH_KEYS_NONE \<and> t mod 4 < 2 \<and> i = (t div 4) mod 16 \<and>
      \<not> (int t = bench_cleared_tick s \<and> bit (bench_cleared s) i))"
  if "i < 32"
  using that by (auto simp: bench_keys_now_def bench_roll_tick_def Let_def bit_simps)

lemma bench_clear_state:
  "bench_now (bench_clear_key k s) = bench_now s"
  "bench_key_mode (bench_clear_key k s) = bench_key_mode s"
  "bench_cleared_tick (bench_clear_key k s) = int (bench_now s div BENCH_INSTR_PER_TICK)"
  "bench_cleared (bench_clear_key k s) =
    (if int (bench_now s div BENCH_INSTR_PER_TICK) = bench_cleared_tick s then bench_cleared s else 0)
      OR push_bit (unat k) 1"
  by (auto simp: bench_clear_key_def bench_roll_tick_def Let_def bench_now_def)

interpretation key: key_source "all_keys_down b" "clear_key b" for b
proof (unfold_locales, goal_cases)
  case (1 k i s)
  show ?case
  proof (cases b)
    case BENCH
    then show ?thesis
      using 1 by (auto simp: bench_keys_bit bench_clear_state Let_def bit_simps)
  next
    case INTERACTIVE
    then show ?thesis using 1 by (auto simp: bit_fold_or bit_simps)
  qed
next
  case (2 s)
  show ?case
    by (cases b) (auto simp: bench_keys_now_def bench_roll_tick_def bench_now_def Let_def)
qed

lemma all_keys_down_pc [simp]:
  "fst (all_keys_down b (s\<lparr>program_counter := pc\<rparr>)) = fst (all_keys_down b s)"
  by (cases b) (simp_all add: bench_keys_now_def bench_roll_tick_def bench_now_def Let_def)

lemma all_keys_down_frame:
  "program_counter (snd (all_keys_down b s)) = program_counter s"
  "program_counter (clear_key b k s) = program_counter s"
  by (cases b; simp add: bench_keys_now_def bench_roll_tick_def bench_clear_key_def Let_def)+

text \<open>
  \<^verbatim>\<open>Ex9E\<close> and \<^verbatim>\<open>ExA1\<close>: the skip is taken iff the key is down (up), and then the key is
  consumed, so that the next look does not see it.
\<close>

definition key_pressed :: "build \<Rightarrow> 'a vm_scheme \<Rightarrow> u8 \<Rightarrow> bool" where
  "key_pressed b s k \<longleftrightarrow> fst (all_keys_down b s) AND push_bit (unat k) 1 \<noteq> 0"

lemma skip_key_x_spec:
  assumes "unat (regs s ! op_x (opcode s)) < 32"
  defines "k \<equiv> regs s ! op_x (opcode s)"
  shows "\<exists>s'. skip_key_x b up s = Done 0 s' \<and>
    program_counter s' = program_counter s + (if key_pressed b s k \<noteq> up then 4 else 2) \<and>
    (key_pressed b s k \<noteq> up \<longrightarrow> \<not> key_pressed b s' k) \<and>
    (key_pressed b s k = up \<longrightarrow> key_pressed b s' k = key_pressed b s k)"
proof -
  obtain keys s1 where e: "all_keys_down b s = (keys, s1)" by fastforce
  have s1: "program_counter s1 = program_counter s" "fst (all_keys_down b s1) = keys"
    using all_keys_down_frame(1) [of b s] key.look_again [of b s] e by simp_all
  have "fst (all_keys_down b (clear_key b k s1)) AND push_bit (unat k) 1 = 0"
    by (rule key.consumed) (use assms in simp)
  then show ?thesis
    using assms(1) s1
    by (simp add: skip_key_x_def Let_def e STEP_def key_pressed_def k_def [symmetric]
        all_keys_down_frame del: all_keys_down.simps clear_key.simps)
qed


section \<open>Eliding the delay loop\<close>

lemma and_sub_mask:
  fixes w :: u16
  shows "w AND 0xF0FF = v \<Longrightarrow> w AND 0xFF = v AND 0xFF" "w AND 0xF0FF = v \<Longrightarrow> w AND 0xF000 = v AND 0xF000"
  by (auto simp: and.assoc)

lemma idle_opcodes:
  assumes "chip8_idle_delay_loop s pc = Some x"
  defines "a \<equiv> opcode_at s pc" and "b \<equiv> opcode_at s (pc + 2)" and "c \<equiv> opcode_at s (pc + 4)"
  shows "a AND 0xF000 = 0xF000" "a AND 0xFF = 0x07" "op_x a = x"
    "b AND 0xF000 = 0x3000" "imm8 b = 0" "op_x b = x"
    "c AND 0xF000 = 0x1000" "imm12 c = pc"
proof -
  have h: "a AND 0xF0FF = 0xF007" "b AND 0xF0FF = 0x3000" "op_x b = op_x a" "x = op_x a"
    "c AND 0xF000 = 0x1000" "c AND 0x0FFF = pc"
    using assms(1) by (auto simp: chip8_idle_delay_loop_def Let_def a_def b_def c_def split: if_splits)
  show "a AND 0xF000 = 0xF000" "a AND 0xFF = 0x07" "b AND 0xF000 = 0x3000"
    using and_sub_mask [OF h(1)] and_sub_mask [OF h(2)] by simp_all
  show "imm8 b = 0" using and_sub_mask [OF h(2)] by (simp add: imm8_def)
  show "op_x a = x" "op_x b = x" "c AND 0xF000 = 0x1000" "imm12 c = pc"
    using h by (simp_all add: imm12_def)
qed

lemma dispatch_at:
  assumes "opcode s AND 0xF000 \<noteq> 0"
  shows "opcode s \<noteq> 0xe0" "opcode s \<noteq> 0xee"
  using assms by auto

text \<open>The three instructions of the loop, executed one by one in the interactive build.\<close>

lemma idle_step_load:
  assumes "opcode_at s (program_counter s) AND 0xF000 = 0xF000" "opcode_at s (program_counter s) AND 0xFF = 0x07"
  shows "basic_block INTERACTIVE s = Done 0 (s\<lparr>opcode := opcode_at s (program_counter s),
      regs := (regs s)[op_x (opcode_at s (program_counter s)) := delay_timer s],
      program_counter := program_counter s + 2\<rparr>)"
  using assms dispatch_at [of "s\<lparr>opcode := opcode_at s (program_counter s)\<rparr>"]
  by (simp add: basic_block_def dispatch_def op_f_def get_delay_timer_def timer_access_def Let_def STEP_def)

lemma idle_step_skip:
  assumes "opcode_at s (program_counter s) AND 0xF000 = 0x3000" "imm8 (opcode_at s (program_counter s)) = 0"
  shows "basic_block INTERACTIVE s = Done 0 (s\<lparr>opcode := opcode_at s (program_counter s),
      program_counter := program_counter s + (if regs s ! op_x (opcode_at s (program_counter s)) = 0 then 4 else 2)\<rparr>)"
  using assms dispatch_at [of "s\<lparr>opcode := opcode_at s (program_counter s)\<rparr>"]
  by (simp add: basic_block_def dispatch_def skip_eq_immediate_def skip_when_def Let_def STEP_def)

lemma idle_step_jump:
  assumes "opcode_at s (program_counter s) AND 0xF000 = 0x1000"
  shows "basic_block INTERACTIVE s = Done 0 (interrupt INTERACTIVE (s\<lparr>opcode := opcode_at s (program_counter s)\<rparr>)
      \<lparr>program_counter := imm12 (opcode_at s (program_counter s))\<rparr>)"
  using assms dispatch_at [of "s\<lparr>opcode := opcode_at s (program_counter s)\<rparr>"]
  by (simp add: basic_block_def dispatch_def jump_def Let_def del: interrupt.simps)

lemma opcode_at_frame:
  "memory t = memory s \<Longrightarrow> opcode_at t pc = opcode_at s pc"
  by (simp add: opcode_at_def mem_at_def)

lemma idle_loop_frame:
  "idle_loop s = Some t \<Longrightarrow> program_counter t = program_counter s \<and> memory t = memory s \<and> regs t = regs s"
proof (rule idle_loop.raw_induct
    [where P = "\<lambda>s r. program_counter r = program_counter s \<and> memory r = memory s \<and> regs r = regs s", of s t])
  fix f and s r :: "'a vm_scheme"
  assume IH: "\<And>s r. f s = Some r \<Longrightarrow> program_counter r = program_counter s \<and> memory r = memory s \<and> regs r = regs s"
    and eq: "(if delay_timer s \<noteq> 0
      then if fst (all_keys_down INTERACTIVE s) AND QUIT \<noteq> 0 then Some s
           else f (interrupt INTERACTIVE s)
      else Some s) = Some r"
  show "program_counter r = program_counter s \<and> memory r = memory s \<and> regs r = regs s"
    using eq IH [of "interrupt INTERACTIVE s" r] by (auto split: if_splits simp del: interrupt.simps)
qed

lemma idle_exit:
  assumes loop: "chip8_idle_delay_loop s (program_counter s) = Some x"
    and wait: "idle_loop s = Some t" and expired: "delay_timer t = 0" and len: "length (regs s) = 16"
  shows "\<exists>u v. basic_block INTERACTIVE t = Done 0 u \<and> basic_block INTERACTIVE u = Done 0 v \<and>
    v\<lparr>opcode := opcode t\<rparr> = t\<lparr>regs := (regs t)[x := 0], program_counter := program_counter t + 6\<rparr>"
proof -
  note fr = idle_loop_frame [OF wait]
  then have op: "opcode_at t = opcode_at s" by (intro ext opcode_at_frame) simp
  note codes = idle_opcodes [OF loop]
  have x: "x < 16" using codes(3) op_x_less by blast
  let ?u = "t\<lparr>opcode := opcode_at s (program_counter s), regs := (regs t)[x := 0],
      program_counter := program_counter s + 2\<rparr>"
  have 1: "basic_block INTERACTIVE t = Done 0 ?u"
    using idle_step_load [of t] codes fr op expired by simp
  have opu: "opcode_at ?u (program_counter ?u) = opcode_at s (program_counter s + 2)"
    using fr by (simp add: opcode_at_def mem_at_def)
  have 2: "basic_block INTERACTIVE ?u = Done 0 (?u\<lparr>opcode := opcode_at s (program_counter s + 2),
      program_counter := program_counter s + 6\<rparr>)"
    using idle_step_skip [of ?u] codes fr opu x len by simp
  show ?thesis
    by (rule exI, rule exI, rule conjI, rule 1, rule conjI, rule 2) (simp add: fr)
qed

lemma idle_spin:
  assumes loop: "chip8_idle_delay_loop s (program_counter s) = Some x" and d: "delay_timer s \<noteq> 0"
    and len: "length (regs s) = 16"
  shows "\<exists>u v w. basic_block INTERACTIVE s = Done 0 u \<and> basic_block INTERACTIVE u = Done 0 v \<and>
    basic_block INTERACTIVE v = Done 0 w \<and>
    w = (interrupt INTERACTIVE (s\<lparr>regs := (regs s)[x := delay_timer s],
      program_counter := program_counter s + 4,
      opcode := opcode_at s (program_counter s + 4)\<rparr>))\<lparr>program_counter := program_counter s\<rparr>"
proof -
  note codes = idle_opcodes [OF loop]
  have x: "x < 16" using codes(3) op_x_less by blast
  let ?pc = "program_counter s"
  let ?u = "s\<lparr>opcode := opcode_at s ?pc, regs := (regs s)[x := delay_timer s], program_counter := ?pc + 2\<rparr>"
  have 1: "basic_block INTERACTIVE s = Done 0 ?u"
    using idle_step_load [of s] codes by simp
  have opu: "opcode_at ?u (program_counter ?u) = opcode_at s (?pc + 2)"
    by (simp add: opcode_at_def mem_at_def)
  let ?v = "?u\<lparr>opcode := opcode_at s (?pc + 2), program_counter := ?pc + 4\<rparr>"
  have 2: "basic_block INTERACTIVE ?u = Done 0 ?v"
    using idle_step_skip [of ?u] codes opu x len d by simp
  have opv: "opcode_at ?v (program_counter ?v) = opcode_at s (?pc + 4)"
    by (simp add: opcode_at_def mem_at_def)
  show ?thesis
    using 1 2 idle_step_jump [of ?v] codes opv by (simp del: interrupt.simps)
qed

end
