(* ===== verification/C8_Repro.thy ===== *)
theory C8_Repro
  imports C8_Interp_Time C8_Interp_Bench
begin

text \<open>
  Reproducibility of the \<^verbatim>\<open>BENCH\<close> build: replacing the host's clock, terminal input and
  screen changes nothing of a run but those themselves.
\<close>

section \<open>Another host\<close>

definition rehost ::
  "(nat \<Rightarrow> nat) \<Rightarrow> nat \<Rightarrow> (nat \<Rightarrow> int list) \<Rightarrow> nat \<Rightarrow> canvas \<Rightarrow> 'a vm_scheme \<Rightarrow> 'a vm_scheme" where
  "rehost clk cp polls pp win s =
     s\<lparr>clock_nsec := clk, clock_pos := cp, key_polls := polls, poll_pos := pp, window := win\<rparr>"

fun map_pass :: "('s \<Rightarrow> 't) \<Rightarrow> 's pass \<Rightarrow> 't pass" where
  "map_pass f (Next s c) = Next (f s) c"
| "map_pass f (Stop s c) = Stop (f s) c"
| "map_pass f Stuck = Stuck"
| "map_pass f Undefined = Undefined"

lemma rehost_keys:
  "bench_keys_now (rehost clk cp polls pp win s) =
    map_prod id (rehost clk cp polls pp win) (bench_keys_now s)"
  by (simp add: rehost_def bench_keys_now_def bench_roll_tick_def bench_now_def Let_def)

lemma rehost_poll_keys:
  "bench_poll_keys (rehost clk cp polls pp win s) =
    map_prod id (rehost clk cp polls pp win) (bench_poll_keys s)"
proof -
  have "rehost clk cp polls pp win s\<lparr>bench_poll_clock := v\<rparr> =
      rehost clk cp polls pp win (s\<lparr>bench_poll_clock := v\<rparr>)" for v
    by (simp add: rehost_def)
  then show ?thesis
    by (simp add: bench_poll_keys_def rehost_keys) (simp add: rehost_def)
qed

lemma rehost_done [simp]: "bench_done (rehost clk cp polls pp win s) = bench_done s"
  by (simp add: rehost_def bench_done_def bench_now_def)

lemma rehost_sync:
  "sync_timers (rehost clk cp polls pp win s) = rehost clk cp polls pp win (sync_timers s)"
  by (simp add: rehost_def sync_timers_def bench_tick_def bench_now_def Let_def)

lemma rehost_poll_loop:
  "poll_loop BENCH (rehost clk cp polls pp win s) =
    map_option (map_prod id (rehost clk cp polls pp win)) (poll_loop BENCH s)"
proof (induction "bench_clock_cap s - bench_now s" arbitrary: s rule: less_induct)
  case less
  obtain keys s1 where k: "bench_poll_keys s = (keys, s1)" by fastforce
  then have kt: "bench_poll_keys (rehost clk cp polls pp win s) = (keys, rehost clk cp polls pp win s1)"
    by (simp add: rehost_poll_keys)
  have here: "poll_loop BENCH u = (if bench_done u1 then Some (keys, u1) else
      if keys = 0 then poll_loop BENCH u1 else Some (keys, u1))"
    if "bench_poll_keys u = (keys, u1)" for u u1 :: "'a vm_scheme"
    by (subst poll_loop.simps) (simp add: that)
  show ?case
  proof (cases "bench_done s1 \<or> keys \<noteq> 0")
    case False
    then have "bench_clock_cap s1 - bench_now s1 < bench_clock_cap s - bench_now s"
      using poll_keys_clock [OF k] by (auto simp: bench_done_def bench_now_def bench_frame_def)
    from less [OF this] show ?thesis using False by (simp add: here [OF k] here [OF kt])
  qed (auto simp: here [OF k] here [OF kt])
qed

interpretation rh: vm_congruence BENCH "\<lambda>s t. t = rehost clk cp polls pp win s" "\<lambda>_. True"
  for clk cp polls pp win
proof (unfold_locales, goal_cases)
  case (9 s t)
  then show ?case by (simp add: rand_def rehost_def)
next
  case (10 s t)
  then show ?case by (simp add: rehost_sync)
next
  case (11 s t)
  then show ?case by (simp add: timer_access_def rehost_sync, simp add: rehost_def)
next
  case (12 s t d)
  then show ?case by (simp add: timer_access_def rehost_sync, simp add: rehost_def)
next
  case (13 s t d)
  then show ?case by (simp add: timer_access_def rehost_sync, simp add: rehost_def)
next
  case (14 s t)
  then show ?case by (simp add: rehost_keys)
next
  case (15 s t key)
  then show ?case by (simp add: bench_clear_key_def rehost_def bench_roll_tick_def bench_now_def Let_def)
next
  case (16 s t)
  then show ?case by (cases "poll_loop BENCH s") (auto simp: rehost_poll_loop)
next
  case (18 s t)
  then show ?case by (simp add: clearscreen_io_bench_def rehost_def)
next
  case (19 s t x y n mem)
  then show ?case by (simp add: draw_io_bench_def rehost_def split: prod.splits)
next
  case (20 s t)
  then show ?case by (simp add: frame_sync_def)
qed (simp_all add: rehost_def)

lemma basic_block_rehost:
  "basic_block BENCH (rehost clk cp polls pp win s) =
    outcome_map (rehost clk cp polls pp win) (basic_block BENCH s)"
  using rh.rel_basic_block [of _ clk cp polls pp win s, OF refl]
  by (cases "basic_block BENCH s"; cases "basic_block BENCH (rehost clk cp polls pp win s)") auto

section \<open>The run on another host\<close>

lemma interp_pass_rehost:
  "interp_pass BENCH e (rehost clk cp polls pp win s) c =
    map_pass (rehost clk cp polls pp win) (interp_pass BENCH e s c)"
proof -
  have up: "rehost clk cp polls pp win u\<lparr>bench_retired := bench_retired (rehost clk cp polls pp win u) + 1\<rparr> =
      rehost clk cp polls pp win (u\<lparr>bench_retired := bench_retired u + 1\<rparr>)" for u :: "'a vm_scheme"
    by (simp add: rehost_def)
  have "execute BENCH (rehost clk cp polls pp win u) c =
      map_pass (rehost clk cp polls pp win) (execute BENCH u c)" for u :: "'a vm_scheme"
    using up [of u]
    by (cases "basic_block BENCH (u\<lparr>bench_retired := bench_retired u + 1\<rparr>)")
      (simp_all add: execute_def basic_block_rehost del: Suc_eq_plus1 add_Suc_right)
  then show ?thesis by (simp add: interp_pass_def rehost_keys split_beta)
qed

lemma interp_loop_rehost:
  assumes "bench_running s c"
  shows "interp_loop BENCH e (rehost clk cp polls pp win s) c =
    map_option (map_pass (rehost clk cp polls pp win)) (interp_loop BENCH e s c)"
  using assms
proof (induction "budget_left s" arbitrary: s c rule: less_induct)
  case less
  show ?case
  proof (cases "interp_pass BENCH e s c")
    case (Next s1 c1)
    note n = interp_pass_BENCH(1) [OF less.prems Next]
    with less.prems have "budget_left s1 < budget_left s"
      by (auto simp: budget_left_def bench_running_def)
    from less.hyps [OF this] n show ?thesis
      by (subst (1 2) interp_loop.simps) (simp add: interp_pass_rehost Next)
  qed (subst (1 2) interp_loop.simps; simp add: interp_pass_rehost)+
qed

end
