(* ===== verification/C8_Interp_Total.thy ===== *)
theory C8_Interp_Total
  imports C8_Repro
begin

text \<open>
  Whole-instruction and whole-run facts of the interpreter: loading a ROM, when an
  instruction is undefined, the effect of instructions through the decoder, and the run of
  the \<^verbatim>\<open>BENCH\<close> build from boot to report.
\<close>

section \<open>Boot\<close>

lemma mem_at_load_rom:
  assumes "length (memory s) = 4096" "i < length rom" "i < 3584"
  shows "mem_at (s\<lparr>memory := load_rom rom (memory s)\<rparr>) (0x200 + of_nat i) = rom ! i"
proof -
  have "mem_index (0x200 + of_nat i) = 512 + i"
    using assms(3) by (simp add: mem_index_add)
  then show ?thesis
    using assms by (simp add: mem_at_def load_rom_def size_defs Let_def nth_append min_def)
qed

lemma boot_BENCH:
  "boot BENCH rom s = s\<lparr>memory := load_rom rom (memory s), last_tick := bench_tick s, width := 64,
     height := 32, display := replicate DISPLAY_SIZE 0, program_counter := 0x200\<rparr>"
  by (simp add: boot_def Let_def size_defs bench_tick_def bench_now_def)

lemma vm_ok_boot:
  "vm_ok (boot BENCH rom (initial_vm rnd clk polls budget km))"
  by (simp add: boot_BENCH vm_ok_def vm_consts initial_vm_def size_defs)

definition demo_vm :: "u8 list \<Rightarrow> vm" where
  "demo_vm rom = boot BENCH rom (initial_vm (\<lambda>_. 0) (\<lambda>_. 0) (\<lambda>_. []) 100 BENCH_KEYS_NONE)"

lemma vm_ok_demo [simp]: "vm_ok (demo_vm rom)"
  unfolding demo_vm_def by (rule vm_ok_boot)

lemma demo_vm_simps [simp]:
  "program_counter (demo_vm rom) = 0x200" "stack_pointer (demo_vm rom) = 0"
  "regs (demo_vm rom) = replicate 16 0" "addr (demo_vm rom) = 0" "length (stack (demo_vm rom)) = 16"
  "width (demo_vm rom) = 64" "height (demo_vm rom) = 32" "display (demo_vm rom) = replicate 8192 0"
  "length (memory (demo_vm rom)) = 4096"
  by (simp_all add: demo_vm_def boot_BENCH initial_vm_def size_defs DISPLAY_SIZE_def)

lemma demo_opcode:
  assumes "memory s = memory (demo_vm (a # b # rom))"
  shows "opcode_at s 0x200 = push_bit 8 (ucast a) OR ucast b"
proof -
  let ?i = "initial_vm (\<lambda>_. 0) (\<lambda>_. 0) (\<lambda>_. []) 100 BENCH_KEYS_NONE"
  have m: "memory s = load_rom (a # b # rom) (memory ?i)"
    using assms by (simp add: demo_vm_def boot_BENCH)
  have "mem_at s (0x200 + of_nat i) = (a # b # rom) ! i" if "i < 2" for i
  proof -
    have "mem_at s (0x200 + of_nat i) = mem_at (?i\<lparr>memory := load_rom (a # b # rom) (memory ?i)\<rparr>) (0x200 + of_nat i)"
      using m by (simp add: mem_at_def)
    also have "\<dots> = (a # b # rom) ! i"
      by (rule mem_at_load_rom) (use that in \<open>simp_all add: initial_vm_def\<close>)
    finally show ?thesis .
  qed
  from this [of 0] this [of 1] show ?thesis by (simp add: opcode_at_def)
qed

section \<open>Undefined behaviour\<close>

text \<open>
  The only undefined step is the shift \<^verbatim>\<open>1 << regs[x]\<close> of the key instructions.
\<close>

definition key_shift_overflows :: "'a vm_scheme \<Rightarrow> u16 \<Rightarrow> bool" where
  "key_shift_overflows s opc \<longleftrightarrow>
     opc AND 0xF000 = 0xE000 \<and> opc AND 0xFF \<in> {0x9e, 0xa1} \<and> 32 \<le> unat (regs s ! op_x opc)"

definition defined :: "'s outcome \<Rightarrow> bool" where
  "defined out \<longleftrightarrow> out \<noteq> UB"

lemma defined_simps [simp]:
  "defined (Done r s)" "defined Hangs" "defined (STEP s)" "defined (ERROR s)" "defined (skip_when c s)"
  by (simp_all add: defined_def STEP_def ERROR_def skip_when_def)

lemma defined_handlers:
  "defined (clearscreen b s)" "defined (jump b s)" "defined (retern b s)" "defined (call b s)"
  "defined (random_byte s)" "defined (get_delay_timer b s)" "defined (set_delay_timer b s)"
  "defined (set_sound_timer b s)" "defined (draw b s)" "defined (load_on_key b s)"
  "defined (save_registers s)" "defined (restore_registers s)"
  by (simp_all add: clearscreen_def jump_def retern_def call_def random_byte_def get_delay_timer_def
      set_delay_timer_def set_sound_timer_def draw_def load_on_key_def save_registers_def
      restore_registers_def Let_def split: prod.splits option.splits)

lemma defined_plain:
  "defined (skip_eq_immediate s)" "defined (skip_neq_immediate s)" "defined (skip_eq_register s)"
  "defined (skip_neq_register s)" "defined (load_immediate s)" "defined (add_immediate s)"
  "defined (load_addr_immediate s)" "defined (branch s)" "defined (add_addr s)"
  "defined (load_sprite_addr s)" "defined (store_bcd s)" "defined (op_8 s)" "defined (op_f b s)"
  by (simp_all add: plain_handlers op_8_def op_f_def Let_def defined_handlers)

lemma defined_skip_key_x: "defined (skip_key_x b up s) \<longleftrightarrow> unat (regs s ! op_x (opcode s)) < 32"
  by (simp add: skip_key_x_def Let_def defined_def STEP_def split: prod.splits)

lemma defined_op_e:
  "defined (op_e b s) \<longleftrightarrow>
    \<not> (opcode s AND 0xFF \<in> {0x9e, 0xa1} \<and> 32 \<le> unat (regs s ! op_x (opcode s)))"
  by (auto simp: op_e_def Let_def defined_skip_key_x)

lemma high_nibble_eq:
  fixes opc :: u16
  assumes "k < 16"
  shows "unat (drop_bit 12 (opc AND 0xf000)) = k \<longleftrightarrow> opc AND 0xF000 = of_nat k * 0x1000"
proof -
  define d where "d = drop_bit 12 (opc AND 0xf000)"
  have less: "unat d < 16" unfolding d_def by (rule high_nibble_less)
  have m: "opc AND 0xF000 = push_bit 12 d"
  proof -
    have f: "(0xf000 :: u16) = push_bit 12 (mask 4)" by (simp add: mask_eq_exp_minus_1)
    show ?thesis unfolding d_def f by (rule bit_word_eqI) (auto simp: bit_simps)
  qed
  have p: "of_nat k * (0x1000 :: u16) = push_bit 12 (of_nat k)"
    by (simp add: push_bit_eq_mult)
  have up: "unat (push_bit 12 (of_nat j :: u16)) = 4096 * j" if "j < 16" for j
    using that by (simp add: push_bit_eq_mult unat_word_ariths unat_of_nat)
  have "opc AND 0xF000 = of_nat k * 0x1000 \<longleftrightarrow> push_bit 12 (of_nat (unat d) :: u16) = push_bit 12 (of_nat k)"
    unfolding m p by simp
  also have "\<dots> \<longleftrightarrow> 4096 * unat d = 4096 * k"
    unfolding word_eq_iff_unsigned [where ?'a = nat] up [OF less] up [OF assms] by (rule refl)
  finally show ?thesis by (simp add: d_def)
qed

lemma basic_block_defined:
  "basic_block b s = UB \<longleftrightarrow> key_shift_overflows s (opcode_at s (program_counter s))"
proof -
  define t where "t = s\<lparr>opcode := opcode_at s (program_counter s)\<rparr>"
  define k where "k = unat (drop_bit 12 (opcode t AND 0xf000))"
  have k: "k < 16" unfolding k_def by (rule high_nibble_less)
  have e: "opcode t AND 0xF000 = 0xE000 \<longleftrightarrow> k = 14"
    using high_nibble_eq [of 14 "opcode t"] by (simp add: k_def)
  have "defined (dispatch b t) \<longleftrightarrow> \<not> key_shift_overflows t (opcode t)"
    using k defined_op_e [of b t]
    unfolding dispatch_def key_shift_overflows_def k_def [symmetric] Let_def e
    by (cases rule: less_16_cases) (auto simp: defined_handlers defined_plain k_def)
  then show ?thesis
    by (simp add: basic_block_def t_def [symmetric] defined_def)
      (simp add: t_def key_shift_overflows_def)
qed

end
