(* ===== verification/C8_Interp_Thms.thy ===== *)
theory C8_Interp_Thms
  imports C8_Interp_Total
begin

text \<open>
  The properties of the interpreter and of its I/O layer, each with a witness on a small
  machine: a booted ROM of a few bytes.
\<close>

section \<open>Decoding\<close>

lemma fetched:
  "opcode_at s (program_counter s) = opc \<Longrightarrow> basic_block b s = dispatch b (s\<lparr>opcode := opc\<rparr>)"
  by (simp add: basic_block_def)

lemma decode_group:
  assumes "opcode_at s (program_counter s) = opc"
  shows "opc AND 0xF000 = 0x8000 \<Longrightarrow> basic_block b s = op_8 (s\<lparr>opcode := opc\<rparr>)"
    and "opc AND 0xF000 = 0x2000 \<Longrightarrow> basic_block b s = call b (s\<lparr>opcode := opc\<rparr>)"
    and "opc AND 0xF000 = 0xD000 \<Longrightarrow> basic_block b s = draw b (s\<lparr>opcode := opc\<rparr>)"
    and "opc AND 0xF000 = 0xE000 \<Longrightarrow> basic_block b s = op_e b (s\<lparr>opcode := opc\<rparr>)"
    and "opc AND 0xF000 = 0xF000 \<Longrightarrow> basic_block b s = op_f b (s\<lparr>opcode := opc\<rparr>)"
  using dispatch_at [of "s\<lparr>opcode := opc\<rparr>"]
  by (simp_all add: fetched [OF assms] dispatch_def Let_def)

lemma decode_retern:
  "opcode_at s (program_counter s) = 0x00EE \<Longrightarrow> basic_block b s = retern b (s\<lparr>opcode := 0x00EE\<rparr>)"
  by (simp add: fetched dispatch_def)

section \<open>Runs\<close>

lemma bench_running_boot:
  assumes "0 < budget"
  shows "bench_running (boot BENCH rom (initial_vm rnd clk polls budget km)) 0 \<and>
    bench_budget (boot BENCH rom (initial_vm rnd clk polls budget km)) = budget"
  using assms vm_ok_boot [of rom rnd clk polls budget km]
  by (simp add: bench_running_def, simp add: boot_BENCH initial_vm_def)



text \<open>
  C18: A \<^verbatim>\<open>BENCH\<close> run is reproducible: with another host clock and other terminal input
  the same ROM, random numbers, budget and key mode give the same run, the final state
  differing in nothing but those two inputs.
\<close>

theorem bench_run_reproducible:
  assumes "0 < budget"
  shows "interp_main BENCH e rom (initial_vm rnd clk' polls' budget km) =
    map_sum id (map_option (map_pass (rehost clk' 0 polls' 0 (\<lambda>_. Blank))))
      (interp_main BENCH e rom (initial_vm rnd clk polls budget km))"
proof -
  have "boot BENCH rom (initial_vm rnd clk' polls' budget km) =
      rehost clk' 0 polls' 0 (\<lambda>_. Blank) (boot BENCH rom (initial_vm rnd clk polls budget km))"
    by (simp add: boot_BENCH initial_vm_def rehost_def bench_tick_def bench_now_def)
  with bench_running_boot [OF assms, of rom rnd clk polls km] show ?thesis
    by (simp add: interp_main_def interp_loop_rehost)
qed

lemma bench_run_reproducible_witness:
  "interp_main BENCH False [0x12, 0x00] (initial_vm (\<lambda>_. 0) (\<lambda>n. n) (\<lambda>_. [113]) 5 BENCH_KEYS_ROTATE) =
    map_sum id (map_option (map_pass (rehost (\<lambda>n. n) 0 (\<lambda>_. [113]) 0 (\<lambda>_. Blank))))
      (interp_main BENCH False [0x12, 0x00] (initial_vm (\<lambda>_. 0) (\<lambda>_. 0) (\<lambda>_. []) 5 BENCH_KEYS_ROTATE))"
  by (rule bench_run_reproducible) simp

section \<open>Every instruction\<close>

text \<open>
  C19: Every instruction, in either build, keeps the machine well-formed: array sizes, the
  stack pointer between 0 and 16, pixels 0 or 1, the key ring and its index.
\<close>

theorem basic_block_keeps_vm_ok:
  assumes "vm_ok s" "basic_block b s = Done r s'"
  shows "vm_ok s'"
  by (rule vm_ok_basic_block [OF assms])

lemma demo_step:
  "basic_block BENCH (demo_vm [0x12, 0x00]) = Done 0
    (interrupt BENCH (demo_vm [0x12, 0x00]\<lparr>opcode := 0x1200\<rparr>)\<lparr>program_counter := 0x200\<rparr>)"
  using demo_opcode [of "demo_vm [0x12, 0x00]" "0x12" "0x00" "[]"]
  by (simp add: basic_block_def dispatch_def jump_def imm12_def Let_def del: interrupt.simps)

lemma basic_block_keeps_vm_ok_witness:
  "vm_ok (interrupt BENCH (demo_vm [0x12, 0x00]\<lparr>opcode := 0x1200\<rparr>)\<lparr>program_counter := 0x200\<rparr>)"
  by (rule basic_block_keeps_vm_ok [OF vm_ok_demo demo_step])

text \<open>
  C20: In the \<^verbatim>\<open>BENCH\<close> build every instruction returns (\<^verbatim>\<open>Fx0A\<close> included), and it is
  undefined exactly when it is \<^verbatim>\<open>Ex9E\<close> or \<^verbatim>\<open>ExA1\<close> with \<^verbatim>\<open>Vx\<close> at least 32.
\<close>

theorem bench_instruction_returns:
  "basic_block BENCH s \<noteq> Hangs \<and>
    (basic_block BENCH s = UB \<longleftrightarrow> key_shift_overflows s (opcode_at s (program_counter s)))"
  using basic_block_BENCH_returns [of s] by (simp add: returns_def basic_block_defined)



section \<open>Single instructions\<close>

text \<open>
  C25: \<^verbatim>\<open>8xyn\<close> computes what its specification on numbers says, in both builds: result
  in \<^verbatim>\<open>Vx\<close>, flag in \<^verbatim>\<open>VF\<close>, the flag winning when \<open>x = 15\<close>, and nothing else changes.
\<close>

theorem alu_correct:
  assumes "length (regs s) = 16" "opcode_at s (program_counter s) = opc" "opc AND 0xF000 = 0x8000"
    and "alu_spec (unat (opc AND 0xF)) (reg_values s (op_x opc)) (reg_values s (op_y opc)) = Some rf"
    and "i < 16"
  shows "\<exists>s'. basic_block b s = Done 0 s' \<and> program_counter s' = program_counter s + 2 \<and>
    reg_values s' i = write_back (op_x opc) rf (reg_values s) i \<and>
    s' = s\<lparr>opcode := opc, regs := regs s', program_counter := program_counter s'\<rparr>"
proof -
  have "reg_values (s\<lparr>opcode := opc\<rparr>) = reg_values s" by (simp add: reg_values_def fun_eq_iff)
  then show ?thesis
    using op_8_spec [of "s\<lparr>opcode := opc\<rparr>" rf i] decode_group(1) [OF assms(2,3), of b] assms by simp
qed

definition alu_demo :: vm where
  "alu_demo = demo_vm [0x8F, 0x14]\<lparr>regs := (replicate 16 0)[15 := 200, 1 := 100]\<rparr>"

lemma alu_demo_opcode: "opcode_at alu_demo (program_counter alu_demo) = 0x8F14"
  using demo_opcode [of alu_demo "0x8F" "0x14" "[]"] by (simp add: alu_demo_def)

lemma alu_correct_witness:
  "\<exists>s'. basic_block BENCH alu_demo = Done 0 s' \<and> program_counter s' = program_counter alu_demo + 2 \<and>
    reg_values s' 15 = write_back (op_x 0x8F14) (44, Some 1) (reg_values alu_demo) 15 \<and>
    s' = alu_demo\<lparr>opcode := 0x8F14, regs := regs s', program_counter := program_counter s'\<rparr>"
  by (rule alu_correct [OF _ alu_demo_opcode])
    (simp_all add: alu_demo_def reg_values_def op_x_def op_y_def)

lemma sync_timers_io [simp]:
  "display (sync_timers s) = display s" "width (sync_timers s) = width s" "height (sync_timers s) = height s"
  by (simp_all add: sync_timers_def Let_def)

lemma draw_BENCH:
  "draw BENCH t =
    (let n = unat (imm4 (opcode t));
         fb = draw_fb (width t) (height t) (reg_values t (op_x (opcode t))) (reg_values t (op_y (opcode t))) n
           (map (\<lambda>i. mem_at t (addr t + of_nat i)) [0..<n]) (display t)
     in STEP (set_reg 15 (of_nat (snd fb)) (sync_timers t\<lparr>display := fst fb\<rparr>)))"
proof -
  have "mem_at (sync_timers t) = mem_at t" by (simp add: mem_at_def fun_eq_iff)
  then show ?thesis
    by (simp add: draw_def frame_sync_def Let_def reg_values_def draw_io_bench_def split: prod.split)
qed

text \<open>
  C22: \<^verbatim>\<open>Dxyn\<close>: each pixel of the screen is toggled iff the sprite, read from memory at
  \<^verbatim>\<open>I\<close> and placed at \<^verbatim>\<open>Vx mod 64\<close>, \<^verbatim>\<open>Vy mod 32\<close> without wrapping, has it; \<^verbatim>\<open>VF\<close> is 1
  iff a set pixel was toggled; memory, \<^verbatim>\<open>I\<close> and the other registers stay.
\<close>

theorem draw_correct:
  assumes "vm_ok s" "opcode_at s (program_counter s) = opc" "opc AND 0xF000 = 0xD000"
  defines "hit \<equiv> sprite_on 32 (reg_values s (op_x opc) mod 64) (reg_values s (op_y opc) mod 32)
      (unat (imm4 opc)) (map (\<lambda>i. mem_at s (addr s + of_nat i)) [0..<unat (imm4 opc)])"
  shows "\<exists>s'. basic_block BENCH s = Done 0 s' \<and> program_counter s' = program_counter s + 2 \<and>
    (\<forall>px py. px < 64 \<longrightarrow> py < 32 \<longrightarrow>
      display s' ! (px + py * 64) = display s ! (px + py * 64) XOR of_bool (hit px py)) \<and>
    regs s' = (regs s)[15 := of_bool (\<exists>px<64. \<exists>py<32. hit px py \<and> display s ! (px + py * 64) \<noteq> 0)] \<and>
    memory s' = memory s \<and> addr s' = addr s"
proof -
  let ?mem = "map (\<lambda>i. mem_at s (addr s + of_nat i)) [0..<unat (imm4 opc)]"
  define fb where "fb = draw_fb 64 32 (reg_values s (op_x opc)) (reg_values s (op_y opc))
    (unat (imm4 opc)) ?mem (display s)"
  have geo: "width s = 64" "height s = 32" "length (display s) = 8192"
    using assms(1) by (simp_all add: vm_ok_def DISPLAY_SIZE_def)
  let ?t = "s\<lparr>opcode := opc\<rparr>"
  have "mem_at ?t = mem_at s" "reg_values ?t = reg_values s"
    by (simp_all add: mem_at_def reg_values_def fun_eq_iff)
  then have step: "basic_block BENCH s =
      STEP (set_reg 15 (of_nat (snd fb)) (sync_timers ?t\<lparr>display := fst fb\<rparr>))"
    unfolding decode_group(3) [OF assms(2,3)] draw_BENCH Let_def by (simp add: geo fb_def)
  have "fst fb ! (px + py * 64) = display s ! (px + py * 64) XOR of_bool (hit px py)"
    if "px < 64" "py < 32" for px py
    unfolding fb_def by (subst draw_fb_nth) (use geo that in \<open>simp_all add: hit_def\<close>)
  moreover have "snd fb = of_bool (\<exists>px<64. \<exists>py<32. hit px py \<and> display s ! (px + py * 64) \<noteq> 0)"
    unfolding fb_def hit_def by (rule draw_fb_flag) (simp_all add: geo)
  ultimately show ?thesis unfolding step STEP_def by simp
qed

lemma draw_correct_witness:
  "\<exists>s'. basic_block BENCH (demo_vm [0xD0, 0x05]) = Done 0 s' \<and>
    display s' ! 0 = display (demo_vm [0xD0, 0x05]) ! 0 XOR
      of_bool (sprite_on 32 0 0 5 (map (\<lambda>i. mem_at (demo_vm [0xD0, 0x05]) (of_nat i)) [0..<5]) 0 0)"
proof -
  let ?s = "demo_vm [0xD0, 0x05]"
  have "opcode_at ?s (program_counter ?s) = 0xD005"
    using demo_opcode [of ?s "0xD0" "0x05" "[]"] by simp
  from draw_correct [OF vm_ok_demo this]
  have "\<exists>s'. basic_block BENCH ?s = Done 0 s' \<and> (\<forall>px py. px < 64 \<longrightarrow> py < 32 \<longrightarrow>
      display s' ! (px + py * 64) = display ?s ! (px + py * 64) XOR
      of_bool (sprite_on 32 0 0 5 (map (\<lambda>i. mem_at ?s (of_nat i)) [0..<5]) px py))"
    by (auto simp: reg_values_def op_x_def op_y_def imm4_def)
  then obtain s' where "basic_block BENCH ?s = Done 0 s'" "display s' ! (0 + 0 * 64) =
      display ?s ! (0 + 0 * 64) XOR of_bool (sprite_on 32 0 0 5 (map (\<lambda>i. mem_at ?s (of_nat i)) [0..<5]) 0 0)"
    by (metis zero_less_numeral)
  then show ?thesis by auto
qed

text \<open>
  Drawing the same sprite twice restores the screen, in both builds.
\<close>

theorem draw_io_involution:
  assumes "height s * width s \<le> length (display s)" "0 < width s"
  shows "display (snd (draw_io b x y n mem (snd (draw_io b x y n mem s)))) = display s"
  using draw_fb_twice [OF assms] by (simp add: draw_io_eq)

lemma draw_io_involution_witness:
  "display (snd (draw_io INTERACTIVE 62 31 2 [0xFF, 0xFF]
    (snd (draw_io INTERACTIVE 62 31 2 [0xFF, 0xFF] (demo_vm []))))) = display (demo_vm [])"
  by (rule draw_io_involution) simp_all

text \<open>
  C35: The ncurses and the headless \<^verbatim>\<open>draw_io\<close> agree: the same framebuffer and the same
  collision flag; and the ncurses one keeps its pad a mirror of the framebuffer.
\<close>

theorem draw_io_builds_agree:
  assumes "mirrored (width s) (height s) (display s) (window s)" "height s * width s \<le> length (display s)"
  shows "fst (draw_io INTERACTIVE x y n mem s) = fst (draw_io BENCH x y n mem s) \<and>
    display (snd (draw_io INTERACTIVE x y n mem s)) = display (snd (draw_io BENCH x y n mem s)) \<and>
    mirrored (width s) (height s) (display (snd (draw_io INTERACTIVE x y n mem s)))
      (window (snd (draw_io INTERACTIVE x y n mem s)))"
  using draw_fb_nc_mirrored [OF assms, of x y n mem]
    arg_cong [OF draw_fb_nc_forget [of "width s" "height s" x y n mem "(display s, window s)"], of fst]
  by (simp add: draw_io_eq fst_nc_forget del: draw_io.simps)

lemma draw_io_builds_agree_witness:
  "fst (draw_io INTERACTIVE 5 5 1 [0xFF] (demo_vm [])) = fst (draw_io BENCH 5 5 1 [0xFF] (demo_vm []))"
proof -
  have "window (demo_vm []) = (\<lambda>_. Blank)" by (simp add: demo_vm_def boot_BENCH initial_vm_def)
  then have m: "mirrored (width (demo_vm [])) (height (demo_vm [])) (display (demo_vm [])) (window (demo_vm []))"
    by (simp add: mirrored_def)
  show ?thesis using draw_io_builds_agree [OF m, of 5 5 1 "[0xFF]"] by simp
qed

section \<open>Memory, calls, time and keys\<close>

lemma decode_f:
  assumes "opcode_at s (program_counter s) = opc"
  shows "opc AND 0xF0FF = 0xF033 \<Longrightarrow> basic_block b s = store_bcd (s\<lparr>opcode := opc\<rparr>)"
    and "opc AND 0xF0FF = 0xF055 \<Longrightarrow> basic_block b s = save_registers (s\<lparr>opcode := opc\<rparr>)"
    and "opc AND 0xF0FF = 0xF065 \<Longrightarrow> basic_block b s = restore_registers (s\<lparr>opcode := opc\<rparr>)"
    and "opc AND 0xF0FF = 0xE09E \<Longrightarrow> basic_block b s = skip_key_x b False (s\<lparr>opcode := opc\<rparr>)"
    and "opc AND 0xF0FF = 0xE0A1 \<Longrightarrow> basic_block b s = skip_key_x b True (s\<lparr>opcode := opc\<rparr>)"
  using and_sub_mask [of opc "0xF033"] and_sub_mask [of opc "0xF055"] and_sub_mask [of opc "0xF065"]
    and_sub_mask [of opc "0xE09E"] and_sub_mask [of opc "0xE0A1"]
  by (simp_all add: decode_group [OF assms] op_f_def op_e_def Let_def)

text \<open>
  C30: \<^verbatim>\<open>Fx33\<close> stores the three decimal digits of \<^verbatim>\<open>Vx\<close> at \<^verbatim>\<open>I\<close>, \<^verbatim>\<open>I + 1\<close> and
  \<^verbatim>\<open>I + 2\<close> (addresses wrapping in the 4 KiB), from which the value can be read back, and
  writes no other byte.
\<close>

theorem bcd_correct:
  assumes "vm_ok s" "opcode_at s (program_counter s) = opc" "opc AND 0xF0FF = 0xF033"
  shows "\<exists>s'. basic_block b s = Done 0 s' \<and> program_counter s' = program_counter s + 2 \<and>
    100 * unat (mem_at s' (addr s)) + 10 * unat (mem_at s' (addr s + 1)) + unat (mem_at s' (addr s + 2))
      = reg_values s (op_x opc) \<and>
    unat (mem_at s' (addr s + 1)) < 10 \<and> unat (mem_at s' (addr s + 2)) < 10 \<and>
    (\<forall>a. mem_index a \<notin> {mem_index (addr s), mem_index (addr s + 1), mem_index (addr s + 2)} \<longrightarrow>
      mem_at s' a = mem_at s a) \<and> regs s' = regs s"
proof -
  let ?t = "s\<lparr>opcode := opc\<rparr>"
  have len: "length (memory ?t) = 4096" using assms(1) by (simp add: vm_ok_lengths)
  have digits: "100 * (v div 100) + 10 * (v div 10 mod 10) + v mod 10 = v" for v :: nat
  proof -
    have "v div 10 = 10 * (v div 10 div 10) + v div 10 mod 10" by simp
    moreover have "v = 10 * (v div 10) + v mod 10" by simp
    ultimately show ?thesis by (simp only: div_mult2_eq [of v 10 10, simplified])
  qed
  obtain s' where s': "store_bcd ?t = Done 0 s'" "program_counter s' = program_counter ?t + 2"
    "unat (mem_at s' (addr ?t)) = reg_values ?t (op_x (opcode ?t)) div 100"
    "unat (mem_at s' (addr ?t + 1)) = reg_values ?t (op_x (opcode ?t)) div 10 mod 10"
    "unat (mem_at s' (addr ?t + 2)) = reg_values ?t (op_x (opcode ?t)) mod 10"
    "\<And>idx. idx \<notin> {mem_index (addr ?t), mem_index (addr ?t + 1), mem_index (addr ?t + 2)} \<Longrightarrow>
       memory s' ! idx = memory ?t ! idx"
    "s' = ?t\<lparr>memory := memory s', program_counter := program_counter s'\<rparr>"
    by (rule store_bcd_spec [OF len]) blast
  have "regs s' = regs s" by (subst s'(7)) simp
  then show ?thesis
    using s'(1-6) digits [of "reg_values s (op_x opc)"]
    by (simp add: decode_f(1) [OF assms(2,3)] reg_values_def mem_at_def)
qed

definition bcd_demo :: vm where
  "bcd_demo = demo_vm [0xF0, 0x33]\<lparr>regs := (replicate 16 0)[0 := 207], addr := 0xFFF\<rparr>"

lemma bcd_demo_ok: "vm_ok bcd_demo"
  by (simp add: bcd_demo_def vm_ok_def, simp add: vm_consts demo_vm_def boot_BENCH initial_vm_def)

lemma bcd_correct_witness:
  "\<exists>s'. basic_block BENCH bcd_demo = Done 0 s' \<and>
    100 * unat (mem_at s' 0xFFF) + 10 * unat (mem_at s' 0x1000) + unat (mem_at s' 0x1001) = 207"
proof -
  have "opcode_at bcd_demo (program_counter bcd_demo) = 0xF033"
    using demo_opcode [of bcd_demo "0xF0" "0x33" "[]"] by (simp add: bcd_demo_def)
  from bcd_correct [OF bcd_demo_ok this, of BENCH] show ?thesis
    by (auto simp: bcd_demo_def reg_values_def op_x_def)
qed

lemma demo_word:
  assumes "memory s = memory (demo_vm rom)" "Suc i < length rom" "Suc i < 3584"
  shows "opcode_at s (0x200 + of_nat i) = push_bit 8 (ucast (rom ! i)) OR ucast (rom ! Suc i)"
proof -
  let ?i = "initial_vm (\<lambda>_. 0) (\<lambda>_. 0) (\<lambda>_. []) 100 BENCH_KEYS_NONE"
  have "memory s = load_rom rom (memory ?i)"
    using assms(1) by (simp add: demo_vm_def boot_BENCH)
  then have "mem_at s (0x200 + of_nat j) = rom ! j" if "j < length rom" "j < 3584" for j
    using mem_at_load_rom [of ?i j rom] that by (simp add: mem_at_def initial_vm_def)
  from this [of i] this [of "Suc i"] assms(2,3) show ?thesis
    by (simp add: opcode_at_def add.assoc add.commute)
qed

text \<open>
  C29: Spill and reload: after \<^verbatim>\<open>Fx55\<close>, whatever happens to the registers, \<^verbatim>\<open>Fx65\<close> at the same
  \<^verbatim>\<open>I\<close> brings \<^verbatim>\<open>V0\<close> to \<^verbatim>\<open>Vx\<close> back and leaves the others alone.
\<close>

theorem spill_reload:
  assumes "vm_ok s" "opcode_at s (program_counter s) = opc" "opc AND 0xF0FF = 0xF055"
    and "basic_block b s = Done 0 s1" "length clobbered = 16"
    and "opcode_at s1 (program_counter s1) = opc'" "opc' AND 0xF0FF = 0xF065" "op_x opc' = op_x opc"
  shows "\<exists>s2. basic_block b (s1\<lparr>regs := clobbered\<rparr>) = Done 0 s2 \<and> addr s2 = addr s \<and>
    (\<forall>i<16. regs s2 ! i = (if i \<le> op_x opc then regs s ! i else clobbered ! i))"
proof -
  let ?t = "s\<lparr>opcode := opc\<rparr>"
  have len: "length (memory ?t) = 4096" using assms(1) by (simp add: vm_ok_lengths)
  obtain m where m: "save_registers ?t = Done 0 (?t\<lparr>memory := m, program_counter := program_counter ?t + 2\<rparr>)"
    "\<And>i. i \<le> op_x opc \<Longrightarrow> m ! mem_index (addr s + of_nat i) = regs s ! i"
    by (rule save_registers_spec [OF len]) simp
  have s1: "s1 = ?t\<lparr>memory := m, program_counter := program_counter ?t + 2\<rparr>"
    using assms(4) m(1) by (simp add: decode_f(2) [OF assms(2,3)])
  let ?u = "s1\<lparr>regs := clobbered\<rparr>"
  have "opcode_at ?u (program_counter ?u) = opc'"
    using assms(6) by (simp add: opcode_at_def mem_at_def)
  note step = decode_f(3) [OF this assms(7), of b]
  obtain r where "restore_registers (?u\<lparr>opcode := opc'\<rparr>) =
      Done 0 (?u\<lparr>opcode := opc', regs := r, program_counter := program_counter ?u + 2\<rparr>)"
    "\<And>i. i < 16 \<Longrightarrow> r ! i = (if i \<le> op_x opc' then mem_at (?u\<lparr>opcode := opc'\<rparr>) (addr ?u + of_nat i)
      else clobbered ! i)"
    by (rule restore_registers_spec [of "?u\<lparr>opcode := opc'\<rparr>"]) (simp_all add: assms(5))
  then show ?thesis
    unfolding step using assms(8) m(2) by (simp add: s1 mem_at_def)
qed

definition spill_demo :: vm where
  "spill_demo = demo_vm [0xF1, 0x55, 0xF1, 0x65]\<lparr>regs := replicate 16 7, addr := 0x300\<rparr>"

lemma spill_demo_ok: "vm_ok spill_demo"
  by (simp add: spill_demo_def vm_ok_def, simp add: vm_consts demo_vm_def boot_BENCH initial_vm_def)

lemma spill_demo_opcodes:
  "opcode_at spill_demo 0x200 = 0xF155" "opcode_at spill_demo 0x202 = 0xF165"
  using demo_word [of spill_demo "[0xF1, 0x55, 0xF1, 0x65]" 0] demo_word [of spill_demo "[0xF1, 0x55, 0xF1, 0x65]" 2]
  by (simp_all add: spill_demo_def)

definition spill_demo1 :: vm where
  "spill_demo1 = spill_demo\<lparr>opcode := 0xF155, program_counter := 0x202,
     memory := (memory spill_demo)[0x300 := 7, 0x301 := 7]\<rparr>"

lemma spill_demo_step: "basic_block BENCH spill_demo = Done 0 spill_demo1"
proof -
  have pc: "program_counter spill_demo = 0x200" by (simp add: spill_demo_def)
  have "opcode_at spill_demo (program_counter spill_demo) = 0xF155" by (simp add: pc spill_demo_opcodes)
  note step = decode_f(2) [OF this, of BENCH]
  show ?thesis
    by (subst step) (simp_all add: save_registers_def op_x_def STEP_def spill_demo1_def pc,
        simp add: spill_demo_def mem_index_def o_def)
qed

lemma spill_demo1_opcode: "opcode_at spill_demo1 (program_counter spill_demo1) = 0xF165"
proof -
  have "mem_at spill_demo1 a = mem_at spill_demo a" if "mem_index a \<notin> {0x300, 0x301}" for a
    using that by (simp add: spill_demo1_def mem_at_def)
  then have "opcode_at spill_demo1 0x202 = opcode_at spill_demo 0x202"
    by (simp add: opcode_at_def mem_index_def)
  then show ?thesis by (simp add: spill_demo_opcodes) (simp add: spill_demo1_def spill_demo_opcodes)
qed

lemma spill_reload_witness:
  "\<exists>s2. basic_block BENCH (spill_demo1\<lparr>regs := replicate 16 9\<rparr>) = Done 0 s2 \<and> addr s2 = addr spill_demo \<and>
    (\<forall>i<16. regs s2 ! i = (if i \<le> op_x 0xF155 then regs spill_demo ! i else replicate 16 9 ! i))"
  by (rule spill_reload [OF spill_demo_ok _ _ spill_demo_step _ spill_demo1_opcode])
    (simp_all add: spill_demo_opcodes op_x_def, simp_all add: spill_demo_def spill_demo_opcodes [unfolded spill_demo_def])

text \<open>
  C28: A call with room on the stack jumps to its target, and the return executed later with
  the stack the call left comes back to the instruction after the call, with the stack
  pointer of before.
\<close>

theorem call_return:
  assumes "vm_ok s" "sint (stack_pointer s) < 16"
    and "opcode_at s (program_counter s) = opc" "opc AND 0xF000 = 0x2000"
    and "basic_block b s = Done r s1"
    and "stack t = stack s1" "stack_pointer t = stack_pointer s1" "opcode_at t (program_counter t) = 0x00EE"
  shows "r = 0 \<and> program_counter s1 = imm12 opc \<and>
    (\<exists>t'. basic_block b t = Done 0 t' \<and> program_counter t' = program_counter s + 2 \<and>
      stack_pointer t' = stack_pointer s \<and> regs t' = regs t \<and> memory t' = memory t \<and> addr t' = addr t)"
proof -
  have sp: "0 \<le> sint (stack_pointer s)" "length (stack s) = 16"
    using assms(1) by (simp_all add: vm_ok_def size_defs)
  have sp1: "sint (stack_pointer s + 1) = sint (stack_pointer s) + 1"
    using assms(2) by (simp add: sint_inc)
  let ?t = "s\<lparr>opcode := opc\<rparr>"
  obtain s' where s': "call b ?t = Done 0 s'" "program_counter s' = imm12 opc"
    "stack_pointer s' = stack_pointer s + 1"
    "stack s' = (stack s)[nat (sint (stack_pointer s)) := program_counter s + 2]"
    using call_spec [of ?t b] assms(2) by auto
  have s1: "r = 0" "s1 = s'"
    using assms(5) s'(1) decode_group(2) [OF assms(3,4), of b] by simp_all
  let ?u = "t\<lparr>opcode := 0x00EE\<rparr>"
  have pos: "0 < sint (stack_pointer ?u)" using assms(7) s1 s'(3) sp(1) sp1 by simp
  from retern_spec [OF pos, of b] obtain t' where t': "retern b ?u = Done 0 t'"
    "program_counter t' = stack t ! nat (sint (stack_pointer t) - 1)"
    "stack_pointer t' = stack_pointer t - 1" "regs t' = regs t" "memory t' = memory t" "addr t' = addr t"
    by auto
  have "nat (sint (stack_pointer s)) < 16" using assms(2) sp(1) by linarith
  then have "program_counter t' = program_counter s + 2"
    using t'(2) assms(6,7) s1 s' sp sp1 by simp
  then show ?thesis
    using t' s1 s' assms(7) decode_retern [OF assms(8), of b] by simp
qed

definition call_demo :: vm where "call_demo = demo_vm [0x22, 0x02, 0x00, 0xEE]"

definition call_demo1 :: vm where
  "call_demo1 = interrupt BENCH (call_demo\<lparr>opcode := 0x2202\<rparr>)
     \<lparr>stack := (stack call_demo)[0 := 0x202], stack_pointer := 1, program_counter := 0x202\<rparr>"

lemma call_demo_opcodes:
  "opcode_at call_demo (program_counter call_demo) = 0x2202"
  "opcode_at call_demo1 (program_counter call_demo1) = 0x00EE"
  using demo_word [of call_demo "[0x22, 0x02, 0x00, 0xEE]" 0] demo_word [of call_demo1 "[0x22, 0x02, 0x00, 0xEE]" 2]
  by (simp_all add: call_demo_def call_demo1_def)

lemma call_demo_step: "basic_block BENCH call_demo = Done 0 call_demo1"
  unfolding decode_group(2) [OF call_demo_opcodes(1), of BENCH, simplified]
  by (simp add: call_def Let_def STACK_SIZE_def imm12_def call_demo1_def, simp add: call_demo_def o_def)

lemma call_return_witness:
  "(0::u32) = 0 \<and> program_counter call_demo1 = imm12 0x2202 \<and>
    (\<exists>t'. basic_block BENCH call_demo1 = Done 0 t' \<and> program_counter t' = program_counter call_demo + 2 \<and>
      stack_pointer t' = stack_pointer call_demo \<and> regs t' = regs call_demo1 \<and>
      memory t' = memory call_demo1 \<and> addr t' = addr call_demo1)"
  by (rule call_return [OF _ _ call_demo_opcodes(1) _ call_demo_step refl refl call_demo_opcodes(2)])
    (simp_all add: call_demo_def)

text \<open>
  C31: The lazy timers are exact: synchronising them at an intermediate point of virtual time
  and again later gives the state that synchronising once, later, gives (up to the clock's
  32-bit tick).
\<close>

theorem timers_lazy:
  assumes "r + p \<le> r' + p'" "r' + p' < 2 ^ 31 * 2000"
  shows "sync_timers (at_clock r' p' (sync_timers (at_clock r p s))) = sync_timers (at_clock r' p' s)"
  by (rule sync_lazy [OF bench_tick_mono [OF assms]])

lemma timers_lazy_witness:
  "sync_timers (at_clock 9000 5 (sync_timers (at_clock 4000 2 (demo_vm [])))) =
    sync_timers (at_clock 9000 5 (demo_vm []))"
  by (rule timers_lazy) simp_all



lemma regs_update_const: "regs_update f s = regs_update (\<lambda>_. f (regs s)) s"
  by (cases s) simp

text \<open>
  C33: Eliding the delay-loop is sound at its exit: when the wait ends with the delay timer at 0,
  the state the main loop continues with (\<^verbatim>\<open>Vx\<close> zeroed, program counter past the loop) is the
  one that executing the first two instructions of the loop there produces, the latched opcode
  aside.
\<close>

theorem idle_elision_exit:
  assumes "vm_ok s" "chip8_idle_delay_loop s (program_counter s) = Some x"
    and "idle_loop s = Some t" "delay_timer t = 0"
  shows "idle_wait x s = Some (set_reg x 0 t) \<and>
    (\<exists>u v. basic_block INTERACTIVE t = Done 0 u \<and> basic_block INTERACTIVE u = Done 0 v \<and>
      v\<lparr>opcode := opcode t\<rparr> =
        (set_reg x 0 t)\<lparr>program_counter := program_counter (set_reg x 0 t) + 6\<rparr>)"
proof -
  note set_x = regs_update_const [of "\<lambda>r. r[x := 0]" t]
  show ?thesis
    unfolding set_x using idle_exit [OF assms(2-4)] assms(1,3)
    by (simp add: idle_wait_def vm_ok_lengths set_x)
qed

definition idle_demo :: vm where "idle_demo = demo_vm [0xF3, 0x07, 0x33, 0x00, 0x12, 0x00]"

lemma idle_demo_detected: "chip8_idle_delay_loop idle_demo (program_counter idle_demo) = Some 3"
  using demo_word [of idle_demo "[0xF3, 0x07, 0x33, 0x00, 0x12, 0x00]" 0]
    demo_word [of idle_demo "[0xF3, 0x07, 0x33, 0x00, 0x12, 0x00]" 2]
    demo_word [of idle_demo "[0xF3, 0x07, 0x33, 0x00, 0x12, 0x00]" 4]
  by (simp add: idle_demo_def chip8_idle_delay_loop_def op_x_def)

lemma idle_elision_exit_witness:
  "idle_wait 3 idle_demo = Some (set_reg 3 0 idle_demo)"
proof -
  have d: "delay_timer idle_demo = 0" by (simp add: idle_demo_def demo_vm_def boot_BENCH initial_vm_def)
  then have "idle_loop idle_demo = Some idle_demo" by (subst idle_loop.simps) simp
  with idle_elision_exit [OF _ idle_demo_detected _ d] show ?thesis by (simp add: idle_demo_def)
qed

lemma interrupt_commute:
  "interrupt INTERACTIVE (s\<lparr>regs := r, program_counter := pc, opcode := opc\<rparr>)
      \<lparr>program_counter := program_counter s, regs := regs s, opcode := opcode s\<rparr> = interrupt INTERACTIVE s"
  by (simp add: read_keys_ncurses_def Let_def)

text \<open>
  C34: While the delay timer runs, one turn of the loop executed instruction by instruction does
  what one turn of the elided wait does, \<^verbatim>\<open>interrupt ()\<close>, apart from refreshing \<^verbatim>\<open>Vx\<close> and
  the latched opcode; the next turn finds the loop where it was.
\<close>

theorem idle_elision_turn:
  assumes "vm_ok s" "chip8_idle_delay_loop s (program_counter s) = Some x" "delay_timer s \<noteq> 0"
  shows "\<exists>u v w. basic_block INTERACTIVE s = Done 0 u \<and> basic_block INTERACTIVE u = Done 0 v \<and>
    basic_block INTERACTIVE v = Done 0 w \<and> regs w = (regs s)[x := delay_timer s] \<and>
    w\<lparr>regs := regs s, opcode := opcode s\<rparr> = interrupt INTERACTIVE s \<and>
    chip8_idle_delay_loop w (program_counter w) = Some x"
proof -
  let ?s = "s\<lparr>regs := (regs s)[x := delay_timer s], program_counter := program_counter s + 4,
      opcode := opcode_at s (program_counter s + 4)\<rparr>"
  obtain u v where uv: "basic_block INTERACTIVE s = Done 0 u" "basic_block INTERACTIVE u = Done 0 v"
    "basic_block INTERACTIVE v = Done 0 (interrupt INTERACTIVE ?s\<lparr>program_counter := program_counter s\<rparr>)"
    using idle_spin [OF assms(2,3)] assms(1) by (auto simp: vm_ok_lengths)
  let ?w = "interrupt INTERACTIVE ?s\<lparr>program_counter := program_counter s\<rparr>"
  have "opcode_at ?w = opcode_at s"
    by (intro ext) (simp add: opcode_at_def mem_at_def del: interrupt.simps)
  then have "chip8_idle_delay_loop ?w (program_counter ?w) = Some x"
    using assms(2) by (simp add: chip8_idle_delay_loop_def del: interrupt.simps)
  moreover have "?w\<lparr>regs := regs s, opcode := opcode s\<rparr> = interrupt INTERACTIVE s"
    using interrupt_commute [of s "opcode_at s (program_counter s + 4)" "program_counter s + 4"
        "(regs s)[x := delay_timer s]"]
    by (simp del: interrupt.simps)
  moreover have "regs ?w = (regs s)[x := delay_timer s]" by (simp del: interrupt.simps)
  ultimately show ?thesis using uv by blast
qed

lemma idle_elision_turn_witness:
  "\<exists>u v w. basic_block INTERACTIVE (idle_demo\<lparr>delay_timer := 9\<rparr>) = Done 0 u \<and>
    basic_block INTERACTIVE u = Done 0 v \<and> basic_block INTERACTIVE v = Done 0 w \<and> regs w ! 3 = 9"
proof -
  have "vm_ok (idle_demo\<lparr>delay_timer := 9\<rparr>)" by (simp add: idle_demo_def)
  moreover have "chip8_idle_delay_loop (idle_demo\<lparr>delay_timer := 9\<rparr>) (program_counter (idle_demo\<lparr>delay_timer := 9\<rparr>)) = Some 3"
    using idle_demo_detected by (simp add: chip8_idle_delay_loop_def opcode_at_def mem_at_def)
  moreover have "regs idle_demo = replicate 16 0" by (simp add: idle_demo_def)
  ultimately show ?thesis using idle_elision_turn [of "idle_demo\<lparr>delay_timer := 9\<rparr>" 3] by fastforce
qed

end
