(* ===== verification/C8_Flow.thy ===== *)
theory C8_Flow
  imports C8_Interp_Thms C8_Disas_Thms
begin

text \<open>
  The disassembler's analysis against the interpreter: what every instruction does to the
  program counter and the call stack, and that a run which neither rewrites its code nor
  takes a computed jump stays on the control-flow graph the descent explores.
\<close>

section \<open>Control state\<close>

text \<open>The part of the state that decides where execution goes.\<close>

definition ctl :: "'a vm_scheme \<Rightarrow> u16 list \<times> i8 \<times> u16" where
  "ctl s = (stack s, stack_pointer s, program_counter s)"

lemma ctl_fields [simp]:
  "ctl (regs_update f s) = ctl s" "ctl (memory_update g s) = ctl s" "ctl (s\<lparr>addr := a\<rparr>) = ctl s"
  "ctl (s\<lparr>opcode := v\<rparr>) = ctl s" "ctl (s\<lparr>delay_timer := t\<rparr>) = ctl s" "ctl (s\<lparr>sound_timer := t\<rparr>) = ctl s"
  "ctl (s\<lparr>last_tick := i\<rparr>) = ctl s" "ctl (s\<lparr>rand_pos := n\<rparr>) = ctl s" "ctl (s\<lparr>clock_pos := n\<rparr>) = ctl s"
  "ctl (s\<lparr>bench_retired := n\<rparr>) = ctl s"
  by (simp_all add: ctl_def)

lemma ctl_services [simp]:
  "ctl (interrupt b s) = ctl s" "ctl (sync_timers s) = ctl s" "ctl (timer_access b s) = ctl s"
  by (simp_all add: ctl_def timer_access_def del: interrupt.simps)

lemma ctl_keys [simp]:
  "ctl (bench_roll_tick i s) = ctl s" "ctl (snd (bench_keys_now s)) = ctl s"
  "ctl (clear_key b key s) = ctl s" "ctl (snd (all_keys_down b s)) = ctl s"
  "ctl (snd (read_keys_io b s)) = ctl s"
  by (cases b; simp add: ctl_def bench_roll_tick_def bench_keys_now_def bench_clear_key_def
      bench_poll_keys_def read_keys_ncurses_def Let_def)+

lemma ctl_screen [simp]: "ctl (clearscreen_io b s) = ctl s" "ctl (snd (draw_io b x y n mem s)) = ctl s"
  by (cases b; simp add: ctl_def clearscreen_io_bench_def clearscreen_io_ncurses_def)
    (simp add: ctl_def draw_io_eq)

lemma ctl_fold [simp]:
  "ctl (fold (take_key b x keys) is s) = ctl s"
  "ctl (fold (\<lambda>i t. mem_set (h i t) (v i t) t) is s) = ctl s"
  "ctl (fold (\<lambda>i t. set_reg i (v i t) t) is s) = ctl s"
  by (induction "is" arbitrary: s) (simp_all add: take_key_def Let_def del: clear_key.simps)

lemma ctl_poll_loop: "poll_loop b s = Some (keys, s') \<Longrightarrow> ctl s' = ctl s"
proof (rule poll_loop.raw_induct
    [where P = "\<lambda>b s r. ctl (snd r) = ctl s", of b s "(keys, s')", unfolded snd_conv])
  fix f and b :: build and s :: "'a vm_scheme" and r
  assume IH: "\<And>b s r. f b s = Some r \<Longrightarrow> ctl (snd r) = ctl s"
    and eq: "(let (all_keys, s1) = read_keys_io b s in
      if b = BENCH \<and> bench_done s1 then Some (all_keys, s1)
      else if all_keys = 0 then f b s1 else Some (all_keys, s1)) = Some r"
  obtain k s1 where k: "read_keys_io b s = (k, s1)" by fastforce
  then have "ctl s1 = ctl s" using ctl_keys(5) [of b s] by simp
  then show "ctl (snd r) = ctl s"
    using eq k IH [of b s1 r] by (cases r) (auto simp del: read_keys_io.simps split: if_splits)
qed

lemma ctl_wait_tick: "wait_tick s = Some (t, s') \<Longrightarrow> ctl s' = ctl s"
proof (rule wait_tick.raw_induct
    [where P = "\<lambda>s r. ctl (snd r) = ctl s", of s "(t, s')", unfolded snd_conv])
  fix f and s :: "'a vm_scheme" and r
  assume IH: "\<And>s r. f s = Some r \<Longrightarrow> ctl (snd r) = ctl s"
    and eq: "(let (current_tick, s1) = tick INTERACTIVE s
      in if current_tick = last_tick s1 then f s1 else Some (current_tick, s1)) = Some r"
  show "ctl (snd r) = ctl s"
    using eq IH [of "snd (tick INTERACTIVE s)" r] by (auto split: if_splits)
qed

lemma ctl_frame_sync: "frame_sync b s = Some s' \<Longrightarrow> ctl s' = ctl s"
  by (auto simp: frame_sync_def split: if_splits dest: ctl_wait_tick)

section \<open>Moves of the program counter\<close>

definition moves :: "u16 set \<Rightarrow> 'a vm_scheme \<Rightarrow> 'a vm_scheme outcome \<Rightarrow> bool" where
  "moves D s = outcome_all (\<lambda>r s'. \<exists>d\<in>D. ctl s' = (stack s, stack_pointer s, program_counter s + d))"

lemma moves_mono: "moves D s out \<Longrightarrow> D \<subseteq> E \<Longrightarrow> moves E s out"
  by (cases out) (auto simp: moves_def)

lemma moves_STEP: "ctl t = ctl s \<Longrightarrow> moves {2} s (STEP t)"
  by (simp add: moves_def STEP_def ctl_def)

lemma moves_skip: "ctl t = ctl s \<Longrightarrow> moves {4} s (STEP (t\<lparr>program_counter := program_counter t + 2\<rparr>))"
  by (simp add: moves_def STEP_def ctl_def)

lemma moves_ERROR: "ctl t = ctl s \<Longrightarrow> moves {0} s (ERROR t)"
  by (simp add: moves_def ERROR_def ctl_def)

lemma moves_skip_when: "moves {2, 4} s (skip_when c s)"
  using moves_STEP [of s s] moves_skip [of s s] by (auto simp: skip_when_def intro: moves_mono)

lemma moves_skips:
  "moves {2, 4} s (skip_eq_immediate s)" "moves {2, 4} s (skip_neq_immediate s)"
  "moves {2, 4} s (skip_eq_register s)" "moves {2, 4} s (skip_neq_register s)"
  by (simp_all add: skip_eq_immediate_def skip_neq_immediate_def skip_eq_register_def
      skip_neq_register_def moves_skip_when)

lemma moves_plain:
  "moves {2} s (load_immediate s)" "moves {2} s (add_immediate s)" "moves {2} s (load_addr_immediate s)"
  "moves {2} s (random_byte s)" "moves {2} s (clearscreen b s)"
  by (simp_all add: plain_handlers random_byte_def rand_def clearscreen_def Let_def moves_STEP del: clearscreen_io.simps)

lemma moves_op_8: "moves {0, 2} s (op_8 s)"
proof -
  have "moves {2} s t" if "t \<in> {move s, or_register s, and_register s, xor_register s, add_register s,
      sub_register s, shift_right s, subn_register s, shift_left s}" for t
    using that by (auto simp: plain_handlers Let_def moves_STEP)
  then have "moves {0, 2} s t" if "t \<in> {move s, or_register s, and_register s, xor_register s, add_register s,
      sub_register s, shift_right s, subn_register s, shift_left s}" for t
    using that by (blast intro: moves_mono)
  moreover have "moves {0, 2} s (ERROR s)" by (rule moves_mono [OF moves_ERROR]) auto
  ultimately show ?thesis by (simp add: op_8_def Let_def)
qed

lemma moves_draw: "moves {2} s (draw b s)"
proof (cases "draw b s")
  case (Done r s')
  then show ?thesis
  proof -
    obtain x y n mem where d: "draw b s = (let (vf, s2) = draw_io b x y n mem (interrupt b s) in
        case frame_sync b (set_reg 15 (of_nat vf) s2) of None \<Rightarrow> Hangs | Some s4 \<Rightarrow> STEP s4)"
      by (simp add: draw_def Let_def)
    obtain vf s2 where v: "draw_io b x y n mem (interrupt b s) = (vf, s2)" by fastforce
    then have "ctl s2 = ctl s" using ctl_screen(2) [of b x y n mem "interrupt b s"] by simp
    then have c: "ctl (set_reg 15 (of_nat vf) s2) = ctl s" by simp
    show ?thesis
    proof (cases "frame_sync b (set_reg 15 (of_nat vf) s2)")
      case None
      then show ?thesis by (simp add: d v moves_def)
    next
      case (Some s4)
      have "moves {2} s (STEP s4)" by (rule moves_STEP) (simp only: ctl_frame_sync [OF Some] c)
      then show ?thesis by (simp add: d v Some)
    qed
  qed
qed (simp_all add: moves_def)

lemma moves_skip_key_x: "moves {2, 4} s (skip_key_x b up s)"
proof -
  obtain keys s1 where k: "all_keys_down b s = (keys, s1)" by fastforce
  then have c: "ctl s1 = ctl s" using ctl_keys(4) [of b s] by simp
  have "moves {2, 4} s (STEP s1)" by (rule moves_mono [OF moves_STEP [OF c]]) auto
  moreover have "moves {2, 4} s (STEP ((clear_key b v s1)\<lparr>program_counter := program_counter (clear_key b v s1) + 2\<rparr>))" for v
    by (rule moves_mono [OF moves_skip]) (simp_all add: c del: clear_key.simps)
  moreover have "moves {2, 4} s UB" by (simp add: moves_def)
  ultimately show ?thesis by (simp add: skip_key_x_def k Let_def del: all_keys_down.simps clear_key.simps)
qed

lemma moves_op_e: "moves {0, 2, 4} s (op_e b s)"
proof -
  have "moves {0, 2, 4} s (skip_key_x b up s)" for up by (rule moves_mono [OF moves_skip_key_x]) auto
  moreover have "moves {0, 2, 4} s (ERROR s)" by (rule moves_mono [OF moves_ERROR]) auto
  ultimately show ?thesis by (simp add: op_e_def Let_def)
qed

lemma moves_load_on_key: "moves {0, 2} s (load_on_key b s)"
proof (cases "poll_loop b s")
  case None
  then show ?thesis by (simp add: load_on_key_def moves_def)
next
  case (Some r)
  obtain keys s1 where r: "r = (keys, s1)" by (cases r)
  then have c: "ctl (fold (take_key b x keys) [0..<16] s1) = ctl s" for x
    using ctl_poll_loop [of b s keys s1] Some by simp
  have "moves {0, 2} s (STEP (fold (take_key b x keys) [0..<16] s1))"
    "moves {0, 2} s (ERROR (fold (take_key b x keys) [0..<16] s1))" for x
    by (rule moves_mono [OF moves_STEP [OF c]], blast, rule moves_mono [OF moves_ERROR [OF c]], blast)
  then show ?thesis using Some r by (simp add: load_on_key_def Let_def)
qed

lemma moves_op_f: "moves {0, 2} s (op_f b s)"
proof -
  have "moves {2} s t" if "t \<in> {get_delay_timer b s, set_delay_timer b s, set_sound_timer b s, add_addr s,
      load_sprite_addr s, store_bcd s, save_registers s, restore_registers s}" for t
    using that
    by (auto simp: plain_handlers get_delay_timer_def set_delay_timer_def set_sound_timer_def
        save_registers_def restore_registers_def Let_def intro!: moves_STEP)
  then have "moves {0, 2} s t" if "t \<in> {get_delay_timer b s, set_delay_timer b s, set_sound_timer b s, add_addr s,
      load_sprite_addr s, store_bcd s, save_registers s, restore_registers s}" for t
    using that by (blast intro: moves_mono)
  moreover have "moves {0, 2} s (ERROR s)" by (rule moves_mono [OF moves_ERROR]) auto
  ultimately show ?thesis by (simp add: op_f_def Let_def moves_load_on_key)
qed

section \<open>One instruction\<close>

lemma op_k_high: "unat (drop_bit 12 (opc AND 0xf000)) = op_k opc"
proof -
  have "drop_bit 12 (opc AND 0xf000) = drop_bit 12 opc AND drop_bit 12 0xf000" by (rule drop_bit_and)
  also have "\<dots> = drop_bit 12 opc AND mask 4" by (simp add: mask_eq_exp_minus_1)
  also have "\<dots> = take_bit 4 (drop_bit 12 opc)" by (simp add: take_bit_eq_mask)
  also have "\<dots> = drop_bit 12 opc" by (rule bit_word_eqI) (auto simp: bit_simps dest: bit_imp_le_length)
  finally show ?thesis by (simp add: op_k_def)
qed

text \<open>Where a valid instruction other than \<^verbatim>\<open>Bnnn\<close> leaves the program counter and the stack.\<close>

inductive goes :: "u16 \<Rightarrow> u16 list \<times> i8 \<times> u16 \<Rightarrow> u16 list \<times> i8 \<times> u16 \<Rightarrow> bool" for opc where
  stays: "goes opc (st, sp, pc) (st, sp, pc)"
| falls: "falls_through opc \<Longrightarrow> goes opc (st, sp, pc) (st, sp, pc + 2)"
| skips: "op_k opc \<in> {0x3, 0x4, 0x5, 0x9, 0xe} \<Longrightarrow> goes opc (st, sp, pc) (st, sp, pc + 4)"
| jumps: "op_k opc = 1 \<Longrightarrow> goes opc (st, sp, pc) (st, sp, imm12 opc)"
| calls: "op_k opc = 2 \<Longrightarrow> sint sp < 16 \<Longrightarrow>
    goes opc (st, sp, pc) (st[nat (sint sp) := pc + 2], sp + 1, imm12 opc)"
| returns: "opc = 0xEE \<Longrightarrow> 0 < sint sp \<Longrightarrow> goes opc (st, sp, pc) (st, sp - 1, st ! nat (sint (sp - 1)))"

inductive_cases goes_cases: "goes opc c c'"

abbreviation goes_out :: "u16 \<Rightarrow> 'a vm_scheme \<Rightarrow> 'a vm_scheme outcome \<Rightarrow> bool" where
  "goes_out opc s \<equiv> outcome_all (\<lambda>r s'. goes opc (ctl s) (ctl s'))"

lemma goes_moves:
  assumes "moves D s out" "D \<subseteq> {0, 2, 4}" "2 \<in> D \<Longrightarrow> falls_through opc"
    "4 \<in> D \<Longrightarrow> op_k opc \<in> {0x3, 0x4, 0x5, 0x9, 0xe}"
  shows "goes_out opc s out"
proof (cases out)
  case (Done r s')
  then obtain d where d: "d \<in> D" "ctl s' = (stack s, stack_pointer s, program_counter s + d)"
    using assms(1) by (auto simp: moves_def)
  have "ctl s = (stack s, stack_pointer s, program_counter s)" by (simp add: ctl_def)
  then show ?thesis
    using d assms(2-4) goes.stays [of opc "stack s" "stack_pointer s" "program_counter s"]
      goes.falls [of opc "stack s" "stack_pointer s" "program_counter s"]
      goes.skips [of opc "stack s" "stack_pointer s" "program_counter s"]
    by (auto simp: Done)
qed simp_all

lemma goes_jump: "op_k (opcode s) = 1 \<Longrightarrow> goes_out (opcode s) s (jump b s)"
  by (simp add: jump_def Let_def ctl_def goes.jumps del: interrupt.simps)

lemma goes_call: "op_k (opcode s) = 2 \<Longrightarrow> goes_out (opcode s) s (call b s)"
  by (simp add: call_def Let_def ctl_def ERROR_def STACK_SIZE_def goes.stays goes.calls del: interrupt.simps)

lemma goes_retern: "opcode s = 0xEE \<Longrightarrow> goes_out (opcode s) s (retern b s)"
  by (simp add: retern_def Let_def ctl_def ERROR_def goes.stays goes.returns del: interrupt.simps)

lemma goes_dispatch:
  assumes "valid_opcode (opcode s)" "op_k (opcode s) \<noteq> 0xb"
  shows "goes_out (opcode s) s (dispatch b s)"
proof (cases "opcode s = 0xE0 \<or> opcode s = 0xEE")
  case True
  have "falls_through 0xE0" by (simp add: falls_through_def op_k_def)
  then show ?thesis
    using True goes_moves [OF moves_plain(5) [of s b], of "opcode s"] goes_retern [of s b]
    by (auto simp: dispatch_def)
next
  case False
  then have n: "opcode s \<noteq> 0x00e0" "opcode s \<noteq> 0x00ee" by simp_all
  define k where "k = op_k (opcode s)"
  have "\<not> op_k (opcode s) = 0" using assms(1) False unfolding valid_opcode_def by argo
  then have k: "k \<noteq> 0" "k \<noteq> 0xb" using assms(2) by (simp_all add: k_def)
  have "k < 16" unfolding k_def op_k_high [symmetric] by (rule high_nibble_less)
  have ft: "falls_through (opcode s) \<longleftrightarrow> k \<noteq> 1" using False k by (auto simp: falls_through_def k_def)
  have skip: "goes_out (opcode s) s (skip_eq_immediate s)" "goes_out (opcode s) s (skip_neq_immediate s)"
      "goes_out (opcode s) s (skip_eq_register s)" "goes_out (opcode s) s (skip_neq_register s)"
    if "k \<in> {3, 4, 5, 9}"
    by (rule goes_moves [OF moves_skips(1)] goes_moves [OF moves_skips(2)] goes_moves [OF moves_skips(3)]
        goes_moves [OF moves_skips(4)]; use that ft k_def in auto)+
  have plain: "goes_out (opcode s) s (load_immediate s)" "goes_out (opcode s) s (add_immediate s)"
      "goes_out (opcode s) s (load_addr_immediate s)" "goes_out (opcode s) s (random_byte s)"
      "goes_out (opcode s) s (op_8 s)" "goes_out (opcode s) s (draw b s)" "goes_out (opcode s) s (op_f b s)"
    if "k \<noteq> 1"
    by (rule goes_moves [OF moves_plain(1)] goes_moves [OF moves_plain(2)] goes_moves [OF moves_plain(3)]
        goes_moves [OF moves_plain(4)] goes_moves [OF moves_op_8] goes_moves [OF moves_draw]
        goes_moves [OF moves_op_f]; use that ft in auto)+
  have e: "goes_out (opcode s) s (op_e b s)" if "k = 0xe"
    by (rule goes_moves [OF moves_op_e]) (use that ft k_def in auto)
  have d: "dispatch b s = (if k = 0 then jump b s else if k = 1 then jump b s else if k = 2 then call b s
      else if k = 3 then skip_eq_immediate s else if k = 4 then skip_neq_immediate s
      else if k = 5 then skip_eq_register s else if k = 6 then load_immediate s
      else if k = 7 then add_immediate s else if k = 8 then op_8 s else if k = 9 then skip_neq_register s
      else if k = 0xa then load_addr_immediate s else if k = 0xb then branch s
      else if k = 0xc then random_byte s else if k = 0xd then draw b s else if k = 0xe then op_e b s
      else if k = 0xf then op_f b s else ERROR s)"
    unfolding dispatch_def Let_def op_k_high k_def if_not_P [OF n(1)] if_not_P [OF n(2)] by (rule refl)
  show ?thesis
    unfolding d using \<open>k < 16\<close> k skip plain e goes_jump [of s b] goes_call [of s b] unfolding k_def [symmetric]
    by (cases rule: less_16_cases) simp_all
qed

lemma goes_basic_block:
  assumes "basic_block b s = Done r t" "valid_opcode (opcode_at s (program_counter s))"
    "op_k (opcode_at s (program_counter s)) \<noteq> 0xb"
  shows "goes (opcode_at s (program_counter s)) (ctl s) (ctl t)"
  using goes_dispatch [of "s\<lparr>opcode := opcode_at s (program_counter s)\<rparr>" b] assms
  by (simp add: basic_block_def)

section \<open>Runs\<close>

text \<open>
  An address is tracked if the graph reaches it or no aligned word of the ROM starts there.
  The invariant: the program counter and every pending return address are tracked.
\<close>

definition tracked :: "u8 list \<Rightarrow> nat \<Rightarrow> bool" where
  "tracked rom a \<longleftrightarrow> flow (disas_memory rom) (length rom) a \<or> \<not> labelable a (length rom)"

definition on_graph :: "u8 list \<Rightarrow> u16 list \<times> i8 \<times> u16 \<Rightarrow> bool" where
  "on_graph rom = (\<lambda>(st, sp, pc). length st = 16 \<and> 0 \<le> sint sp \<and> sint sp \<le> 16 \<and>
     tracked rom (unat pc) \<and> (\<forall>i<nat (sint sp). tracked rom (unat (st ! i))))"

text \<open>
  An ordinary instruction of the ROM: at an aligned address inside it, not rewritten since it
  was loaded, valid, and not the computed jump \<^verbatim>\<open>Bnnn\<close>.
\<close>

definition ordinary :: "u8 list \<Rightarrow> 'a vm_scheme \<Rightarrow> bool" where
  "ordinary rom s \<longleftrightarrow>
     (let pc = unat (program_counter s); opc = opcode_at s (program_counter s)
      in labelable pc (length rom) \<and> opc = word_at (disas_memory rom) pc \<and> valid_opcode opc \<and> op_k opc \<noteq> 0xb)"

lemma unat_pc_add: "unat (pc :: u16) < 4096 \<Longrightarrow> d \<le> 4 \<Longrightarrow> unat (pc + of_nat d) = unat pc + d"
  by (simp add: unat_word_ariths unat_of_nat)

lemma goes_on_graph:
  assumes on: "on_graph rom (st, sp, pc)" and sz: "length rom \<le> 0xE00"
    and ord: "labelable (unat pc) (length rom)" "opc = word_at (disas_memory rom) (unat pc)" "valid_opcode opc"
    and go: "goes opc (st, sp, pc) c"
  shows "on_graph rom c"
proof -
  let ?m = "disas_memory rom" and ?sz = "length rom"
  have pc: "unat pc < 4096" "flow ?m ?sz (unat pc)" "is_code ?m ?sz (unat pc)"
    using on sz ord by (auto simp: labelable_iff on_graph_def tracked_def is_code_def)
  have succ: "tracked rom a" if "a \<in> set (succs ?m ?sz (unat pc))" for a
    using flow.follow [OF pc(2,3) that] by (simp add: tracked_def)
  have next2: "tracked rom (unat (pc + 2))" if "falls_through opc"
    using succ [of "unat pc + 2"] that ord(2) unat_pc_add [OF pc(1), of 2] by (simp add: succs_def)
  have target: "tracked rom (unat (imm12 opc))" if "op_k opc \<in> {1, 2}"
    using succ [of "fnnn opc"] that ord(2)
    by (cases "labelable (fnnn opc) ?sz") (auto simp: succs_def pushes_def fnnn_def imm12_def tracked_def)
  have skip: "tracked rom (unat (pc + 4))" if "op_k opc \<in> {0x3, 0x4, 0x5, 0x9, 0xe}"
    using succ [of "unat pc + 4"] that ord(2) unat_pc_add [OF pc(1), of 4]
    by (cases "unat pc + 4 < 0x200 + ?sz")
      (auto simp: succs_def pushes_def tracked_def labelable_iff)
  from go show ?thesis
  proof cases
    case calls
    have "falls_through opc" using calls(2) by (auto simp: falls_through_def op_k_def)
    then have "tracked rom (unat (pc + 2))" by (rule next2)
    moreover have "nat (sint (sp + 1)) = Suc (nat (sint sp))"
      using on calls(3) by (auto simp: on_graph_def sint_inc)
    ultimately show ?thesis
      using on calls target by (auto simp: on_graph_def sint_inc nth_list_update less_Suc_eq)
  next
    case returns
    have "sint (sp - 1) = sint sp - 1" using returns by (simp add: sint_dec)
    then show ?thesis using on returns by (auto simp: on_graph_def)
  qed (use on next2 skip target in \<open>auto simp: on_graph_def\<close>)
qed

text \<open>
  A run of the main loop, without the idle shortcut, whose instructions before the last state
  are ordinary.
\<close>

inductive ordinary_run :: "build \<Rightarrow> u8 list \<Rightarrow> 'a vm_scheme \<Rightarrow> 'a vm_scheme \<Rightarrow> bool" for b rom s where
  start: "ordinary_run b rom s s"
| step: "ordinary_run b rom s t \<Longrightarrow> ordinary rom t \<Longrightarrow> interp_pass b False t n = Next u k \<Longrightarrow>
    ordinary_run b rom s u"

lemma memory_keys [simp]: "memory (snd (all_keys_down b s)) = memory s"
  by (cases b) (simp_all add: bench_keys_now_def bench_roll_tick_def Let_def)

lemma opcode_at_memory: "memory s = memory t \<Longrightarrow> opcode_at s a = opcode_at t a"
  by (simp add: opcode_at_def mem_at_def)

lemma interp_pass_goes:
  assumes "interp_pass b False s n = Next t k" "ordinary rom s"
  shows "goes (opcode_at s (program_counter s)) (ctl s) (ctl t)"
proof -
  obtain keys s1 where k: "all_keys_down b s = (keys, s1)" by fastforce
  define s2 where "s2 = (if b = BENCH then s1\<lparr>bench_retired := bench_retired s1 + 1\<rparr> else s1)"
  have s2: "ctl s2 = ctl s" "memory s2 = memory s"
    using ctl_keys(4) [of b s] memory_keys [of b s] k by (simp_all add: s2_def del: all_keys_down.simps)
  then have op: "opcode_at s2 (program_counter s2) = opcode_at s (program_counter s)"
    using opcode_at_memory [OF s2(2)] by (simp add: ctl_def)
  obtain r where "basic_block b s2 = Done r t"
    using assms(1) k by (auto simp: interp_pass_def elided_def execute_def s2_def Let_def
        simp del: all_keys_down.simps split: if_splits outcome.splits)
  from goes_basic_block [OF this] assms(2) show ?thesis
    unfolding op s2(1) ordinary_def Let_def by blast
qed

lemma ordinary_run_on_graph:
  assumes "ordinary_run b rom s t" "on_graph rom (ctl s)" "length rom \<le> 0xE00"
  shows "on_graph rom (ctl t)"
  using assms(1)
proof (induction rule: ordinary_run.induct)
  case (step t n u k)
  have o: "labelable (unat (program_counter t)) (length rom)" "valid_opcode (opcode_at t (program_counter t))"
    "opcode_at t (program_counter t) = word_at (disas_memory rom) (unat (program_counter t))"
    using step.hyps(2) unfolding ordinary_def Let_def by blast+
  have c: "ctl t = (stack t, stack_pointer t, program_counter t)" by (simp add: ctl_def)
  show ?case
    by (rule goes_on_graph [OF step.IH [unfolded c] assms(3) o(1,3,2) interp_pass_goes [OF step.hyps(3,2), unfolded c]])
qed (rule assms(2))

lemma analysis_marks:
  assumes "analysis decode rom = Some a" "flow (disas_memory rom) (length rom) pc"
    "is_code (disas_memory rom) (length rom) pc"
  shows "reach a pc \<and> cls a pc = 1"
proof -
  obtain d where d: "descend (disas_memory rom) (length rom) (analyze (disas_memory rom) (length rom) disas_init) = Some d"
    "reach a = reach d" "coded a = coded d" using assms(1) by (rule analysis_cases)
  have "reach d pc" using descend_facts(1) [OF d(1), of pc] flow_aligned [OF assms(2)] assms(2,3) by simp
  moreover have "coded a pc \<longleftrightarrow> reach d pc" using descend_facts(3) [OF d(1)] d(3) by simp
  ultimately show ?thesis using d(2) by (simp add: coded_def)
qed



end
