(* ===== verification/C8_Report.thy ===== *)
theory C8_Report
  imports C8_Interp C8_Asm
begin

text \<open>
  The ends of a \<^verbatim>\<open>BENCH\<close> run: the command line (\<^verbatim>\<open>bench_parse_args\<close>) and the final report
  (\<^verbatim>\<open>bench_report\<close> and \<^verbatim>\<open>dump_chip8_state\<close>), as the lines written to \<^verbatim>\<open>stderr\<close>. The two lines
  with the elapsed wall-clock time are left out.
\<close>

section \<open>The command line\<close>

text \<open>
  \<^verbatim>\<open>argv\<close> without the program name. \<^verbatim>\<open>atoll\<close> is undefined when the number does not fit a
  \<^verbatim>\<open>long long\<close>: \<open>None\<close>.
\<close>

record bench_options =
  opt_budget :: int
  opt_seed :: nat
  opt_keys :: key_mode
  opt_rom :: "string option"

definition BENCH_DEFAULT_SEED :: nat where "BENCH_DEFAULT_SEED = 20240101"
definition BENCH_DEFAULT_INSTRUCTIONS :: int where "BENCH_DEFAULT_INSTRUCTIONS = 50000000"

definition default_options :: bench_options where
  "default_options =
     \<lparr>opt_budget = BENCH_DEFAULT_INSTRUCTIONS, opt_seed = BENCH_DEFAULT_SEED, opt_keys = BENCH_KEYS_ROTATE, opt_rom = None\<rparr>"

definition atoll :: "string \<Rightarrow> int option" where
  "atoll s =
     (let (neg, s1) = read_sign (dropWhile isspace s); (n, rest) = read_digits 10 0 s1;
          v = (if neg then - int n else int n)
      in if - (2 ^ 63) \<le> v \<and> v < 2 ^ 63 then Some v else None)"

datatype parsed = Usage | Bad_budget | Overflow | Parsed bench_options int

fun parse_options :: "string list \<Rightarrow> bench_options \<Rightarrow> bench_options + parsed" where
  "parse_options [] opts = Inl opts"
| "parse_options (a # args) opts =
     (if a = ''--instructions'' \<and> args \<noteq> []
      then case atoll (hd args) of None \<Rightarrow> Inr Overflow | Some n \<Rightarrow> parse_options (tl args) (opts\<lparr>opt_budget := n\<rparr>)
      else if a = ''--seed'' \<and> args \<noteq> []
      then parse_options (tl args) (opts\<lparr>opt_seed := fst (strtoul (hd args)) mod 2 ^ 32\<rparr>)
      else if a = ''--keys'' \<and> args \<noteq> []
      then if hd args = ''none'' then parse_options (tl args) (opts\<lparr>opt_keys := BENCH_KEYS_NONE\<rparr>)
           else if hd args = ''rotate'' then parse_options (tl args) (opts\<lparr>opt_keys := BENCH_KEYS_ROTATE\<rparr>)
           else Inr Usage
      else if a \<noteq> [] \<and> hd a = CHR ''-'' then Inr Usage
      else if opt_rom opts = None then parse_options args (opts\<lparr>opt_rom := Some a\<rparr>)
      else Inr Usage)"

text \<open>The clock cap is a \<^verbatim>\<open>long long\<close> product, undefined when it overflows.\<close>

definition bench_parse_args :: "string list \<Rightarrow> parsed" where
  "bench_parse_args args =
     (case parse_options args default_options of
        Inr p \<Rightarrow> p
      | Inl opts \<Rightarrow>
          if opt_rom opts = None then Usage
          else if opt_budget opts \<le> 0 then Bad_budget
          else let cap = opt_budget opts * int BENCH_CLOCK_CAP_FACTOR
               in if cap < 2 ^ 63 then Parsed opts cap else Overflow)"

section \<open>The report\<close>

text \<open>\<^verbatim>\<open>%d\<close> of a possibly negative number, and \<^verbatim>\<open>%016llx\<close>.\<close>

definition sdec :: "int \<Rightarrow> string" where
  "sdec n = (if n < 0 then CHR ''-'' # dec (nat (- n)) else dec (nat n))"

definition tolower :: "char \<Rightarrow> char" where
  "tolower c = (if isupper c then char_of (code c + 32) else c)"

definition dump_chip8_state :: "string \<Rightarrow> nat \<Rightarrow> 'a vm_scheme \<Rightarrow> string list" where
  "dump_chip8_state counter_label counter s =
     map (\<lambda>i. ''V'' @ hex i @ '' = 0x'' @ hexp 2 (unat (regs s ! i))) [0..<REGFILE_SIZE] @
     [dec counter @ '' '' @ counter_label @ '' executed'',
      ''$pc = 0x'' @ hexp 4 (unat (program_counter s)),
      ''$addr = 0x'' @ hexp 4 (unat (addr s)),
      ''stack depth = '' @ sdec (sint (stack_pointer s))] @
     (if sint (stack_pointer s) > 0
      then [''stack['' @ sdec (sint (stack_pointer s) - 1) @ ''] = 0x'' @
            hexp 4 (unat (stack s ! nat (sint (stack_pointer s) - 1)))]
      else []) @
     [''delay = '' @ dec (unat (delay_timer s)), ''sound = '' @ dec (unat (sound_timer s))]"

text \<open>\<open>seed\<close>, \<open>compiled\<close> and \<open>flushes\<close> are the globals the engines count in.\<close>

definition bench_report :: "string \<Rightarrow> string \<Rightarrow> nat \<Rightarrow> nat \<Rightarrow> nat \<Rightarrow> nat \<Rightarrow> 'a vm_scheme \<Rightarrow> string list" where
  "bench_report engine counter_label counter seed compiled flushes s0 =
     (let s = sync_timers s0 in
      dump_chip8_state counter_label counter s @
      [''engine = '' @ engine,
       ''seed = '' @ dec seed,
       ''keys = '' @ (if bench_key_mode s = BENCH_KEYS_NONE then ''none'' else ''rotate''),
       ''retired = '' @ dec (bench_retired s),
       ''compiled = '' @ dec compiled,
       ''flushes = '' @ dec flushes,
       ''clock = '' @ dec (bench_now s),
       ''display = 0x'' @ map tolower (hexp 16 (unat (bench_display_hash s)))])"

end
