(* ===== verification/C8_Aot.thy ===== *)
theory C8_Aot
  imports C8_Report
begin

text \<open>
  The ahead-of-time compiler \<^verbatim>\<open>aot.c\<close>, which lowers each word of a ROM to textual LLVM IR,
  and the runtime \<^verbatim>\<open>aot_runtime.c\<close> the result is linked to.

  The module is data first: a function is a list of labelled basic blocks, an instruction is one
  \<^verbatim>\<open>fprintf\<close> of the emitter, with the names of its values as the strings that are printed.
  \<open>aot_text\<close> is the text of the file. \<open>ir_step\<close> executes the instructions as the LLVM language
  reference describes them; a name that has no value, or not one of the right kind, is undefined.
\<close>

section \<open>The module\<close>

datatype llty = I1 | I8 | I16
datatype operand = Const nat | Local string
datatype pointer = At_addr | At_program_counter | At_local string
datatype cond = Cond_eq | Cond_ne

text \<open>The services of the runtime, with the constants they are called with.\<close>

datatype service =
    Aot_clear | Aot_return | Aot_call nat nat | Aot_alu nat nat nat | Aot_random nat nat
  | Aot_draw nat nat nat | Aot_key nat bool | Aot_f nat nat | Aot_bad nat nat

datatype inst =
    Getelementptr string nat
  | Load string llty pointer
  | Store llty operand pointer
  | Icmp string cond operand operand
  | Select string operand nat nat
  | Add string llty operand operand
  | Zext string operand
  | Call_retire string
  | Call_void service
  | Br string
  | Br_cond operand string string
  | Switch operand string "(nat \<times> string) list"
  | Ret_void

type_synonym func = "(string \<times> inst list) list"

section \<open>The emitter\<close>

text \<open>\<^verbatim>\<open>%x\<close>, and the names of the emitter.\<close>

definition lhex :: "nat \<Rightarrow> string" where "lhex n = map tolower (hex n)"

definition reg_name :: "string \<Rightarrow> nat \<Rightarrow> nat \<Rightarrow> string" where
  "reg_name p pc r = p @ lhex pc @ ''_'' @ lhex r"

text \<open>\<open>m\<close> is the pair of masks \<^verbatim>\<open>ptr_mask\<close> and \<^verbatim>\<open>load_mask\<close>: what a block has computed already.\<close>

definition next_block :: "nat \<Rightarrow> inst list" where
  "next_block pc = [Store I16 (Const (pc + 2)) At_program_counter, Br ''dispatch'']"

definition regptr :: "nat \<Rightarrow> nat \<Rightarrow> u32 \<times> u32 \<Rightarrow> inst list \<times> (u32 \<times> u32)" where
  "regptr pc r = (\<lambda>(ptr_mask, load_mask).
     if ptr_mask AND push_bit r 1 = 0
     then ([Getelementptr (reg_name ''r'' pc r) r], (ptr_mask OR push_bit r 1, load_mask))
     else ([], (ptr_mask, load_mask)))"

definition loadreg :: "nat \<Rightarrow> nat \<Rightarrow> u32 \<times> u32 \<Rightarrow> inst list \<times> (u32 \<times> u32)" where
  "loadreg pc r m =
     (let (c, (ptr_mask, load_mask)) = regptr pc r m in
      if load_mask AND push_bit r 1 = 0
      then (c @ [Load (reg_name ''v'' pc r) I8 (At_local (reg_name ''r'' pc r))],
            (ptr_mask, load_mask OR push_bit r 1))
      else (c, (ptr_mask, load_mask)))"

text \<open>The end of a conditional skip: the next program counter is selected, then stored.\<close>

definition skip_code :: "nat \<Rightarrow> cond \<Rightarrow> operand \<Rightarrow> operand \<Rightarrow> inst list" where
  "skip_code pc c vx rhs =
     [Icmp (''c'' @ lhex pc) c vx rhs,
      Select (''p'' @ lhex pc) (Local (''c'' @ lhex pc)) (pc + 4) (pc + 2),
      Store I16 (Local (''p'' @ lhex pc)) At_program_counter, Br ''dispatch'']"

definition op_code :: "nat \<Rightarrow> u16 \<Rightarrow> inst list" where
  "op_code pc opc =
     (let x = unat (drop_bit 8 opc AND 15); y = unat (drop_bit 4 opc AND 15); n = unat (opc AND 15);
          kk = unat (opc AND 255); nnn = unat (opc AND 4095); k = unat (drop_bit 12 opc);
          m0 = (0, 0); v = (\<lambda>r. Local (reg_name ''v'' pc r)) in
      if opc = 0x00e0 then Call_void Aot_clear # next_block pc
      else if opc = 0x00ee then [Call_void Aot_return, Br ''dispatch'']
      else if k = 0 \<or> k = 1 then [Store I16 (Const nnn) At_program_counter, Br ''dispatch'']
      else if k = 2 then [Call_void (Aot_call nnn (pc + 2)), Br ''dispatch'']
      else if k = 3 \<or> k = 4
      then fst (loadreg pc x m0) @ skip_code pc (if k = 3 then Cond_eq else Cond_ne) (v x) (Const kk)
      else if k = 5 \<or> k = 9
      then (let (c1, m1) = loadreg pc x m0; (c2, m2) = loadreg pc y m1
            in c1 @ c2 @ skip_code pc (if k = 5 then Cond_eq else Cond_ne) (v x) (v y))
      else if k = 6
      then fst (regptr pc x m0) @ Store I8 (Const kk) (At_local (reg_name ''r'' pc x)) # next_block pc
      else if k = 7
      then (let (c1, m1) = loadreg pc x m0
            in c1 @ Add (''a'' @ lhex pc) I8 (v x) (Const kk) # fst (regptr pc x m1) @
               Store I8 (Local (''a'' @ lhex pc)) (At_local (reg_name ''r'' pc x)) # next_block pc)
      else if k = 8 then Call_void (Aot_alu x y n) # next_block pc
      else if k = 0xa then Store I16 (Const nnn) At_addr # next_block pc
      else if k = 0xb
      then fst (loadreg pc 0 m0) @
           [Zext (''z'' @ lhex pc) (v 0), Add (''j'' @ lhex pc) I16 (Const nnn) (Local (''z'' @ lhex pc)),
            Store I16 (Local (''j'' @ lhex pc)) At_program_counter, Br ''dispatch'']
      else if k = 0xc then Call_void (Aot_random x kk) # next_block pc
      else if k = 0xd then Call_void (Aot_draw x y n) # next_block pc
      else if k = 0xe then [Call_void (Aot_key x (opc AND 255 = 0xa1)), Br ''dispatch'']
      else if k = 0xf then Call_void (Aot_f x (unat (opc AND 255))) # next_block pc
      else [Call_void (Aot_bad (unat opc) pc), Br ''exit''])"

text \<open>\<^verbatim>\<open>block\<close> emits two basic blocks: count and poll, then the instruction.\<close>

definition aot_block :: "nat \<Rightarrow> u16 \<Rightarrow> func" where
  "aot_block pc opc =
     [(''pc'' @ lhex pc, [Call_retire (''stop'' @ lhex pc),
         Br_cond (Local (''stop'' @ lhex pc)) ''exit'' (''op'' @ lhex pc)]),
      (''op'' @ lhex pc, op_code pc opc)]"

text \<open>The addresses of the ROM's words and the words, in the order of the loops of \<^verbatim>\<open>main\<close>.\<close>

definition rom_offsets :: "u8 list \<Rightarrow> nat list" where
  "rom_offsets rom = map (\<lambda>i. 2 * i) [0..<length rom div 2]"

definition rom_word :: "u8 list \<Rightarrow> nat \<Rightarrow> u16" where
  "rom_word rom i = push_bit 8 (ucast (rom ! i)) OR ucast (rom ! (i + 1))"

definition dispatch_block :: "u8 list \<Rightarrow> string \<times> inst list" where
  "dispatch_block rom =
     (''dispatch'', [Load ''pc'' I16 At_program_counter,
        Switch (Local ''pc'') ''exit'' (map (\<lambda>i. (ENTRYPOINT + i, ''pc'' @ lhex (ENTRYPOINT + i))) (rom_offsets rom))])"

definition aot_func :: "u8 list \<Rightarrow> func" where
  "aot_func rom =
     (''entry'', [Br ''dispatch'']) # dispatch_block rom #
     concat (map (\<lambda>i. aot_block (ENTRYPOINT + i) (rom_word rom i)) (rom_offsets rom)) @
     [(''exit'', [Ret_void])]"

section \<open>The text\<close>

definition print_ty :: "llty \<Rightarrow> string" where
  "print_ty t = (case t of I1 \<Rightarrow> ''i1'' | I8 \<Rightarrow> ''i8'' | I16 \<Rightarrow> ''i16'')"

definition print_op :: "operand \<Rightarrow> string" where
  "print_op v = (case v of Const n \<Rightarrow> dec n | Local x \<Rightarrow> ''%'' @ x)"

definition print_ptr :: "pointer \<Rightarrow> string" where
  "print_ptr p = (case p of At_addr \<Rightarrow> ''@addr'' | At_program_counter \<Rightarrow> ''@program_counter'' | At_local x \<Rightarrow> ''%'' @ x)"

definition print_cond :: "cond \<Rightarrow> string" where
  "print_cond c = (case c of Cond_eq \<Rightarrow> ''eq'' | Cond_ne \<Rightarrow> ''ne'')"

fun print_service :: "service \<Rightarrow> string" where
  "print_service Aot_clear = ''@chip8_aot_clear()''"
| "print_service Aot_return = ''@chip8_aot_return()''"
| "print_service (Aot_call dst ret) = ''@chip8_aot_call(i16 '' @ dec dst @ '', i16 '' @ dec ret @ '')''"
| "print_service (Aot_alu x y n) = ''@chip8_aot_alu(i8 '' @ dec x @ '', i8 '' @ dec y @ '', i8 '' @ dec n @ '')''"
| "print_service (Aot_random x k) = ''@chip8_aot_random(i8 '' @ dec x @ '', i8 '' @ dec k @ '')''"
| "print_service (Aot_draw x y n) = ''@chip8_aot_draw(i8 '' @ dec x @ '', i8 '' @ dec y @ '', i8 '' @ dec n @ '')''"
| "print_service (Aot_key x up) = ''@chip8_aot_key(i8 '' @ dec x @ '', i1 '' @ dec (of_bool up) @ '')''"
| "print_service (Aot_f x k) = ''@chip8_aot_f(i8 '' @ dec x @ '', i8 '' @ dec k @ '')''"
| "print_service (Aot_bad opc pc) = ''@chip8_aot_bad(i16 '' @ dec opc @ '', i16 '' @ dec pc @ '')''"

fun print_inst :: "inst \<Rightarrow> string" where
  "print_inst (Getelementptr d r) =
     ''  %'' @ d @ '' = getelementptr [16 x i8], ptr @regs, i32 0, i32 '' @ dec r @ newline"
| "print_inst (Load d t p) = ''  %'' @ d @ '' = load '' @ print_ty t @ '', ptr '' @ print_ptr p @ newline"
| "print_inst (Store t v p) = ''  store '' @ print_ty t @ '' '' @ print_op v @ '', ptr '' @ print_ptr p @ newline"
| "print_inst (Icmp d c v w) =
     ''  %'' @ d @ '' = icmp '' @ print_cond c @ '' i8 '' @ print_op v @ '', '' @ print_op w @ newline"
| "print_inst (Select d c a b) =
     ''  %'' @ d @ '' = select i1 '' @ print_op c @ '', i16 '' @ dec a @ '', i16 '' @ dec b @ newline"
| "print_inst (Add d t v w) =
     ''  %'' @ d @ '' = add '' @ print_ty t @ '' '' @ print_op v @ '', '' @ print_op w @ newline"
| "print_inst (Zext d v) = ''  %'' @ d @ '' = zext i8 '' @ print_op v @ '' to i16'' @ newline"
| "print_inst (Call_retire d) = ''  %'' @ d @ '' = call i1 @chip8_aot_retire()'' @ newline"
| "print_inst (Call_void f) = ''  call void '' @ print_service f @ newline"
| "print_inst (Br l) = ''  br label %'' @ l @ newline @ newline"
| "print_inst (Br_cond c l1 l2) =
     ''  br i1 '' @ print_op c @ '', label %'' @ l1 @ '', label %'' @ l2 @ newline"
| "print_inst (Switch v l cases) =
     ''  switch i16 '' @ print_op v @ '', label %'' @ l @ '' ['' @ newline @
     concat (map (\<lambda>(n, l). ''    i16 '' @ dec n @ '', label %'' @ l @ newline) cases) @ ''  ]'' @ newline @ newline"
| "print_inst Ret_void = ''ret void'' @ newline"

definition print_block :: "string \<times> inst list \<Rightarrow> string" where
  "print_block b = fst b @ '':'' @ newline @ concat (map print_inst (snd b))"

definition declarations :: string where
  "declarations = concat (map (\<lambda>l. l @ newline)
     [''@regs = external global [16 x i8]'', ''@addr = external global i16'',
      ''@program_counter = external global i16'', ''declare i1 @chip8_aot_retire()'',
      ''declare void @chip8_aot_clear()'', ''declare void @chip8_aot_return()'',
      ''declare void @chip8_aot_call(i16,i16)'', ''declare void @chip8_aot_alu(i8,i8,i8)'',
      ''declare void @chip8_aot_random(i8,i8)'', ''declare void @chip8_aot_draw(i8,i8,i8)'',
      ''declare void @chip8_aot_key(i8,i1)'', ''declare void @chip8_aot_f(i8,i8)'',
      ''declare void @chip8_aot_bad(i16,i16)''])"

definition rom_bytes :: "u8 list \<Rightarrow> string" where
  "rom_bytes rom =
     concat (map (\<lambda>i. (if i \<noteq> 0 then '', '' else []) @ ''i8 '' @ dec (unat (rom ! i))) [0..<length rom])"

definition module_header :: "string option \<Rightarrow> u8 list \<Rightarrow> string" where
  "module_header target rom =
     ''; Generated AOT code -- no opcode dispatcher is linked.'' @ newline @
     (case target of None \<Rightarrow> []
      | Some t \<Rightarrow> ''target triple = '' @ [CHR 0x22] @ t @ [CHR 0x22] @ newline) @
     declarations @
     ''@chip8_aot_rom = constant ['' @ dec (length rom) @ '' x i8] ['' @ rom_bytes rom @ '']'' @ newline @
     ''@chip8_aot_rom_size = constant i32 '' @ dec (length rom) @ newline @
     ''define void @chip8_aot_run() {'' @ newline"

definition aot_text :: "string option \<Rightarrow> u8 list \<Rightarrow> string" where
  "aot_text target rom =
     module_header target rom @
     ''entry: br label %dispatch'' @ newline @
     print_block (dispatch_block rom) @
     concat (map (\<lambda>i. concat (map print_block (aot_block (ENTRYPOINT + i) (rom_word rom i)))) (rom_offsets rom)) @
     ''exit: '' @ print_inst Ret_void @ ''}'' @ newline"

text \<open>\<^verbatim>\<open>main\<close> from the contents of the ROM file on.\<close>

definition aot_main :: "string option \<Rightarrow> u8 list \<Rightarrow> string + string" where
  "aot_main target file =
     (if length file > MEMORY_SIZE - ENTRYPOINT then Inl ''invalid ROM''
      else if file = [] \<or> odd (length file) then Inl ''ROM size must be a nonzero even number''
      else Inr (aot_text target file))"

end
