(* ===== verification/C8_Aot_Run.thy ===== *)
theory C8_Aot_Run
  imports C8_Aot
begin

text \<open>
  The runtime \<^verbatim>\<open>aot_runtime.c\<close>: its state, the services compiled code calls, and the execution
  of a module. Its timers, its ring of polled keys and the terminal are as in the interactive
  interpreter, so the state extends \<open>vm\<close>: \<open>keys_down\<close> is \<^verbatim>\<open>key_history\<close>, \<open>interrupt_count\<close>
  is \<^verbatim>\<open>key_slot\<close>. \<open>clock_sec\<close> gives the seconds of the clock readings whose nanoseconds
  \<open>clock_nsec\<close> gives.
\<close>

section \<open>State, timers and keys\<close>

record aot = vm +
  clock_sec :: "nat \<Rightarrow> nat"
  retired :: u32
  last_key_poll :: int

definition NANOS_PER_INPUT_TICK :: nat where "NANOS_PER_INPUT_TICK = NANOS_PER_TICK div 10"

definition service_timers :: "'a aot_scheme \<Rightarrow> 'a aot_scheme" where
  "service_timers s =
     (let (now, s1) = tick INTERACTIVE s in
      if now \<noteq> last_tick s1
      then s1\<lparr>delay_timer := (if delay_timer s1 \<noteq> 0 then delay_timer s1 - 1 else delay_timer s1),
              sound_timer := (if sound_timer s1 \<noteq> 0 then sound_timer s1 - 1 else sound_timer s1),
              last_tick := now\<rparr>
      else s1)"

definition poll_keys :: "'a aot_scheme \<Rightarrow> 'a aot_scheme" where
  "poll_keys s =
     (let (keys, s1) = read_keys_io INTERACTIVE s
      in s1\<lparr>keys_down := (keys_down s1)[interrupt_count s1 := keys],
            interrupt_count := (interrupt_count s1 + 1) mod INPUT_TICKS\<rparr>)"

definition poll_keys_if_due :: "'a aot_scheme \<Rightarrow> 'a aot_scheme" where
  "poll_keys_if_due s =
     (let now = int (clock_sec s (clock_pos s) * 1000000000 + clock_nsec s (clock_pos s));
          s1 = s\<lparr>clock_pos := Suc (clock_pos s)\<rparr> in
      if now - last_key_poll s1 \<ge> int NANOS_PER_INPUT_TICK
      then (poll_keys s1)\<lparr>last_key_poll := now\<rparr> else s1)"

definition aot_keys :: "'a aot_scheme \<Rightarrow> u32" where
  "aot_keys s = fold (OR) (keys_down s) 0"

definition aot_clear_key :: "u8 \<Rightarrow> 'a aot_scheme \<Rightarrow> 'a aot_scheme" where
  "aot_clear_key key s = s\<lparr>keys_down := map (\<lambda>k. k AND NOT (push_bit (unat key) 1)) (keys_down s)\<rparr>"

section \<open>Services\<close>

definition chip8_aot_retire :: "'a aot_scheme \<Rightarrow> bool \<times> 'a aot_scheme" where
  "chip8_aot_retire s =
     (let s1 = poll_keys_if_due (s\<lparr>retired := retired s + 1\<rparr>);
          s2 = (if retired s1 AND 31 = 0 then service_timers s1 else s1)
      in (aot_keys s2 AND QUIT \<noteq> 0, s2))"

definition chip8_aot_return :: "'a aot_scheme \<Rightarrow> 'a aot_scheme" where
  "chip8_aot_return s =
     (if stack_pointer s \<noteq> 0
      then let sp = stack_pointer s - 1
           in s\<lparr>stack_pointer := sp, program_counter := stack s ! nat (sint sp)\<rparr>
      else s\<lparr>program_counter := 0xffff\<rparr>)"

definition chip8_aot_call :: "u16 \<Rightarrow> u16 \<Rightarrow> 'a aot_scheme \<Rightarrow> 'a aot_scheme" where
  "chip8_aot_call dst ret s =
     (if sint (stack_pointer s) < int STACK_SIZE
      then s\<lparr>stack := (stack s)[nat (sint (stack_pointer s)) := ret],
             stack_pointer := stack_pointer s + 1, program_counter := dst\<rparr>
      else s\<lparr>program_counter := 0xffff\<rparr>)"

definition chip8_aot_alu :: "nat \<Rightarrow> nat \<Rightarrow> nat \<Rightarrow> 'a aot_scheme \<Rightarrow> 'a aot_scheme" where
  "chip8_aot_alu x y n s =
     (let a = regs s ! x; b = regs s ! y in
      if n = 0 then set_reg x b s
      else if n = 1 then set_reg x (regs s ! x OR b) s
      else if n = 2 then set_reg x (regs s ! x AND b) s
      else if n = 3 then set_reg x (regs s ! x XOR b) s
      else if n = 4 then (let sum = (ucast a + ucast b :: u16)
                          in set_reg 15 (if sum > 255 then 1 else 0) (set_reg x (ucast sum) s))
      else if n = 5 then set_reg 15 (if a \<ge> b then 1 else 0) (set_reg x (a - b) s)
      else if n = 6 then set_reg 15 (a AND 1) (set_reg x (drop_bit 1 a) s)
      else if n = 7 then set_reg 15 (if b \<ge> a then 1 else 0) (set_reg x (b - a) s)
      else if n = 14 then set_reg 15 (drop_bit 7 a AND 1) (set_reg x (push_bit 1 a) s)
      else s\<lparr>program_counter := 0xffff\<rparr>)"

definition chip8_aot_random :: "nat \<Rightarrow> u8 \<Rightarrow> 'a aot_scheme \<Rightarrow> 'a aot_scheme" where
  "chip8_aot_random x k s = (let (r, s1) = rand s in set_reg x (ucast (r AND 255) AND k) s1)"

text \<open>The draw holds until the tick changes; the loop is the interpreter's \<open>wait_tick\<close>.\<close>

definition chip8_aot_draw :: "nat \<Rightarrow> nat \<Rightarrow> nat \<Rightarrow> 'a aot_scheme \<Rightarrow> 'a aot_scheme option" where
  "chip8_aot_draw x y n s =
     (let s1 = service_timers (poll_keys_if_due s);
          sprite = map (\<lambda>i. mem_at s1 (addr s1 + of_nat i)) [0..<n];
          (vf, s2) = draw_io INTERACTIVE (unat (regs s1 ! x)) (unat (regs s1 ! y)) n sprite s1
      in map_option (\<lambda>(current_tick, s4). s4\<lparr>last_tick := current_tick\<rparr>) (wait_tick (set_reg 15 (of_nat vf) s2)))"

text \<open>\<^verbatim>\<open>1u << regs[x]\<close> is undefined from 32 on.\<close>

definition chip8_aot_key :: "nat \<Rightarrow> bool \<Rightarrow> 'a aot_scheme \<Rightarrow> 'a aot_scheme outcome" where
  "chip8_aot_key x up s =
     (let s1 = poll_keys_if_due s; vx = regs s1 ! x in
      if unat vx \<ge> 32 then UB
      else let s2 = (if (aot_keys s1 AND push_bit (unat vx) 1 \<noteq> 0) \<noteq> up
                     then let s3 = aot_clear_key vx s1 in s3\<lparr>program_counter := program_counter s3 + 2\<rparr>
                     else s1)
           in Done 0 (s2\<lparr>program_counter := program_counter s2 + 2\<rparr>))"

partial_function (option) wait_key :: "'a aot_scheme \<Rightarrow> 'a aot_scheme option" where
  "wait_key s = (if aot_keys s AND 0xffff = 0 then wait_key (poll_keys s) else Some s)"

definition first_key :: "nat \<Rightarrow> 'a aot_scheme \<Rightarrow> 'a aot_scheme" where
  "first_key x s =
     (case find (\<lambda>i. aot_keys s AND push_bit i 1 \<noteq> 0) [0..<16] of
        None \<Rightarrow> s
      | Some i \<Rightarrow> aot_clear_key (of_nat i) (set_reg x (of_nat i) s))"

definition chip8_aot_f :: "nat \<Rightarrow> nat \<Rightarrow> 'a aot_scheme \<Rightarrow> 'a aot_scheme option" where
  "chip8_aot_f x k s =
     (if k = 7 then Some (set_reg x (delay_timer s) s)
      else if k = 10 then map_option (first_key x) (wait_key s)
      else if k = 21 then Some (s\<lparr>delay_timer := regs s ! x\<rparr>)
      else if k = 24 then Some (s\<lparr>sound_timer := regs s ! x\<rparr>)
      else if k = 30 then Some (s\<lparr>addr := addr s + ucast (regs s ! x)\<rparr>)
      else if k = 41 then Some (s\<lparr>addr := ucast (regs s ! x AND 0x0f) * 5\<rparr>)
      else if k = 51
      then (let v = regs s ! x; a = addr s
            in Some (mem_set (a + 2) (v mod 10) (mem_set (a + 1) (v div 10 mod 10) (mem_set a (v div 100) s))))
      else if k = 85 then Some (fold (\<lambda>i t. mem_set (addr t + of_nat i) (regs t ! i) t) [0..<x + 1] s)
      else if k = 101 then Some (fold (\<lambda>i t. set_reg i (mem_at t (addr t + of_nat i)) t) [0..<x + 1] s)
      else Some (s\<lparr>program_counter := 0xffff\<rparr>))"

definition status_ok :: "'s option \<Rightarrow> 's outcome" where
  "status_ok r = (case r of None \<Rightarrow> Hangs | Some s \<Rightarrow> Done 0 s)"

text \<open>\<^verbatim>\<open>chip8_aot_bad\<close> only prints.\<close>

fun serve :: "service \<Rightarrow> 'a aot_scheme \<Rightarrow> 'a aot_scheme outcome" where
  "serve Aot_clear s = Done 0 (clearscreen_io INTERACTIVE s)"
| "serve Aot_return s = Done 0 (chip8_aot_return s)"
| "serve (Aot_call dst ret) s = Done 0 (chip8_aot_call (of_nat dst) (of_nat ret) s)"
| "serve (Aot_alu x y n) s = Done 0 (chip8_aot_alu x y n s)"
| "serve (Aot_random x k) s = Done 0 (chip8_aot_random x (of_nat k) s)"
| "serve (Aot_draw x y n) s = status_ok (chip8_aot_draw x y n s)"
| "serve (Aot_key x up) s = chip8_aot_key x up s"
| "serve (Aot_f x k) s = status_ok (chip8_aot_f x k s)"
| "serve (Aot_bad opc pc) s = Done 0 s"

section \<open>Execution of a module\<close>

text \<open>A value is a number or the address of a register.\<close>

datatype val = Num nat | Reg_ptr nat

type_synonym env = "string \<Rightarrow> val option"

definition num :: "env \<Rightarrow> operand \<Rightarrow> nat option" where
  "num e v = (case v of Const n \<Rightarrow> Some n | Local x \<Rightarrow> (case e x of Some (Num n) \<Rightarrow> Some n | _ \<Rightarrow> None))"

datatype cell = Addr_cell | Pc_cell | Reg_cell nat

definition cell :: "env \<Rightarrow> pointer \<Rightarrow> cell option" where
  "cell e p =
     (case p of At_addr \<Rightarrow> Some Addr_cell | At_program_counter \<Rightarrow> Some Pc_cell
      | At_local x \<Rightarrow> (case e x of Some (Reg_ptr r) \<Rightarrow> Some (Reg_cell r) | _ \<Rightarrow> None))"

fun read_cell :: "cell \<Rightarrow> 'a aot_scheme \<Rightarrow> nat" where
  "read_cell Addr_cell s = unat (addr s)"
| "read_cell Pc_cell s = unat (program_counter s)"
| "read_cell (Reg_cell r) s = unat (regs s ! r)"

fun write_cell :: "cell \<Rightarrow> nat \<Rightarrow> 'a aot_scheme \<Rightarrow> 'a aot_scheme" where
  "write_cell Addr_cell n s = s\<lparr>addr := of_nat n\<rparr>"
| "write_cell Pc_cell n s = s\<lparr>program_counter := of_nat n\<rparr>"
| "write_cell (Reg_cell r) n s = set_reg r (of_nat n) s"

fun bits :: "llty \<Rightarrow> nat" where "bits I1 = 1" | "bits I8 = 8" | "bits I16 = 16"

text \<open>
  Where execution stands: before some instructions of a block with the values of the names, or
  past the end: returned, in a service that never returns, or undefined.
\<close>

datatype 's at = At "inst list" env 's | Returned 's | Blocked | Undefined_ir

definition goto :: "func \<Rightarrow> string \<Rightarrow> env \<Rightarrow> 's \<Rightarrow> 's at" where
  "goto f l e s = (case map_of f l of None \<Rightarrow> Undefined_ir | Some c \<Rightarrow> At c e s)"

definition assign :: "string \<Rightarrow> val option \<Rightarrow> inst list \<Rightarrow> env \<Rightarrow> 's \<Rightarrow> 's at" where
  "assign d v c e s = (case v of None \<Rightarrow> Undefined_ir | Some w \<Rightarrow> At c (e(d \<mapsto> w)) s)"

fun inst_step :: "func \<Rightarrow> inst \<Rightarrow> inst list \<Rightarrow> env \<Rightarrow> 'a aot_scheme \<Rightarrow> 'a aot_scheme at" where
  "inst_step f (Getelementptr d r) c e s = assign d (Some (Reg_ptr r)) c e s"
| "inst_step f (Load d t p) c e s = assign d (map_option (\<lambda>a. Num (read_cell a s)) (cell e p)) c e s"
| "inst_step f (Store t v p) c e s =
     (case (num e v, cell e p) of
        (Some n, Some a) \<Rightarrow> At c e (write_cell a (n mod 2 ^ bits t) s) | _ \<Rightarrow> Undefined_ir)"
| "inst_step f (Icmp d b v w) c e s =
     (case (num e v, num e w) of
        (Some m, Some n) \<Rightarrow> assign d (Some (Num (of_bool ((m = n) = (b = Cond_eq))))) c e s | _ \<Rightarrow> Undefined_ir)"
| "inst_step f (Select d v m n) c e s =
     assign d (map_option (\<lambda>k. Num (if k \<noteq> 0 then m else n)) (num e v)) c e s"
| "inst_step f (Add d t v w) c e s =
     (case (num e v, num e w) of
        (Some m, Some n) \<Rightarrow> assign d (Some (Num ((m + n) mod 2 ^ bits t))) c e s | _ \<Rightarrow> Undefined_ir)"
| "inst_step f (Zext d v) c e s = assign d (map_option Num (num e v)) c e s"
| "inst_step f (Call_retire d) c e s =
     (let (stop, s1) = chip8_aot_retire s in assign d (Some (Num (of_bool stop))) c e s1)"
| "inst_step f (Call_void g) c e s =
     (case serve g s of Done r s1 \<Rightarrow> At c e s1 | Hangs \<Rightarrow> Blocked | UB \<Rightarrow> Undefined_ir)"
| "inst_step f (Br l) c e s = goto f l e s"
| "inst_step f (Br_cond v l1 l2) c e s =
     (case num e v of Some n \<Rightarrow> goto f (if n \<noteq> 0 then l1 else l2) e s | None \<Rightarrow> Undefined_ir)"
| "inst_step f (Switch v l cases) c e s =
     (case num e v of Some n \<Rightarrow> goto f (case map_of cases n of Some l1 \<Rightarrow> l1 | None \<Rightarrow> l) e s | None \<Rightarrow> Undefined_ir)"
| "inst_step f Ret_void c e s = Returned s"

fun ir_step :: "func \<Rightarrow> 'a aot_scheme at \<Rightarrow> 'a aot_scheme at" where
  "ir_step f (At (i # c) e s) = inst_step f i c e s"
| "ir_step f (At [] e s) = Undefined_ir"
| "ir_step f p = p"

definition ir_steps :: "nat \<Rightarrow> func \<Rightarrow> 'a aot_scheme at \<Rightarrow> 'a aot_scheme at" where
  "ir_steps n f = ir_step f ^^ n"

section \<open>The runtime's main\<close>

definition aot_start :: "(nat \<Rightarrow> nat) \<Rightarrow> vm \<Rightarrow> aot" where
  "aot_start secs s = vm.extend s \<lparr>clock_sec = secs, retired = 0, last_key_poll = 0\<rparr>"

text \<open>\<open>None\<close> is the refusal of a ROM that does not fit.\<close>

definition aot_boot :: "u8 list \<Rightarrow> 'a aot_scheme \<Rightarrow> 'a aot_scheme option" where
  "aot_boot rom s =
     (let (t, s1) = tick INTERACTIVE s; s2 = s1\<lparr>last_tick := t\<rparr> in
      if length rom > MEMORY_SIZE - ENTRYPOINT then None
      else let s3 = init_io INTERACTIVE 64 32 (s2\<lparr>memory := load_rom rom (memory s2)\<rparr>)
           in Some (s3\<lparr>program_counter := of_nat ENTRYPOINT\<rparr>))"

text \<open>\<open>n\<close> steps of the module's \<^verbatim>\<open>chip8_aot_run\<close>, called by \<^verbatim>\<open>main\<close> of the linked program.\<close>

definition aot_run :: "nat \<Rightarrow> u8 list \<Rightarrow> 'a aot_scheme \<Rightarrow> 'a aot_scheme at option" where
  "aot_run n rom s =
     map_option (\<lambda>s1. ir_steps n (aot_func rom) (goto (aot_func rom) ''entry'' Map.empty s1)) (aot_boot rom s)"

end
