(* ===== verification/C8_Aot_Code.thy ===== *)
theory C8_Aot_Code
  imports C8_Aot_Run C8_Text
begin

text \<open>
  The emitted code: its names are distinct and defined before they are used, its branches stay in
  the function, and executing the block of a word calls the service of its opcode and stores the
  next program counter (\<open>lowered\<close>).
\<close>

section \<open>Names\<close>

lemma code_less [simp]: "code c < 256"
  by (simp add: code_def)

lemma tolower_hexd: "n < 16 \<Longrightarrow> code (tolower (hexd n)) = (if n < 10 then 48 + n else 87 + n)"
  by (auto simp: tolower_def isupper_def code_hexd)

lemma tolower_inj: "inj_on tolower (Collect hex_char)"
proof (rule inj_onI)
  fix c d assume *: "c \<in> Collect hex_char" "d \<in> Collect hex_char" "tolower c = tolower d"
  then obtain m n where mn: "m < 16" "n < 16" "c = hexd m" "d = hexd n" by (auto simp: hex_char_def)
  have "(if m < 10 then 48 + m else 87 + m) = (if n < 10 then 48 + n else 87 + n)"
    unfolding tolower_hexd [OF mn(1), symmetric] tolower_hexd [OF mn(2), symmetric]
    using *(3) unfolding mn(3,4) by (rule arg_cong)
  then have "m = n" using mn(1,2) by (cases "m < 10"; cases "n < 10") simp_all
  then show "c = d" using mn by blast
qed

lemma lhex_inj [simp]: "lhex m = lhex n \<longleftrightarrow> m = n"
proof
  assume *: "lhex m = lhex n"
  have "set (hex m) \<union> set (hex n) \<subseteq> Collect hex_char" using hex_char_hex by blast
  from map_inj_on [OF * [unfolded lhex_def] inj_on_subset [OF tolower_inj this]]
  have "hex m = hex n" .
  then show "m = n" by (metis read_hex fst_conv)
qed simp

lemma length_lhex: "0x100 \<le> n \<Longrightarrow> n < 0x1000 \<Longrightarrow> length (lhex n) = 3"
proof -
  assume "0x100 \<le> n" "n < 0x1000"
  then have "\<not> n div 16 < 16" "n div 16 div 16 < 16" "\<not> n < 16"
    by (simp_all add: div_less_iff_less_mult not_less less_eq_div_iff_mult_less_eq)
  then show ?thesis
    by (simp add: lhex_def numeral_of.simps [of 16 n] numeral_of.simps [of 16 "n div 16"] hex_small)
qed

text \<open>Two names are equal only if their kinds and numbers are.\<close>

lemma reg_name_inj [simp]: "reg_name p pc r = reg_name p pc q \<longleftrightarrow> r = q"
  by (simp add: reg_name_def)

lemma reg_name_diff [simp]: "reg_name ''v'' pc r \<noteq> reg_name ''r'' pd q" "reg_name ''r'' pc r \<noteq> reg_name ''v'' pd q"
  by (simp_all add: reg_name_def)

section \<open>Steps\<close>

definition leads :: "func \<Rightarrow> 'a aot_scheme at \<Rightarrow> 'a aot_scheme at \<Rightarrow> bool" where
  "leads f p q \<longleftrightarrow> (\<exists>n. ir_steps n f p = q)"

lemma leads_refl [simp]: "leads f p p"
  unfolding leads_def ir_steps_def by (rule exI [of _ 0]) simp

lemma leads_step: "leads f (ir_step f p) q \<Longrightarrow> leads f p q"
  unfolding leads_def ir_steps_def by (metis comp_apply funpow_Suc_right)

lemma leads_At: "leads f (inst_step f i c e s) q \<Longrightarrow> leads f (At (i # c) e s) q"
  by (rule leads_step) simp

lemma leads_trans: "leads f p q \<Longrightarrow> leads f q r \<Longrightarrow> leads f p r"
  unfolding leads_def ir_steps_def by (metis comp_apply funpow_add)

section \<open>What a block does\<close>

definition advance :: "nat \<Rightarrow> 'a aot_scheme outcome \<Rightarrow> 'a aot_scheme outcome" where
  "advance pc r = (case r of Done c t \<Rightarrow> Done c (t\<lparr>program_counter := of_nat (pc + 2)\<rparr>) | p \<Rightarrow> p)"

definition jump_to :: "nat \<Rightarrow> 'a aot_scheme \<Rightarrow> 'a aot_scheme outcome" where
  "jump_to a t = Done 0 (t\<lparr>program_counter := of_nat a\<rparr>)"

definition lowered :: "nat \<Rightarrow> u16 \<Rightarrow> 'a aot_scheme \<Rightarrow> 'a aot_scheme outcome" where
  "lowered pc opc t =
     (let x = unat (drop_bit 8 opc AND 15); y = unat (drop_bit 4 opc AND 15); n = unat (opc AND 15);
          kk = unat (opc AND 255); nnn = unat (opc AND 4095); k = unat (drop_bit 12 opc);
          skip = (\<lambda>c. jump_to (if c then pc + 4 else pc + 2) t) in
      if opc = 0x00e0 then advance pc (serve Aot_clear t)
      else if opc = 0x00ee then serve Aot_return t
      else if k = 0 \<or> k = 1 then jump_to nnn t
      else if k = 2 then serve (Aot_call nnn (pc + 2)) t
      else if k = 3 \<or> k = 4 then skip ((unat (regs t ! x) = kk) = (k = 3))
      else if k = 5 \<or> k = 9 then skip ((unat (regs t ! x) = unat (regs t ! y)) = (k = 5))
      else if k = 6 then advance pc (Done 0 (set_reg x (of_nat kk) t))
      else if k = 7 then advance pc (Done 0 (set_reg x (of_nat ((unat (regs t ! x) + kk) mod 256)) t))
      else if k = 8 then advance pc (serve (Aot_alu x y n) t)
      else if k = 0xa then advance pc (Done 0 (t\<lparr>addr := of_nat nnn\<rparr>))
      else if k = 0xb then jump_to ((nnn + unat (regs t ! 0)) mod 65536) t
      else if k = 0xc then advance pc (serve (Aot_random x kk) t)
      else if k = 0xd then advance pc (serve (Aot_draw x y n) t)
      else if k = 0xe then serve (Aot_key x (opc AND 255 = 0xa1)) t
      else advance pc (serve (Aot_f x kk) t))"

text \<open>An outcome, and the end of a block that comes to it.\<close>

definition resumes :: "func \<Rightarrow> 'a aot_scheme outcome \<Rightarrow> 'a aot_scheme at \<Rightarrow> bool" where
  "resumes f r p \<longleftrightarrow> (case r of Done c t \<Rightarrow> (\<exists>e. leads f p (goto f ''dispatch'' e t))
     | Hangs \<Rightarrow> leads f p Blocked | UB \<Rightarrow> leads f p Undefined_ir)"

lemma resumes_At: "resumes f r (inst_step f i c e s) \<Longrightarrow> resumes f r (At (i # c) e s)"
  by (auto simp: resumes_def intro: leads_At split: outcome.splits)

lemma resumes_dispatch: "resumes f (Done c s) (goto f ''dispatch'' e s)"
  unfolding resumes_def by (simp, rule exI, rule leads_refl)

lemma resumes_Br: "resumes f (Done c s) (At [Br ''dispatch''] e s)"
  by (rule resumes_At) (simp add: resumes_dispatch)

lemma resumes_next:
  assumes "pc < 0x1000"
  shows "resumes f (advance pc (Done c s)) (At (next_block pc) e s)"
  unfolding next_block_def advance_def using assms
  by (auto intro!: resumes_At resumes_dispatch simp: num_def cell_def resumes_dispatch)

lemma resumes_service_end: "resumes f (serve g s) (At [Call_void g, Br ''dispatch''] e s)"
  using resumes_Br by (intro resumes_At) (cases "serve g s", auto simp: resumes_def simp del: serve.simps)

lemma resumes_service_next:
  assumes "pc < 0x1000"
  shows "resumes f (advance pc (serve g s)) (At (Call_void g # next_block pc) e s)"
  using resumes_next [OF assms]
  by (intro resumes_At) (cases "serve g s", auto simp: resumes_def advance_def simp del: serve.simps)

lemma advance_simps [simp]: "advance pc Hangs = Hangs" "advance pc UB = UB"
  by (simp_all add: advance_def)

lemma mask_disjoint: "x < 16 \<Longrightarrow> y < 16 \<Longrightarrow> (push_bit x 1 AND push_bit y 1 = (0::u32)) = (x \<noteq> y)"
  unfolding push_bit_of_1 and_exp_eq_0_iff_not_bit by (auto simp: bit_simps)

lemmas mask_disjoint' [simp] = mask_disjoint [unfolded push_bit_of_1]

lemma regptr_first [simp]: "x < 16 \<Longrightarrow> regptr pc x (0, 0) = ([Getelementptr (reg_name ''r'' pc x) x], (2 ^ x, 0))"
  by (simp add: regptr_def)

lemma loadreg_first [simp]:
  "x < 16 \<Longrightarrow> loadreg pc x (0, 0) =
     ([Getelementptr (reg_name ''r'' pc x) x, Load (reg_name ''v'' pc x) I8 (At_local (reg_name ''r'' pc x))],
      (2 ^ x, 2 ^ x))"
  by (simp add: loadreg_def)

lemma loadreg_second [simp]:
  "x < 16 \<Longrightarrow> y < 16 \<Longrightarrow> fst (loadreg pc y (2 ^ x, 2 ^ x)) =
     (if x = y then []
      else [Getelementptr (reg_name ''r'' pc y) y, Load (reg_name ''v'' pc y) I8 (At_local (reg_name ''r'' pc y))])"
  by (auto simp: loadreg_def regptr_def)

lemma regptr_second [simp]: "x < 16 \<Longrightarrow> fst (regptr pc x (2 ^ x, 2 ^ x)) = []"
  by (simp add: regptr_def)


lemma resumes_jump: "n < 65536 \<Longrightarrow> resumes f (jump_to n s) (At [Store I16 (Const n) At_program_counter, Br ''dispatch''] e s)"
  unfolding jump_to_def
  by (auto intro!: resumes_At simp: num_def cell_def resumes_dispatch)

lemma resumes_skip:
  assumes "num e vx = Some m" "num e rhs = Some n" "pc < 0x1000"
  shows "resumes f (jump_to (if (m = n) = (c = Cond_eq) then pc + 4 else pc + 2) s) (At (skip_code pc c vx rhs) e s)"
  unfolding jump_to_def skip_code_def using assms
  by (intro resumes_At) (auto intro!: resumes_At simp: num_def cell_def assign_def resumes_dispatch)

lemma resumes_zext:
  assumes "e x = Some (Num m)" "n < 65536" "z \<noteq> x"
  shows "resumes f (jump_to ((n + m) mod 65536) s)
    (At [Zext z (Local x), Add j I16 (Const n) (Local z), Store I16 (Local j) At_program_counter, Br ''dispatch''] e s)"
  unfolding jump_to_def using assms
  by (auto intro!: resumes_At simp: num_def cell_def assign_def resumes_dispatch)

lemma opcode_bounds:
  "unat (drop_bit 8 opc AND 15) < 16" "unat (drop_bit 4 opc AND 15) < 16" "unat (drop_bit 12 (opc::u16)) < 16"
  "unat (opc AND 4095) < 65536"
proof -
  have "unat (drop_bit 12 opc) = unat opc div 4096" unfolding unat_drop_bit_eq by (simp add: drop_bit_eq_div)
  then show "unat (drop_bit 12 opc) < 16" using unsigned_less [of opc, where ?'a = nat] by (simp add: div_less_iff_less_mult)
  show "unat (opc AND 4095) < 65536" using unat_and_4095_less [of opc] by linarith
qed simp_all

lemma lhex_names [simp]:
  "CHR ''c'' # s \<noteq> reg_name ''v'' pc r" "CHR ''a'' # s \<noteq> reg_name ''v'' pc r" "CHR ''z'' # s \<noteq> reg_name ''v'' pc r"
  "CHR ''a'' # s \<noteq> reg_name ''r'' pc r" "reg_name ''r'' pc r \<noteq> CHR ''a'' # s"
  by (simp_all add: reg_name_def)

lemma resumes_add:
  assumes "e x = Some (Num m)" "e r = Some (Reg_ptr q)" "a \<noteq> r" "pc < 0x1000" "n < 256"
  shows "resumes f (advance pc (Done 0 (set_reg q (of_nat ((m + n) mod 256)) s)))
    (At (Add a I8 (Local x) (Const n) # Store I8 (Local a) (At_local r) # next_block pc) e s)"
  using assms
  by (intro resumes_At) (auto intro!: resumes_At resumes_next simp: num_def cell_def assign_def resumes_dispatch)

lemma loads:
  assumes "resumes f r (At k (e(reg_name ''r'' pc x \<mapsto> Reg_ptr x, reg_name ''v'' pc x \<mapsto> Num (unat (regs s ! x)))) s)"
  shows "resumes f r (At (Getelementptr (reg_name ''r'' pc x) x # Load (reg_name ''v'' pc x) I8 (At_local (reg_name ''r'' pc x)) # k) e s)"
  using assms by (intro resumes_At) (auto intro!: resumes_At simp: cell_def assign_def)

lemma resumes_skips:
  fixes pc :: nat and opc :: u16
  defines "x \<equiv> unat (drop_bit 8 opc AND 15)" and "y \<equiv> unat (drop_bit 4 opc AND 15)" and "k \<equiv> unat (drop_bit 12 opc)"
  assumes pc: "pc < 0x1000" and opc: "opc \<noteq> 0xe0" "opc \<noteq> 0xee" and k: "k = 3 \<or> k = 4 \<or> k = 5 \<or> k = 9"
  shows "resumes f (lowered pc opc s) (At (op_code pc opc) e s)"
proof -
  define c where "c = (if k = 3 \<or> k = 5 then Cond_eq else Cond_ne)"
  have x: "x < 16" "y < 16" by (simp_all add: x_def y_def)
  let ?e = "e(reg_name ''r'' pc x \<mapsto> Reg_ptr x, reg_name ''v'' pc x \<mapsto> Num (unat (regs s ! x)))"
  consider "k = 3 \<or> k = 4" | "k = 5 \<or> k = 9" using k by blast
  then show ?thesis
  proof cases
    case 1
    have "lowered pc opc s = jump_to (if (unat (regs s ! x) = unat (opc AND 255)) = (c = Cond_eq) then pc + 4 else pc + 2) s"
      unfolding lowered_def x_def c_def Let_def using 1 opc unfolding k_def by auto
    moreover have "op_code pc opc = Getelementptr (reg_name ''r'' pc x) x #
        Load (reg_name ''v'' pc x) I8 (At_local (reg_name ''r'' pc x)) #
        skip_code pc c (Local (reg_name ''v'' pc x)) (Const (unat (opc AND 255)))"
      unfolding op_code_def x_def c_def Let_def using 1 opc unfolding k_def by auto
    ultimately show ?thesis
      using pc by (simp only:) (rule loads, rule resumes_skip, simp_all add: num_def)
  next
    case 2
    have "lowered pc opc s = jump_to (if (unat (regs s ! x) = unat (regs s ! y)) = (c = Cond_eq) then pc + 4 else pc + 2) s"
      unfolding lowered_def x_def y_def c_def Let_def using 2 opc unfolding k_def by auto
    moreover have "op_code pc opc = Getelementptr (reg_name ''r'' pc x) x #
        Load (reg_name ''v'' pc x) I8 (At_local (reg_name ''r'' pc x)) #
        (if x = y then [] else [Getelementptr (reg_name ''r'' pc y) y,
          Load (reg_name ''v'' pc y) I8 (At_local (reg_name ''r'' pc y))]) @
        skip_code pc c (Local (reg_name ''v'' pc x)) (Local (reg_name ''v'' pc y))"
      unfolding op_code_def x_def y_def c_def Let_def using 2 opc unfolding k_def
      by (auto simp: split_beta)
    moreover have "resumes f (jump_to (if (unat (regs s ! x) = unat (regs s ! y)) = (c = Cond_eq) then pc + 4 else pc + 2) s)
       (At ((if x = y then [] else [Getelementptr (reg_name ''r'' pc y) y,
          Load (reg_name ''v'' pc y) I8 (At_local (reg_name ''r'' pc y))]) @
        skip_code pc c (Local (reg_name ''v'' pc x)) (Local (reg_name ''v'' pc y))) ?e s)"
    proof (cases "x = y")
      case True
      have "resumes f (jump_to (if (unat (regs s ! y) = unat (regs s ! y)) = (c = Cond_eq) then pc + 4 else pc + 2) s)
          (At (skip_code pc c (Local (reg_name ''v'' pc y)) (Local (reg_name ''v'' pc y))) ?e s)"
        by (rule resumes_skip) (use pc True in \<open>simp_all add: num_def\<close>)
      with True show ?thesis by simp
    next
      case False
      then show ?thesis using pc by (simp only: if_False append_Cons append_Nil) (rule loads, rule resumes_skip, simp_all add: num_def)
    qed
    ultimately show ?thesis by (simp only:) (rule loads)
  qed
qed

lemma resumes_stores:
  assumes "pc < 0x1000"
  shows "n < 256 \<Longrightarrow> resumes f (advance pc (Done 0 (set_reg x (of_nat n) s)))
      (At (Getelementptr r x # Store I8 (Const n) (At_local r) # next_block pc) e s)"
    and "n < 65536 \<Longrightarrow> resumes f (advance pc (Done 0 (s\<lparr>addr := of_nat n\<rparr>)))
      (At (Store I16 (Const n) At_addr # next_block pc) e s)"
  using assms
  by (intro resumes_At, auto intro!: resumes_At resumes_next simp: num_def cell_def assign_def resumes_dispatch)+

theorem resumes_op_code:
  assumes "pc < 0x1000"
  shows "resumes f (lowered pc opc s) (At (op_code pc opc) e s)"
proof (cases "opc = 0xe0 \<or> opc = 0xee")
  case True
  then show ?thesis
    using assms by (auto simp: lowered_def op_code_def Let_def resumes_service_end resumes_service_next simp del: serve.simps)
next
  case False
  let ?x = "unat (drop_bit 8 opc AND 15)" and ?kk = "unat (opc AND 255)" and ?n = "unat (opc AND 4095)"
  have kk: "?kk < 256" and n: "?n < 65536" by (rule unat_and_255_less, rule opcode_bounds)
  note defs = lowered_def op_code_def Let_def split_beta
  from False show ?thesis
    apply (rule_tac less_16_cases [OF opcode_bounds(3) [of opc]])
    apply (simp_all add: resumes_skips assms)
    apply (simp_all add: defs opcode_bounds assms resumes_jump resumes_service_end resumes_service_next del: serve.simps)
    subgoal using resumes_stores(1) [OF assms kk, of f ?x s "reg_name ''r'' pc ?x" e] by simp
    subgoal by (rule loads, rule resumes_add) (use kk assms in simp_all)
    subgoal using resumes_stores(2) [OF assms n, of f s e] by simp
    subgoal by (rule loads, rule resumes_zext) (use n in simp_all)
  done
qed

section \<open>The function\<close>

text \<open>The ROMs \<^verbatim>\<open>main\<close> accepts.\<close>

definition rom_ok :: "u8 list \<Rightarrow> bool" where
  "rom_ok rom \<longleftrightarrow> rom \<noteq> [] \<and> even (length rom) \<and> length rom \<le> MEMORY_SIZE - ENTRYPOINT"

lemma rom_offsets_iff: "rom_ok rom \<Longrightarrow> i \<in> set (rom_offsets rom) \<longleftrightarrow> even i \<and> i < length rom"
  by (auto simp: rom_offsets_def rom_ok_def elim!: evenE)

lemma rom_offset_bound: "rom_ok rom \<Longrightarrow> i \<in> set (rom_offsets rom) \<Longrightarrow> 512 + i < 0x1000"
  by (auto simp: rom_offsets_iff) (simp add: rom_ok_def size_defs)

lemma blocks_found:
  assumes "j \<in> set js"
  shows "map_of (concat (map (\<lambda>i. aot_block (a + i) (w i)) js) @ f) (''pc'' @ lhex (a + j)) =
      Some [Call_retire (''stop'' @ lhex (a + j)),
        Br_cond (Local (''stop'' @ lhex (a + j))) ''exit'' (''op'' @ lhex (a + j))]"
    and "map_of (concat (map (\<lambda>i. aot_block (a + i) (w i)) js) @ f) (''op'' @ lhex (a + j)) =
      Some (op_code (a + j) (w j))"
  using assms by (induction js) (auto simp: aot_block_def)

lemma blocks_others:
  "map_of (concat (map (\<lambda>i. aot_block (a + i) (w i)) js) @ f) ''exit'' = map_of f ''exit''"
  by (induction js) (auto simp: aot_block_def)

lemma aot_func_frame:
  "map_of (aot_func rom) ''exit'' = Some [Ret_void]"
  "map_of (aot_func rom) ''dispatch'' = Some (snd (dispatch_block rom))"
  "map_of (aot_func rom) ''entry'' = Some [Br ''dispatch'']"
  using blocks_others by (simp_all add: aot_func_def dispatch_block_def del: map_of_append)

lemma aot_func_blocks:
  assumes "j \<in> set (rom_offsets rom)"
  shows "map_of (aot_func rom) (''pc'' @ lhex (512 + j)) =
      Some [Call_retire (''stop'' @ lhex (512 + j)),
        Br_cond (Local (''stop'' @ lhex (512 + j))) ''exit'' (''op'' @ lhex (512 + j))]"
    and "map_of (aot_func rom) (''op'' @ lhex (512 + j)) = Some (op_code (512 + j) (rom_word rom j))"
  using blocks_found [OF assms, of 512 "rom_word rom"]
  by (simp_all add: aot_func_def dispatch_block_def ENTRYPOINT_def del: map_of_append)

lemma switch_cases:
  "map_of (map (\<lambda>i. (a + i, ''pc'' @ lhex (a + i))) js) n =
    (if a \<le> n \<and> n - a \<in> set js then Some (''pc'' @ lhex n) else None)"
  by (induction js) auto

text \<open>Outside the ROM, and at its odd addresses, the dispatcher leaves the function.\<close>

lemma dispatch_goes:
  "leads (aot_func rom) (goto (aot_func rom) ''dispatch'' e t)
     (goto (aot_func rom) (if 512 \<le> unat (program_counter t) \<and> unat (program_counter t) - 512 \<in> set (rom_offsets rom)
        then ''pc'' @ lhex (unat (program_counter t)) else ''exit'')
      (e(''pc'' \<mapsto> Num (unat (program_counter t)))) t)"
  using switch_cases [of 512 "rom_offsets rom" "unat (program_counter t)"]
  by (auto simp: goto_def [of _ "''dispatch''"] aot_func_frame dispatch_block_def ENTRYPOINT_def cell_def assign_def num_def
      intro!: leads_At)

lemma leaves: "leads (aot_func rom) (goto (aot_func rom) ''exit'' e t) (Returned t)"
  by (auto simp: goto_def aot_func_frame intro!: leads_At)

lemma dispatch_leaves:
  assumes "\<not> (512 \<le> unat (program_counter t) \<and> unat (program_counter t) - 512 \<in> set (rom_offsets rom))"
  shows "leads (aot_func rom) (goto (aot_func rom) ''dispatch'' e t) (Returned t)"
  by (rule leads_trans [OF dispatch_goes]) (unfold if_not_P [OF assms], rule leaves)

text \<open>At an address of the ROM: count and poll, then the ROM's word, or leave on the quit key.\<close>

lemma dispatch_executes:
  assumes j: "rom_ok rom" "j \<in> set (rom_offsets rom)" "program_counter t = of_nat (512 + j)"
    and r: "chip8_aot_retire t = (stop, t1)"
  shows "stop \<Longrightarrow> leads (aot_func rom) (goto (aot_func rom) ''dispatch'' e t) (Returned t1)"
    and "\<not> stop \<Longrightarrow> resumes (aot_func rom) (lowered (512 + j) (rom_word rom j) t1) (goto (aot_func rom) ''dispatch'' e t)"
proof -
  have b: "512 + j < 0x1000" using rom_offset_bound [OF j(1,2)] .
  then have "unat (of_nat (512 + j) :: u16) = 512 + j" by (intro of_nat_inverse [OF refl]) simp
  then have pc: "unat (program_counter t) = 512 + j" by (simp only: j(3))
  let ?f = "aot_func rom" and ?e = "e(''pc'' \<mapsto> Num (512 + j), ''stop'' @ lhex (512 + j) \<mapsto> Num (of_bool stop))"
  have "leads ?f (goto ?f ''dispatch'' e t) (goto ?f (''pc'' @ lhex (512 + j)) (e(''pc'' \<mapsto> Num (512 + j))) t)"
    using dispatch_goes [of rom e t] j(2) by (simp add: pc)
  moreover have "leads ?f (goto ?f (''pc'' @ lhex (512 + j)) (e(''pc'' \<mapsto> Num (512 + j))) t)
      (goto ?f (if stop then ''exit'' else ''op'' @ lhex (512 + j)) ?e t1)"
    unfolding goto_def [of ?f "''pc'' @ lhex (512 + j)"] aot_func_blocks(1) [OF j(2)]
    by (auto intro!: leads_At simp: r assign_def num_def)
  ultimately have to: "leads ?f (goto ?f ''dispatch'' e t) (goto ?f (if stop then ''exit'' else ''op'' @ lhex (512 + j)) ?e t1)"
    by (rule leads_trans)
  show "stop \<Longrightarrow> leads ?f (goto ?f ''dispatch'' e t) (Returned t1)"
    using leads_trans [OF to] leaves [of rom ?e t1] by simp
  have "resumes ?f (lowered (512 + j) (rom_word rom j) t1) (goto ?f (''op'' @ lhex (512 + j)) ?e t1)"
    unfolding goto_def aot_func_blocks(2) [OF j(2)] option.case by (rule resumes_op_code [OF b])
  then show "resumes ?f (lowered (512 + j) (rom_word rom j) t1) (goto ?f ''dispatch'' e t)" if "\<not> stop"
    using leads_trans [OF to] that by (auto simp: resumes_def split: outcome.splits)
qed

section \<open>Well-formed functions\<close>

text \<open>
  What LLVM's verifier asks of the function: labels and values have different names, each value
  is defined before it is used and used at its type, constants fit their type, a block ends with its
  only branch or return, and branches go to blocks other than the entry.
\<close>

datatype kind = K_ptr | K_int llty

type_synonym ctx = "string \<Rightarrow> kind option"

definition op_ok :: "ctx \<Rightarrow> llty \<Rightarrow> operand \<Rightarrow> bool" where
  "op_ok g t v = (case v of Const n \<Rightarrow> n < 2 ^ bits t | Local x \<Rightarrow> g x = Some (K_int t))"

definition ptr_ok :: "ctx \<Rightarrow> llty \<Rightarrow> pointer \<Rightarrow> bool" where
  "ptr_ok g t p = (case p of At_local x \<Rightarrow> g x = Some K_ptr \<and> t = I8 | _ \<Rightarrow> t = I16)"

fun service_ok :: "service \<Rightarrow> bool" where
  "service_ok Aot_clear = True"
| "service_ok Aot_return = True"
| "service_ok (Aot_call dst ret) \<longleftrightarrow> dst < 65536 \<and> ret < 65536"
| "service_ok (Aot_alu x y n) \<longleftrightarrow> x < 16 \<and> y < 16 \<and> n < 256"
| "service_ok (Aot_random x k) \<longleftrightarrow> x < 16 \<and> k < 256"
| "service_ok (Aot_draw x y n) \<longleftrightarrow> x < 16 \<and> y < 16 \<and> n < 256"
| "service_ok (Aot_key x up) \<longleftrightarrow> x < 16"
| "service_ok (Aot_f x k) \<longleftrightarrow> x < 16 \<and> k < 256"
| "service_ok (Aot_bad opc pc) \<longleftrightarrow> opc < 65536 \<and> pc < 65536"

text \<open>What an instruction defines.\<close>

fun result :: "inst \<Rightarrow> (string \<times> kind) option" where
  "result (Getelementptr d r) = Some (d, K_ptr)"
| "result (Load d t p) = Some (d, K_int t)"
| "result (Icmp d c v w) = Some (d, K_int I1)"
| "result (Select d v m n) = Some (d, K_int I16)"
| "result (Add d t v w) = Some (d, K_int t)"
| "result (Zext d v) = Some (d, K_int I16)"
| "result (Call_retire d) = Some (d, K_int I1)"
| "result _ = None"

fun inst_ok :: "string set \<Rightarrow> ctx \<Rightarrow> inst \<Rightarrow> bool" where
  "inst_ok ls g (Getelementptr d r) \<longleftrightarrow> r < 16"
| "inst_ok ls g (Load d t p) \<longleftrightarrow> ptr_ok g t p"
| "inst_ok ls g (Store t v p) \<longleftrightarrow> op_ok g t v \<and> ptr_ok g t p"
| "inst_ok ls g (Icmp d c v w) \<longleftrightarrow> op_ok g I8 v \<and> op_ok g I8 w"
| "inst_ok ls g (Select d v m n) \<longleftrightarrow> op_ok g I1 v \<and> m < 65536 \<and> n < 65536"
| "inst_ok ls g (Add d t v w) \<longleftrightarrow> op_ok g t v \<and> op_ok g t w"
| "inst_ok ls g (Zext d v) \<longleftrightarrow> op_ok g I8 v"
| "inst_ok ls g (Call_retire d) \<longleftrightarrow> True"
| "inst_ok ls g (Call_void f) \<longleftrightarrow> service_ok f"
| "inst_ok ls g (Br l) \<longleftrightarrow> l \<in> ls"
| "inst_ok ls g (Br_cond v l1 l2) \<longleftrightarrow> op_ok g I1 v \<and> l1 \<in> ls \<and> l2 \<in> ls"
| "inst_ok ls g (Switch v l cases) \<longleftrightarrow> op_ok g I16 v \<and> l \<in> ls \<and> distinct (map fst cases) \<and>
     (\<forall>(n, l1)\<in>set cases. n < 65536 \<and> l1 \<in> ls)"
| "inst_ok ls g Ret_void \<longleftrightarrow> True"

fun terminator :: "inst \<Rightarrow> bool" where
  "terminator (Br l) = True" | "terminator (Br_cond v l1 l2) = True" | "terminator (Switch v l cases) = True"
| "terminator Ret_void = True" | "terminator _ = False"

fun block_ok :: "string set \<Rightarrow> ctx \<Rightarrow> inst list \<Rightarrow> bool" where
  "block_ok ls g [] = False"
| "block_ok ls g (i # c) \<longleftrightarrow> inst_ok ls g i \<and> (if terminator i then c = []
     else block_ok ls (case result i of None \<Rightarrow> g | Some (d, k) \<Rightarrow> g(d \<mapsto> k)) c)"

definition block_names :: "inst list \<Rightarrow> string list" where
  "block_names c = concat (map (\<lambda>i. case result i of None \<Rightarrow> [] | Some (d, k) \<Rightarrow> [d]) c)"

definition func_ok :: "func \<Rightarrow> bool" where
  "func_ok f \<longleftrightarrow> distinct (concat (map (\<lambda>(l, c). l # block_names c) f)) \<and>
     (\<forall>(l, c)\<in>set f. block_ok (set (map fst (tl f))) Map.empty c)"

text \<open>The address in a name; a name without one is of the dispatcher.\<close>

definition owner :: "string \<Rightarrow> string" where
  "owner n = take 3 (drop (case n of [] \<Rightarrow> 0 | c # _ \<Rightarrow>
     if c = CHR ''o'' then 2 else if c = CHR ''s'' then 4
     else if c = CHR ''p'' then length n - 3 else 1) n)"

lemma length_name:
  assumes "512 \<le> pc" "pc < 0x1000"
  shows "length (lhex pc) = 3"
  using assms by (intro length_lhex) simp_all

lemma owners:
  assumes "512 \<le> pc" "pc < 0x1000"
  shows "owner (''pc'' @ lhex pc) = lhex pc" "owner (''op'' @ lhex pc) = lhex pc" "owner (''stop'' @ lhex pc) = lhex pc"
    "owner (''c'' @ lhex pc) = lhex pc" "owner (''p'' @ lhex pc) = lhex pc" "owner (''a'' @ lhex pc) = lhex pc"
    "owner (''z'' @ lhex pc) = lhex pc" "owner (''j'' @ lhex pc) = lhex pc"
    "owner (reg_name ''r'' pc x) = lhex pc" "owner (reg_name ''v'' pc x) = lhex pc"
  using length_name [OF assms] by (simp_all add: owner_def reg_name_def)

lemma op_code_ok:
  assumes "512 \<le> pc" "pc < 0x1000" "''dispatch'' \<in> ls" "''exit'' \<in> ls"
  shows "block_ok ls Map.empty (op_code pc opc) \<and> distinct (block_names (op_code pc opc)) \<and>
    (\<forall>n\<in>set (block_names (op_code pc opc)). owner n = lhex pc \<and> hd n \<notin> {CHR ''o'', CHR ''s''} \<and> n \<noteq> ''pc'' @ lhex pc)"
proof (cases "opc = 0xe0 \<or> opc = 0xee")
  case True
  then show ?thesis
    using assms by (auto simp: op_code_def block_names_def next_block_def op_ok_def ptr_ok_def)
next
  case False
  let ?x = "unat (drop_bit 8 opc AND 15)" and ?kk = "unat (opc AND 255)" and ?n = "unat (opc AND 4095)"
  have kk: "?kk < 256" and n: "?n < 65536" by (rule unat_and_255_less, rule opcode_bounds)
  have n15: "unat (opc AND 15) < 256" using unat_and_15_less [of opc] by linarith
  have pc: "pc < 65534" "pc + 4 < 65536" "Suc (Suc pc) < 65536" using assms(2) by simp_all
  have start: "reg_name ''r'' pc r = c # s \<longleftrightarrow> c = CHR ''r'' \<and> s = lhex pc @ ''_'' @ lhex r"
      "reg_name ''v'' pc r = c # s \<longleftrightarrow> c = CHR ''v'' \<and> s = lhex pc @ ''_'' @ lhex r"
      "hd (reg_name ''r'' pc r) = CHR ''r''" "hd (reg_name ''v'' pc r) = CHR ''v''" for r c s
    by (auto simp: reg_name_def)
  note own = owners [OF assms(1,2), simplified]
  from False show ?thesis
    apply (rule_tac less_16_cases [OF opcode_bounds(3) [of opc]])
    apply (simp_all add: op_code_def Let_def split_beta)
    apply (simp_all add: block_names_def next_block_def skip_code_def op_ok_def ptr_ok_def assms opcode_bounds kk n n15 pc own start)
  done
qed

lemma lhex_codes: "c \<in> set (lhex n) \<Longrightarrow> code c \<le> 102"
proof -
  assume "c \<in> set (lhex n)"
  then obtain d where "d \<in> set (hex n)" "c = tolower d" by (auto simp: lhex_def)
  moreover from this obtain k where "k < 16" "d = hexd k" using hex_char_hex [of d n] by (auto simp: hex_char_def)
  ultimately show "code c \<le> 102" by (simp add: tolower_hexd)
qed

lemma owner_dispatcher:
  assumes "512 \<le> pc" "pc < 0x1000" "n \<in> {''entry'', ''dispatch'', ''exit'', ''pc''}"
  shows "owner n \<noteq> lhex pc"
proof
  assume o: "owner n = lhex pc"
  have "length (owner n) = 3" using length_name [OF assms(1,2)] o by simp
  moreover have "owner ''entry'' = ''ntr''" "owner ''dispatch'' = ''isp''" "owner ''exit'' = ''xit''" "owner ''pc'' = ''pc''"
    by (simp_all add: owner_def take_Cons')
  ultimately have "lhex pc = ''ntr'' \<or> lhex pc = ''isp'' \<or> lhex pc = ''xit''" using assms(3) o by auto
  then have "CHR ''t'' \<in> set (lhex pc) \<or> CHR ''s'' \<in> set (lhex pc)" by fastforce
  then obtain c where "c \<in> set (lhex pc)" "c \<in> {CHR ''t'', CHR ''s''}" by blast
  then show False using lhex_codes [of c pc] by (auto simp: code_def)
qed

definition names_of :: "func \<Rightarrow> string list" where
  "names_of f = concat (map (\<lambda>(l, c). l # block_names c) f)"

lemma names_of_append [simp]: "names_of (f @ g) = names_of f @ names_of g" "names_of (b # g) = (fst b # block_names (snd b)) @ names_of g"
    "names_of [] = []"
  by (simp_all add: names_of_def split_beta)

lemma block_pair_ok:
  assumes "512 \<le> pc" "pc < 0x1000"
  shows "distinct (names_of (aot_block pc opc))" "n \<in> set (names_of (aot_block pc opc)) \<Longrightarrow> owner n = lhex pc"
proof -
  note ok = op_code_ok [OF assms, of "{''dispatch'', ''exit''}" opc]
  then show "distinct (names_of (aot_block pc opc))"
    by (auto simp: aot_block_def block_names_def [of "[_, _]"])
  show "owner n = lhex pc" if "n \<in> set (names_of (aot_block pc opc))"
    using that ok owners [OF assms] by (auto simp: aot_block_def block_names_def [of "[_, _]"])
qed

lemma names_of_concat: "names_of (concat fs) = concat (map names_of fs)"
  by (induction fs) simp_all

lemma distinct_concat_owner:
  assumes "distinct js" "\<And>j. j \<in> set js \<Longrightarrow> distinct (g j)"
    "\<And>j n. j \<in> set js \<Longrightarrow> n \<in> set (g j) \<Longrightarrow> f n = h j" "inj h"
  shows "distinct (concat (map g js))"
  using assms
proof (induction js)
  case (Cons j js)
  have "n \<notin> set (g i)" if n: "n \<in> set (g j)" and i: "i \<in> set js" for n i
  proof
    assume "n \<in> set (g i)"
    then have "h i = h j" using Cons.prems(3) n i by (metis list.set_intros)
    then show False using injD [OF Cons.prems(4)] Cons.prems(1) i by auto
  qed
  then have "set (g j) \<inter> set (concat (map g js)) = {}" by auto
  moreover have "distinct (concat (map g js))" by (rule Cons.IH) (use Cons.prems in simp_all)
  ultimately show ?case using Cons.prems(2) [of j] by simp
qed simp

lemma distinct_offsets: "distinct (rom_offsets rom)"
  by (simp add: rom_offsets_def distinct_map inj_on_def)

lemma aot_func_ok:
  assumes "rom_ok rom"
  shows "func_ok (aot_func rom)"
proof -
  let ?bs = "\<lambda>i. aot_block (512 + i) (rom_word rom i)" and ?js = "rom_offsets rom"
  define ls where "ls = set (map fst (tl (aot_func rom)))"
  have b: "512 \<le> 512 + j" "512 + j < 0x1000" if "j \<in> set ?js" for j
    using rom_offset_bound [OF assms that] by simp_all
  have d: "distinct (concat (map (\<lambda>j. names_of (?bs j)) ?js))"
    by (rule distinct_concat_owner [where f = owner and h = "\<lambda>j. lhex (512 + j)"])
      (use block_pair_ok b distinct_offsets in \<open>auto intro: injI\<close>)
  have o: "n \<notin> {''entry'', ''dispatch'', ''exit'', ''pc''}" if "n \<in> set (concat (map (\<lambda>j. names_of (?bs j)) ?js))" for n
  proof -
    obtain j where j: "j \<in> set ?js" "n \<in> set (names_of (?bs j))" using \<open>n \<in> _\<close> by auto
    show ?thesis using block_pair_ok(2) [OF b [OF j(1)] j(2)] owner_dispatcher [OF b [OF j(1)], of n] by blast
  qed
  have names: "names_of (aot_func rom) =
      [''entry'', ''dispatch'', ''pc''] @ concat (map (\<lambda>j. names_of (?bs j)) ?js) @ [''exit'']"
    by (simp add: aot_func_def names_of_concat o_def dispatch_block_def block_names_def ENTRYPOINT_def)
  have "distinct (names_of (aot_func rom))" unfolding names using d o by auto
  moreover have "block_ok ls Map.empty c" if lc: "(l, c) \<in> set (aot_func rom)" for l c
  proof -
    have ls': "''dispatch'' \<in> ls" "''exit'' \<in> ls" by (simp_all add: ls_def aot_func_def dispatch_block_def)
    have ls: "''pc'' @ lhex (512 + j) \<in> ls" "''op'' @ lhex (512 + j) \<in> ls" if "j \<in> set ?js" for j
    proof -
      have "set (map fst (?bs j)) \<subseteq> ls" using that by (auto simp: ls_def aot_func_def ENTRYPOINT_def)
      then show "''pc'' @ lhex (512 + j) \<in> ls" "''op'' @ lhex (512 + j) \<in> ls" by (auto simp: aot_block_def)
    qed
    consider "c = [Br ''dispatch'']" | "c = [Ret_void]" | "c = snd (dispatch_block rom)"
      | j where "j \<in> set ?js" "(l, c) \<in> set (?bs j)"
      using lc by (auto simp: aot_func_def ENTRYPOINT_def dispatch_block_def)
    then show ?thesis
    proof cases
      case 3
      have "j < 65024" if "j \<in> set ?js" for j using b(2) [OF that] by simp
      then show ?thesis using 3 ls ls' distinct_offsets
        by (auto simp: dispatch_block_def op_ok_def ptr_ok_def ENTRYPOINT_def distinct_map o_def inj_on_def)
    next
      case (4 j)
      then show ?thesis using ls ls' op_code_ok [OF b ls'] by (auto simp: aot_block_def op_ok_def)
    qed (use ls' in simp_all)
  qed
  ultimately show ?thesis by (auto simp: func_ok_def names_of_def ls_def)
qed

end
