(* ===== verification/C8_Interp_Live.thy ===== *)
theory C8_Interp_Live
  imports C8_Interp_Bench C8_Interp_Total
begin

text \<open>
  Waiting in the interactive build: the frame sync of \<^verbatim>\<open>draw\<close> and the elided delay loop wait for
  the clock, \<^verbatim>\<open>Fx0A\<close> waits for the user. A host whose clock never stands still and whose user
  presses a key now and then gets the interpreter through every instruction.
\<close>

section \<open>The host\<close>

definition ticking :: "'a vm_scheme \<Rightarrow> bool" where
  "ticking s \<longleftrightarrow> (\<forall>m v. \<exists>n\<ge>m. (clock_nsec s n div NANOS_PER_TICK) mod TICKS_PER_SECOND \<noteq> v)"

definition pressing :: "'a vm_scheme \<Rightarrow> bool" where
  "pressing s \<longleftrightarrow> (\<forall>m. \<exists>n\<ge>m. \<exists>key\<in>set (key_polls s n). key_mask key \<noteq> 0)"

definition lively :: "'a vm_scheme \<Rightarrow> bool" where
  "lively s \<longleftrightarrow> ticking s \<and> pressing s"

lemma lively_cong: "clock_nsec t = clock_nsec s \<Longrightarrow> key_polls t = key_polls s \<Longrightarrow> lively t = lively s"
  by (simp add: lively_def ticking_def pressing_def)

lemma host_frame [simp]:
  "clock_nsec (interrupt b s) = clock_nsec s" "key_polls (interrupt b s) = key_polls s"
  "clock_nsec (clear_key b k s) = clock_nsec s" "key_polls (clear_key b k s) = key_polls s"
  "clock_nsec (snd (all_keys_down b s)) = clock_nsec s" "key_polls (snd (all_keys_down b s)) = key_polls s"
  "clock_nsec (snd (read_keys_io b s)) = clock_nsec s" "key_polls (snd (read_keys_io b s)) = key_polls s"
  "clock_nsec (clearscreen_io b s) = clock_nsec s" "key_polls (clearscreen_io b s) = key_polls s"
  "clock_nsec (snd (draw_io b x y n mem s)) = clock_nsec s" "key_polls (snd (draw_io b x y n mem s)) = key_polls s"
  by (cases b; simp add: sync_timers_def Let_def read_keys_ncurses_def bench_clear_key_def bench_roll_tick_def bench_keys_now_def
      bench_poll_keys_def clearscreen_io_bench_def clearscreen_io_ncurses_def draw_io_bench_def draw_io_ncurses_def split_beta)+

lemma lively_upds:
  "lively (regs_update f s) = lively s" "lively (memory_update g s) = lively s" "lively (s\<lparr>program_counter := a\<rparr>) = lively s"
  "lively (s\<lparr>addr := a\<rparr>) = lively s" "lively (s\<lparr>opcode := a\<rparr>) = lively s" "lively (s\<lparr>delay_timer := v\<rparr>) = lively s"
  "lively (s\<lparr>sound_timer := v\<rparr>) = lively s" "lively (s\<lparr>last_tick := i\<rparr>) = lively s" "lively (s\<lparr>rand_pos := n\<rparr>) = lively s"
  "lively (s\<lparr>clock_pos := n\<rparr>) = lively s" "lively (s\<lparr>stack_pointer := q\<rparr>) = lively s"
  "lively (s\<lparr>stack := st\<rparr>) = lively s" "lively (s\<lparr>stack := st, stack_pointer := q\<rparr>) = lively s"
  "lively (interrupt b s) = lively s" "lively (clear_key b k s) = lively s" "lively (snd (all_keys_down b s)) = lively s"
  "lively (snd (read_keys_io b s)) = lively s" "lively (clearscreen_io b s) = lively s"
  "lively (snd (draw_io b x y n mem s)) = lively s"
  by (simp_all add: lively_def ticking_def pressing_def
      del: interrupt.simps clear_key.simps all_keys_down.simps read_keys_io.simps clearscreen_io.simps draw_io.simps)

text \<open>What the host is like never changes.\<close>

interpretation live: vm_stable lively
  by unfold_locales (simp_all only: lively_upds)

section \<open>Waiting for the clock\<close>

lemma wait_tick_step:
  "wait_tick s = (let (t, s1) = tick INTERACTIVE s in if t = last_tick s1 then wait_tick s1 else Some (t, s1))"
  by (subst wait_tick.simps) simp

lemma next_tick:
  assumes "ticking s"
  obtains d where "int ((clock_nsec s (clock_pos s + d) div NANOS_PER_TICK) mod TICKS_PER_SECOND) \<noteq> last_tick s"
proof -
  obtain n where "n \<ge> clock_pos s" "(clock_nsec s n div NANOS_PER_TICK) mod TICKS_PER_SECOND \<noteq> nat (last_tick s)"
    using assms unfolding ticking_def by blast
  then show thesis by (intro that [of "n - clock_pos s"]) auto
qed

lemma wait_tick_returns:
  assumes "ticking s"
  shows "\<exists>m v. wait_tick s = Some (v, s\<lparr>clock_pos := m\<rparr>)"
proof -
  have "\<exists>m v. wait_tick s = Some (v, s\<lparr>clock_pos := m\<rparr>)"
    if "int ((clock_nsec s (clock_pos s + d) div NANOS_PER_TICK) mod TICKS_PER_SECOND) \<noteq> last_tick s" for d
    using that
  proof (induction d arbitrary: s)
    case 0
    then show ?case by (subst wait_tick_step) auto
  next
    case (Suc d)
    let ?s = "s\<lparr>clock_pos := Suc (clock_pos s)\<rparr>"
    have "\<exists>m v. wait_tick ?s = Some (v, ?s\<lparr>clock_pos := m\<rparr>)" by (rule Suc.IH) (use Suc.prems in simp_all)
    then show ?case by (subst wait_tick_step) (auto simp: Let_def)
  qed
  with next_tick [OF assms] show ?thesis by blast
qed

lemma interrupt_ticks:
  fixes s :: "'a vm_scheme"
  defines "now \<equiv> int ((clock_nsec s (clock_pos s) div NANOS_PER_TICK) mod TICKS_PER_SECOND)"
  shows "clock_pos (interrupt INTERACTIVE s) = Suc (clock_pos s)" "last_tick (interrupt INTERACTIVE s) = now"
    "delay_timer (interrupt INTERACTIVE s) = (if now \<noteq> last_tick s \<and> delay_timer s \<noteq> 0 then delay_timer s - 1 else delay_timer s)"
  by (simp_all add: now_def Let_def read_keys_ncurses_def word_gt_0)

lemma idle_loop_returns:
  fixes s :: "'a vm_scheme"
  shows "ticking s \<Longrightarrow> idle_loop s \<noteq> None"
proof (induction "unat (delay_timer s)" arbitrary: s rule: less_induct)
  case less
  have less_u: "v \<noteq> 0 \<Longrightarrow> unat (v - 1) < unat v" for v :: u8
    using unat_gt_0 [of v] by (simp add: unat_minus_one)
  have "idle_loop t \<noteq> None"
    if "int ((clock_nsec t (clock_pos t + d) div NANOS_PER_TICK) mod TICKS_PER_SECOND) \<noteq> last_tick t"
      "ticking t" "delay_timer t = delay_timer s" for d and t :: "'a vm_scheme"
    using that
  proof (induction d arbitrary: t)
    case 0
    let ?t = "interrupt INTERACTIVE t"
    have "idle_loop ?t \<noteq> None" if "delay_timer t \<noteq> 0"
    proof (rule less.hyps)
      show "unat (delay_timer ?t) < unat (delay_timer s)"
        using 0 that less_u by (simp add: interrupt_ticks del: interrupt.simps)
      show "ticking ?t" using 0(2) by (simp add: ticking_def del: interrupt.simps)
    qed
    then show ?case by (subst idle_loop.simps) (simp del: interrupt.simps)
  next
    case (Suc d)
    let ?t = "interrupt INTERACTIVE t"
    show ?case
    proof (cases "last_tick ?t = last_tick t")
      case True
      have "idle_loop ?t \<noteq> None"
      proof (rule Suc.IH)
        show "delay_timer ?t = delay_timer s"
          using True Suc.prems(3) interrupt_ticks(2,3) [of t] by (simp del: interrupt.simps)
        show "ticking ?t" using Suc.prems(2) by (simp add: ticking_def del: interrupt.simps)
      qed (use Suc.prems(1) True in \<open>simp add: interrupt_ticks(1) del: interrupt.simps\<close>)
      then show ?thesis by (subst idle_loop.simps) (simp del: interrupt.simps)
    next
      case False
      have "idle_loop ?t \<noteq> None" if "delay_timer t \<noteq> 0"
      proof (rule less.hyps)
        show "unat (delay_timer ?t) < unat (delay_timer s)"
          using False Suc.prems(3) that interrupt_ticks(2,3) [of t] less_u by (simp del: interrupt.simps)
        show "ticking ?t" using Suc.prems(2) by (simp add: ticking_def del: interrupt.simps)
      qed
      then show ?thesis by (subst idle_loop.simps) (simp del: interrupt.simps)
    qed
  qed
  with next_tick [OF less.prems] less.prems show ?case by blast
qed

section \<open>Waiting for the user\<close>

lemma fold_or_mono: "m \<noteq> (0::u32) \<Longrightarrow> fold (\<lambda>key keys. keys OR key_mask key) ks m \<noteq> 0"
proof (induction ks arbitrary: m)
  case (Cons k ks)
  then show ?case by (simp add: or_eq_0_iff)
qed simp

lemma key_seen: "key \<in> set ks \<Longrightarrow> key_mask key \<noteq> 0 \<Longrightarrow> fold (\<lambda>key keys. keys OR key_mask key) ks m \<noteq> 0"
proof (induction ks arbitrary: m)
  case (Cons k ks)
  then show ?case using fold_or_mono [of "m OR key_mask k" ks] by (auto simp: or_eq_0_iff)
qed simp

lemma poll_loop_returns:
  assumes "pressing s"
  shows "poll_loop INTERACTIVE s \<noteq> None"
proof -
  obtain n key where n: "n \<ge> poll_pos s" "key \<in> set (key_polls s n)" "key_mask key \<noteq> 0"
    using assms unfolding pressing_def by blast
  have "poll_loop INTERACTIVE t \<noteq> None" if "n = poll_pos t + d" "key_polls t = key_polls s" for d and t :: "'a vm_scheme"
    using that
  proof (induction d arbitrary: t)
    case 0
    then show ?case using key_seen [OF n(2,3), of 0] by (subst poll_loop.simps) (simp add: read_keys_ncurses_def)
  next
    case (Suc d)
    have "poll_loop INTERACTIVE (t\<lparr>poll_pos := Suc (poll_pos t)\<rparr>) \<noteq> None"
      by (rule Suc.IH) (use Suc.prems in simp_all)
    then show ?case by (subst poll_loop.simps) (simp add: read_keys_ncurses_def)
  qed
  from this [of s "n - poll_pos s"] n(1) show ?thesis by simp
qed

section \<open>Instructions and runs\<close>

lemma basic_block_returns:
  fixes s :: "'a vm_scheme"
  assumes "lively s"
  shows "returns (basic_block INTERACTIVE s)"
proof -
  have key: "returns (load_on_key INTERACTIVE t)" if "lively t" for t :: "'a vm_scheme"
    using poll_loop_returns [of t] that by (auto simp: load_on_key_def Let_def lively_def split: option.split)
  have draw: "returns (draw INTERACTIVE t)" if "lively t" for t :: "'a vm_scheme"
  proof -
    have "lively (set_reg 15 v (snd (draw_io INTERACTIVE x y n m (interrupt INTERACTIVE t))))" for x y n m v
      using that by (simp only: live.upds length_list_update)
    then have "wait_tick (set_reg 15 v (snd (draw_io INTERACTIVE x y n m (interrupt INTERACTIVE t)))) \<noteq> None" for x y n m v
      unfolding lively_def using wait_tick_returns by fastforce
    then have "frame_sync INTERACTIVE (set_reg 15 v (snd (draw_io INTERACTIVE x y n m (interrupt INTERACTIVE t)))) \<noteq> None" for x y n m v
      by (simp add: frame_sync_def del: interrupt.simps draw_io.simps)
    then show ?thesis
      by (simp add: draw_def Let_def split_beta option.case_eq_if del: interrupt.simps draw_io.simps not_None_eq)
  qed
  have "lively (s\<lparr>opcode := v\<rparr>)" for v using assms by (rule live.upd_opcode)
  then show ?thesis
    by (simp add: basic_block_def dispatch_def op_e_def op_f_def Let_def returns_handlers returns_plain key draw
        add_addr_def load_sprite_addr_def store_bcd_def)
qed

lemma interp_pass_live:
  fixes s :: "'a vm_scheme"
  assumes "lively s"
  shows "interp_pass INTERACTIVE e s c \<noteq> Stuck" "interp_pass INTERACTIVE e s c = Next s1 c1 \<Longrightarrow> lively s1"
proof -
  have idle: "idle_loop s \<noteq> None" using assms idle_loop_returns unfolding lively_def by blast
  note kept = live.keeps_basic_block [OF assms, of INTERACTIVE]
  show "interp_pass INTERACTIVE e s c \<noteq> Stuck"
    using idle basic_block_returns [OF assms]
    by (auto simp: interp_pass_def execute_def idle_wait_def returns_def split: option.split outcome.split)
  have "lively (t\<lparr>program_counter := a\<rparr>)" "lively (set_reg r v t)" if "lively t" for t :: "'a vm_scheme" and a r v
    using that by (simp_all only: live.upds length_list_update)
  then have "lively ((set_reg r v t)\<lparr>program_counter := a\<rparr>)" if "idle_loop s = Some t" for t a r v
    using live.upd_idle_loop [OF assms that] by blast
  then show "interp_pass INTERACTIVE e s c = Next s1 c1 \<Longrightarrow> lively s1"
    using kept by (auto simp: interp_pass_def execute_def idle_wait_def split: option.splits outcome.splits if_splits)
qed

lemma interp_loop_live:
  fixes s :: "'a vm_scheme"
  assumes "lively s"
  shows "interp_loop INTERACTIVE e s c \<noteq> Some Stuck"
proof -
  have "b = INTERACTIVE \<longrightarrow> lively s \<longrightarrow> p \<noteq> Stuck" if "interp_loop b e s c = Some p" for b e c p and s :: "'a vm_scheme"
  proof (rule interp_loop.raw_induct [OF _ that])
    fix f b e c p and s :: "'a vm_scheme"
    assume "\<And>b e s c p. f b e s c = Some p \<Longrightarrow> b = INTERACTIVE \<longrightarrow> lively s \<longrightarrow> p \<noteq> Stuck"
      and "(case interp_pass b e s c of Next s1 count1 \<Rightarrow> f b e s1 count1 | p \<Rightarrow> Some p) = Some p"
    then show "b = INTERACTIVE \<longrightarrow> lively s \<longrightarrow> p \<noteq> Stuck"
      using interp_pass_live [of s e c] by (cases "interp_pass b e s c") fastforce+
  qed
  with assms show ?thesis by blast
qed

text \<open>A clock read once a tick never stands still.\<close>

lemma ticks: "\<exists>k\<ge>m. ((k * NANOS_PER_TICK) div NANOS_PER_TICK) mod TICKS_PER_SECOND \<noteq> v"
proof (rule ccontr)
  assume "\<not> ?thesis"
  then have n: "k mod 60 = v" if "k \<ge> m" for k using that by (auto simp: NANOS_PER_TICK_def TICKS_PER_SECOND_def)
  have "Suc m mod 60 = m mod 60" using n [of m] n [of "Suc m"] by simp
  then show False by (simp add: mod_Suc split: if_splits)
qed

text \<open>
  C17: If the clock never stands still and the user presses some key again and again, no run of
  the interactive interpreter hangs in an instruction: it goes on for ever or comes to an end.
\<close>

theorem interactive_run_live:
  assumes "\<And>m v. \<exists>k\<ge>m. (clk k div NANOS_PER_TICK) mod TICKS_PER_SECOND \<noteq> v"
    and "\<And>m. \<exists>k\<ge>m. \<exists>key\<in>set (polls k). key_mask key \<noteq> 0"
  shows "interp_main INTERACTIVE e rom (initial_vm rnd clk polls budget km) \<noteq> Inr (Some Stuck)"
proof -
  let ?s = "initial_vm rnd clk polls budget km"
  have "clock_nsec ?s = clk" "key_polls ?s = polls" by (simp_all add: initial_vm_def)
  then have "lively ?s" using assms by (simp add: lively_def ticking_def pressing_def)
  moreover have "clock_nsec (boot INTERACTIVE rom ?s) = clock_nsec ?s" "key_polls (boot INTERACTIVE rom ?s) = key_polls ?s"
    by (simp_all add: boot_def Let_def)
  ultimately have "lively (boot INTERACTIVE rom ?s)" using lively_cong by blast
  then show ?thesis using interp_loop_live by (auto simp: interp_main_def)
qed

lemma interactive_run_live_witness:
  "interp_main INTERACTIVE True [0xf0, 0x0a] (initial_vm (\<lambda>_. 0) (\<lambda>k. k mod 60 * NANOS_PER_TICK) (\<lambda>_. [48]) 0 BENCH_KEYS_NONE) \<noteq>
    Inr (Some Stuck)"
proof (rule interactive_run_live)
  show "\<exists>k\<ge>m. (k mod 60 * NANOS_PER_TICK div NANOS_PER_TICK) mod TICKS_PER_SECOND \<noteq> v" for m v
    using ticks [of m v] by (simp add: NANOS_PER_TICK_def TICKS_PER_SECOND_def)
  show "\<exists>k\<ge>m. \<exists>key\<in>set [48]. key_mask key \<noteq> 0" for m :: nat by (auto simp: key_mask_def)
qed

end
