(* ===== verification/C8_Aot_Sim.thy ===== *)
theory C8_Aot_Sim
  imports C8_Aot_Code C8_Interp_Moves C8_Interp_Spec C8_Interp_Live
begin

text \<open>
  The lowered word against the interpreter's instruction, in the interactive build. The two share
  no clock: they agree on what a program computes (\<open>core\<close>), not on timers and keys, which
  depend on when the host is asked.
\<close>

section \<open>The computed state\<close>

definition core :: "'a vm_scheme \<Rightarrow> _" where
  "core s = (regs s, memory s, stack s, stack_pointer s, addr s, program_counter s,
     (display s, width s, height s, window s), rand_seq s, rand_pos s)"

lemma core_eq:
  "core s = core t \<longleftrightarrow> regs s = regs t \<and> memory s = memory t \<and> stack s = stack t \<and>
     stack_pointer s = stack_pointer t \<and> addr s = addr t \<and> program_counter s = program_counter t \<and>
     display s = display t \<and> width s = width t \<and> height s = height t \<and> window s = window t \<and>
     rand_seq s = rand_seq t \<and> rand_pos s = rand_pos t"
  by (auto simp: core_def)

lemma core_interrupt [simp]: "core (interrupt INTERACTIVE s) = core s"
  by (simp add: core_def read_keys_ncurses_def Let_def)

lemma core_poll_keys [simp]: "core (poll_keys s) = core s"
  by (simp add: core_def poll_keys_def read_keys_ncurses_def)

lemma core_poll_if_due [simp]: "core (poll_keys_if_due s) = core s"
proof -
  have "core (t\<lparr>last_key_poll := n\<rparr>) = core t" "core (t\<lparr>clock_pos := m\<rparr>) = core t" for t :: "'a aot_scheme" and n m
    by (simp_all add: core_def)
  then show ?thesis by (simp add: poll_keys_if_due_def Let_def)
qed

lemma core_service_timers [simp]: "core (service_timers s) = core s"
  by (simp add: core_def service_timers_def Let_def)

lemma core_retire [simp]: "core (snd (chip8_aot_retire s)) = core s"
proof -
  have "core (s\<lparr>retired := n\<rparr>) = core s" for n by (simp add: core_def)
  then show ?thesis by (simp add: chip8_aot_retire_def Let_def)
qed

section \<open>The host\<close>

text \<open>A terminal whose user does not quit.\<close>

definition no_quit :: "'a vm_scheme \<Rightarrow> bool" where
  "no_quit s \<longleftrightarrow> (\<forall>n. \<forall>key\<in>set (key_polls s n). key_mask key AND QUIT = 0) \<and> (\<forall>k\<in>set (keys_down s). k AND QUIT = 0)"

text \<open>What the host is like does not change.\<close>

definition hosted :: "'a vm_scheme \<Rightarrow> bool" where
  "hosted s \<longleftrightarrow> ticking s \<and> no_quit s"

lemma hosted_upds [simp]:
  "hosted (regs_update f s) = hosted s" "hosted (memory_update g s) = hosted s" "hosted (program_counter_update h s) = hosted s"
  "hosted (addr_update h s) = hosted s" "hosted (stack_update st s) = hosted s" "hosted (stack_pointer_update sp s) = hosted s"
  "hosted (rand_pos_update n s) = hosted s" "hosted (display_update d s) = hosted s" "hosted (window_update w s) = hosted s"
  "hosted (delay_timer_update v s) = hosted s" "hosted (sound_timer_update v s) = hosted s" "hosted (last_tick_update i s) = hosted s"
  "hosted (clock_pos_update n s) = hosted s" "hosted (poll_pos_update n s) = hosted s"
  by (simp_all add: hosted_def ticking_def no_quit_def)

lemma hosted_aot_upds [simp]: "hosted (s\<lparr>retired := n\<rparr>) = hosted s" "hosted (s\<lparr>last_key_poll := i\<rparr>) = hosted s"
  by (simp_all add: hosted_def ticking_def no_quit_def)

lemma no_quit_mask: "(\<forall>key\<in>set ks. key_mask key AND QUIT = 0) \<Longrightarrow> m AND QUIT = 0 \<Longrightarrow>
   fold (\<lambda>key keys. keys OR key_mask key) ks m AND QUIT = 0"
  by (induction ks arbitrary: m) (simp_all add: bit.conj_disj_distrib2)

lemma no_quit_poll: "no_quit s \<Longrightarrow> fst (read_keys_io INTERACTIVE s) AND QUIT = 0"
  by (simp add: no_quit_def read_keys_ncurses_def no_quit_mask)

lemma hosted_poll [simp]: "hosted s \<Longrightarrow> hosted (poll_keys s)"
proof -
  assume h: "hosted s"
  then have "fst (read_keys_io INTERACTIVE s) AND QUIT = 0" by (simp only: hosted_def no_quit_poll)
  then show ?thesis using h
    by (auto simp: poll_keys_def split_beta read_keys_ncurses_def hosted_def ticking_def no_quit_def
        dest!: set_update_subset_insert [THEN subsetD])
qed

lemma hosted_poll_if_due [simp]: "hosted s \<Longrightarrow> hosted (poll_keys_if_due s)"
  by (simp add: poll_keys_if_due_def Let_def)

lemma hosted_service_timers [simp]: "hosted s \<Longrightarrow> hosted (service_timers s)"
  by (simp add: service_timers_def Let_def)

lemma no_quit_fold: "\<forall>k\<in>set ks. k AND QUIT = 0 \<Longrightarrow> m AND QUIT = 0 \<Longrightarrow> fold (OR) ks m AND QUIT = 0"
  by (induction ks arbitrary: m) (simp_all add: bit.conj_disj_distrib2)

lemma hosted_retire: "hosted s \<Longrightarrow> \<not> fst (chip8_aot_retire s) \<and> hosted (snd (chip8_aot_retire s))"
proof -
  assume h: "hosted s"
  have "hosted t \<Longrightarrow> aot_keys t AND QUIT = 0" for t :: "'a aot_scheme"
  proof -
    assume "hosted t"
    then have "\<forall>k\<in>set (keys_down t). k AND QUIT = 0" by (simp add: hosted_def no_quit_def)
    then have "m AND QUIT = 0 \<Longrightarrow> fold (OR) (keys_down t) m AND QUIT = 0" for m
      by (rule no_quit_fold)
    then show ?thesis by (simp add: aot_keys_def)
  qed
  with h show ?thesis by (simp add: chip8_aot_retire_def Let_def)
qed

section \<open>Operands\<close>

lemma unat_eq_numeral: "numeral k < (65536::nat) \<Longrightarrow> (unat (w::u16) = numeral k) = (w = numeral k)"
proof -
  assume "numeral k < (65536::nat)"
  then have "unat (of_nat (numeral k) :: u16) = numeral k" by (intro of_nat_inverse [OF refl]) simp
  then show ?thesis by (simp only: of_nat_numeral word_unat_eq_iff)
qed

lemma unat_eq_0_1: "(unat (w::u16) = 0) = (w = 0)" "(unat w = Suc 0) = (w = 1)"
  by (simp_all add: word_unat_eq_iff)

lemmas unat_eqs = unat_eq_0_1 unat_eq_numeral

lemma unat_imm8 [simp]: "unat (imm8 opc) = unat (opc AND 255)"
  by (simp add: imm8_def unat_ucast_8)

lemma unat_imm4 [simp]: "unat (imm4 opc) = unat (opc AND 15)"
proof -
  have "unat (opc AND 15) < 256" using unat_and_15_less [of opc] by linarith
  then show ?thesis by (simp add: imm4_def unat_ucast_8)
qed

lemma operand_facts:
  "(unat (v::u8) = unat (opc AND 255)) = (v = imm8 opc)"
  "of_nat ((unat v + unat (opc AND 255)) mod 256) = v + imm8 opc"
  "of_nat ((unat (opc AND 4095) + unat v) mod 65536) = imm12 opc + ucast v"
  "of_nat (unat (opc AND 4095)) = imm12 opc"
  "(of_nat (unat (opc AND 255)) :: u8) = imm8 opc"
  "drop_bit 12 (opc AND 0xf000) = drop_bit 12 opc"
proof -
  show "(unat v = unat (opc AND 255)) = (v = imm8 opc)" by (simp add: word_unat_eq_iff)
  show "of_nat ((unat v + unat (opc AND 255)) mod 256) = v + imm8 opc"
    by (simp add: word_unat_eq_iff unat_word_ariths unsigned_of_nat take_bit_eq_mod)
  show "of_nat ((unat (opc AND 4095) + unat v) mod 65536) = imm12 opc + ucast v"
    by (simp add: word_unat_eq_iff unat_word_ariths unsigned_of_nat take_bit_eq_mod imm12_def)
  show "of_nat (unat (opc AND 4095)) = imm12 opc" by (simp add: imm12_def)
  show "(of_nat (unat (opc AND 255)) :: u8) = imm8 opc" by (simp add: imm8_def)
  have "drop_bit 12 (0xf000::u16) = mask 4" by (simp add: mask_eq_exp_minus_1)
  then have "drop_bit 12 (opc AND 0xf000) = take_bit 4 (drop_bit 12 opc)" by (simp only: drop_bit_and take_bit_eq_mask)
  also have "\<dots> = drop_bit 12 (take_bit 16 opc)" by (simp add: take_bit_drop_bit)
  also have "\<dots> = drop_bit 12 opc" by (simp add: take_bit_word_eq_self)
  finally show "drop_bit 12 (opc AND 0xf000) = drop_bit 12 opc" .
qed

section \<open>Services and handlers\<close>

text \<open>Two outcomes that computed the same; the host of the second is left as it was.\<close>

definition same :: "'a vm_scheme outcome \<Rightarrow> 'b aot_scheme outcome \<Rightarrow> bool" where
  "same r p \<longleftrightarrow> (\<forall>s. r = Done 0 s \<longrightarrow> (\<exists>t. p = Done 0 t \<and> core s = core t \<and> hosted t))"

lemma same_STEP:
  assumes "core s = core t" "hosted t" "program_counter s = of_nat pc"
  shows "same (STEP s) (advance pc (Done 0 t))"
  using assms by (auto simp: same_def STEP_def advance_def core_eq)

lemma same_jump:
  assumes "core s = core t" "hosted t" "a = of_nat n"
  shows "same (Done 0 (s\<lparr>program_counter := a\<rparr>)) (jump_to n t)"
  using assms by (auto simp: same_def jump_to_def core_eq)

lemma core_upds:
  assumes "core s = core t"
  shows "core (regs_update f s) = core (regs_update f t)" "core (memory_update g s) = core (memory_update g t)"
    "core (s\<lparr>addr := a\<rparr>) = core (t\<lparr>addr := a\<rparr>)" "core (s\<lparr>program_counter := a\<rparr>) = core (t\<lparr>program_counter := a\<rparr>)"
    "core (s\<lparr>delay_timer := d\<rparr>) = core (t\<lparr>delay_timer := e\<rparr>)" "core (s\<lparr>sound_timer := d\<rparr>) = core (t\<lparr>sound_timer := e\<rparr>)"
    "core (snd (rand s)) = core (snd (rand t))" "fst (rand s) = fst (rand t)"
    "core (clearscreen_io INTERACTIVE s) = core (clearscreen_io INTERACTIVE t)"
  using assms by (simp_all add: core_eq rand_def clearscreen_io_ncurses_def)

lemma core_reads:
  assumes "core s = core t"
  shows "regs s = regs t" "memory s = memory t" "stack s = stack t" "stack_pointer s = stack_pointer t" "addr s = addr t"
    "program_counter s = program_counter t"
  using assms by (simp_all add: core_eq)

lemma core_fold:
  assumes "core s = core t" "\<And>i s t. core s = core t \<Longrightarrow> core (f i s) = core (g i t)"
  shows "core (fold f js s) = core (fold g js t)"
  using assms by (induction js arbitrary: s t) simp_all

lemma high_bit: "drop_bit 7 (a::u8) AND 1 = (if a AND 0x80 \<noteq> 0 then 1 else 0)"
proof -
  have "drop_bit 7 a AND 1 = of_bool (bit a 7)" by (simp add: and_one_eq mod_2_eq_odd bit_iff_odd_drop_bit)
  moreover have "(a AND 0x80 \<noteq> 0) = bit a 7"
  proof -
    have "a AND push_bit 7 1 \<noteq> 0 \<longleftrightarrow> bit a 7" by (metis and_exp_eq_0_iff_not_bit push_bit_of_1)
    then show ?thesis by simp
  qed
  ultimately show ?thesis by (simp only: of_bool_def)
qed

lemma same_alu:
  assumes c: "core s = core t" "hosted t" "program_counter s = of_nat pc"
  shows "same (op_8 s) (advance pc (serve (Aot_alu (op_x (opcode s)) (op_y (opcode s)) (unat (opcode s AND 15))) t))"
proof -
  note r = core_reads [OF c(1)]
  have step: "same (STEP s1) (advance pc (Done 0 t1))" if "core s1 = core t1" "hosted t1" "program_counter s1 = of_nat pc" for s1 t1
    by (rule same_STEP [OF that])
  have err: "same (ERROR s) (advance pc (Done 0 t1))" if "opcode s \<noteq> 0" for t1
    using error_code_nonzero [OF that] by (simp add: same_def ERROR_def)
  show ?thesis
  apply (rule less_16_cases [OF unat_and_15_less [of "opcode s"]])
  apply (simp_all add: unat_eqs op_8_def chip8_aot_alu_def Let_def r split del: if_split)
  apply (simp_all add: plain_handlers Let_def r high_bit split del: if_split)
  apply (auto intro!: step err core_upds simp: c split del: if_split)
  done
qed

lemma fold_preserves:
  assumes "\<And>i t. P t \<Longrightarrow> P (f i t)"
  shows "P t \<Longrightarrow> P (fold f js t)"
  using assms by (induction js arbitrary: t) simp_all

lemma bcd_digits: "(v::u8) mod 100 div 10 = v div 10 mod 10" "v mod 100 mod 10 = v mod 10"
proof -
  have "n mod 100 div 10 = n div 10 mod 10" "n mod 100 mod 10 = n mod 10" for n :: nat
  proof -
    have "n mod 100 = 10 * (n div 10 mod 10) + n mod 10" using mod_mult2_eq [of n 10 10] by simp
    then show "n mod 100 div 10 = n div 10 mod 10" "n mod 100 mod 10 = n mod 10" by simp_all
  qed
  then show "v mod 100 div 10 = v div 10 mod 10" "v mod 100 mod 10 = v mod 10"
    by (simp_all add: word_unat_eq_iff unat_div_distrib unat_mod_distrib)
qed

lemma same_f:
  assumes c: "core s = core t" "hosted t" "program_counter s = of_nat pc"
    and k: "opcode s AND 255 \<notin> {0x07, 0x0a}" "opcode s \<noteq> 0"
  shows "same (op_f INTERACTIVE s) (advance pc (serve (Aot_f (op_x (opcode s)) (unat (opcode s AND 255))) t))"
proof -
  note r = core_reads [OF c(1)]
  have step: "same (STEP s1) (advance pc (Done 0 t1))" if "core s1 = core t1" "hosted t1" "program_counter s1 = of_nat pc" for s1 t1
    by (rule same_STEP [OF that])
  have err: "same (ERROR s) (advance pc (Done 0 t1))" for t1
    using error_code_nonzero [OF k(2)] by (simp add: same_def ERROR_def)
  have save: "same (save_registers s) (advance pc (Done 0
      (fold (\<lambda>i t. mem_set (addr t + of_nat i) (regs t ! i) t) [0..<op_x (opcode s) + 1] t)))"
    unfolding save_registers_def
  proof (rule step)
    show "program_counter (fold (\<lambda>i t. mem_set (addr t + of_nat i) (regs t ! i) t) [0..<op_x (opcode s) + 1] s) = of_nat pc"
      by (rule fold_preserves [where P = "\<lambda>s. program_counter s = of_nat pc"]) (use c in simp_all)
  qed (rule core_fold, use c in \<open>simp_all add: core_eq\<close>, rule fold_preserves [where P = hosted], use c in simp_all)
  have restore: "same (restore_registers s) (advance pc (Done 0
      (fold (\<lambda>i t. set_reg i (mem_at t (addr t + of_nat i)) t) [0..<op_x (opcode s) + 1] t)))"
    unfolding restore_registers_def
  proof (rule step)
    show "program_counter (fold (\<lambda>i t. set_reg i (mem_at t (addr t + of_nat i)) t) [0..<op_x (opcode s) + 1] s) = of_nat pc"
      by (rule fold_preserves [where P = "\<lambda>s. program_counter s = of_nat pc"]) (use c in simp_all)
  qed (rule core_fold, use c in \<open>simp_all add: core_eq mem_at_def\<close>, rule fold_preserves [where P = hosted], use c in simp_all)
  let ?kk = "opcode s AND 255"
  note defs = op_f_def chip8_aot_f_def Let_def status_ok_def
  have bcd: "same (store_bcd s) (advance pc (Done 0 (mem_set (addr t + 2) (regs t ! op_x (opcode s) mod 10)
      (mem_set (addr t + 1) (regs t ! op_x (opcode s) div 10 mod 10)
        (mem_set (addr t) (regs t ! op_x (opcode s) div 100) t)))))"
    unfolding store_bcd_def Let_def bcd_digits r
    by (rule step) (use c in \<open>simp_all add: core_eq\<close>)
  have timers: "same (set_delay_timer INTERACTIVE s) (advance pc (Done 0 (t\<lparr>delay_timer := v\<rparr>)))"
    "same (set_sound_timer INTERACTIVE s) (advance pc (Done 0 (t\<lparr>sound_timer := v\<rparr>)))" for v
    unfolding set_delay_timer_def set_sound_timer_def timer_access_def Let_def
    by (rule step; use c in \<open>simp add: core_eq\<close>)+
  have address: "same (add_addr s) (advance pc (Done 0 (t\<lparr>addr := addr t + ucast (regs t ! op_x (opcode s))\<rparr>)))"
    "same (load_sprite_addr s) (advance pc (Done 0 (t\<lparr>addr := ucast (regs t ! op_x (opcode s) AND 0x0f) * 5\<rparr>)))"
    unfolding add_addr_def load_sprite_addr_def
    by (rule step; use c in \<open>simp add: core_eq\<close>)+
  consider "?kk \<in> {0x15, 0x18, 0x1e, 0x29, 0x33, 0x55, 0x65}" | "?kk \<notin> {0x15, 0x18, 0x1e, 0x29, 0x33, 0x55, 0x65}"
    by blast
  then show ?thesis
  proof cases
    case 1
    then show ?thesis using save restore bcd timers address by (auto simp: defs simp del: upt_Suc)
  next
    case 2
    have "unat ?kk \<notin> {7, 10, 21, 24, 30, 41, 51, 85, 101}"
      using 2 k(1) by (auto dest!: arg_cong [where f = "of_nat :: nat \<Rightarrow> u16"])
    then have "chip8_aot_f (op_x (opcode s)) (unat ?kk) t = Some (t\<lparr>program_counter := 0xffff\<rparr>)"
      by (simp add: chip8_aot_f_def)
    then show ?thesis using 2 k(1) err by (simp add: op_f_def Let_def status_ok_def)
  qed
qed

lemma core_draw_io:
  assumes "core s = core t"
  shows "fst (draw_io INTERACTIVE x y n m s) = fst (draw_io INTERACTIVE x y n m t)"
    "core (snd (draw_io INTERACTIVE x y n m s)) = core (snd (draw_io INTERACTIVE x y n m t))"
  using assms by (simp_all add: draw_io_ncurses_def core_eq split_beta)

lemma wait_tick_core: "wait_tick s = Some p \<Longrightarrow> core (snd p) = core s"
proof (rule wait_tick.raw_induct [where P = "\<lambda>s p. core (snd p) = core s"])
  fix f :: "'a vm_scheme \<Rightarrow> (int \<times> 'a vm_scheme) option" and s p
  assume IH: "\<And>s p. f s = Some p \<Longrightarrow> core (snd p) = core s"
    and eq: "(let (current_tick, s1) = tick INTERACTIVE s
      in if current_tick = last_tick s1 then f s1 else Some (current_tick, s1)) = Some p"
  have "core (s\<lparr>clock_pos := n\<rparr>) = core s" for n by (simp add: core_def)
  then show "core (snd p) = core s"
    using eq IH [of "s\<lparr>clock_pos := Suc (clock_pos s)\<rparr>" p] by (auto simp: Let_def split: if_splits)
qed

lemma frame_sync_core: "frame_sync INTERACTIVE s = Some s' \<Longrightarrow> core s' = core s"
  by (auto simp: frame_sync_def core_eq dest!: wait_tick_core)

lemma same_draw:
  assumes c: "core s = core t" "hosted t" "program_counter s = of_nat pc"
  shows "same (draw INTERACTIVE s) (advance pc (serve (Aot_draw (op_x (opcode s)) (op_y (opcode s)) (unat (opcode s AND 15))) t))"
proof -
  let ?x = "op_x (opcode s)" and ?y = "op_y (opcode s)" and ?n = "unat (opcode s AND 15)"
  define s1 where "s1 = interrupt INTERACTIVE s"
  define t1 where "t1 = service_timers (poll_keys_if_due t)"
  have c1: "core s1 = core t1" by (simp only: s1_def t1_def core_interrupt core_service_timers core_poll_if_due c)
  have pc: "program_counter s1 = of_nat pc" by (simp only: s1_def interrupt_frame c)
  have h1: "hosted t1" by (simp add: t1_def c)
  note r = core_reads [OF c1]
  define spr where "spr = map (\<lambda>i. mem_at t1 (addr t1 + of_nat i)) [0..<?n]"
  have spr: "map (\<lambda>i. mem_at s1 (addr s1 + of_nat i)) [0..<?n] = spr"
    by (simp only: spr_def mem_at_def r)
  let ?ds = "draw_io INTERACTIVE (unat (regs t1 ! ?x)) (unat (regs t1 ! ?y)) ?n spr s1"
  let ?dt = "draw_io INTERACTIVE (unat (regs t1 ! ?x)) (unat (regs t1 ! ?y)) ?n spr t1"
  let ?s2 = "set_reg 15 (of_nat (fst ?ds)) (snd ?ds)" and ?t2 = "set_reg 15 (of_nat (fst ?dt)) (snd ?dt)"
  have c2: "core ?s2 = core ?t2" unfolding core_draw_io(1) [OF c1] by (rule core_upds(1) [OF core_draw_io(2) [OF c1]])
  have h2: "hosted ?t2" using h1 by (simp add: draw_io_ncurses_def split_beta)
  then obtain m v where w: "wait_tick ?t2 = Some (v, ?t2\<lparr>clock_pos := m\<rparr>)"
    using wait_tick_returns [of ?t2] unfolding hosted_def by blast
  have "serve (Aot_draw ?x ?y ?n) t = Done 0 (?t2\<lparr>clock_pos := m, last_tick := v\<rparr>)"
    using w by (simp add: chip8_aot_draw_def Let_def split_beta spr_def status_ok_def t1_def)
  moreover have "draw INTERACTIVE s = (case frame_sync INTERACTIVE ?s2 of None \<Rightarrow> Hangs | Some s4 \<Rightarrow> STEP s4)"
    using spr by (simp only: draw_def Let_def split_beta r unat_imm4 s1_def [symmetric])
  moreover have "same (STEP s4) (advance pc (Done 0 (?t2\<lparr>clock_pos := m, last_tick := v\<rparr>)))" if "frame_sync INTERACTIVE ?s2 = Some s4" for s4
  proof (rule same_STEP)
    show "core s4 = core (?t2\<lparr>clock_pos := m, last_tick := v\<rparr>)"
      using frame_sync_core [OF that] c2 by (simp add: core_eq)
    show "program_counter s4 = of_nat pc"
      using frame_sync_core [OF that] pc by (simp add: core_eq draw_io_ncurses_def split_beta)
  qed (use h2 in simp)
  ultimately show ?thesis by (simp add: same_def split: option.split)
qed

text \<open>An instruction that asks the host neither for a key nor for the time.\<close>

definition plain :: "u16 \<Rightarrow> bool" where
  "plain opc \<longleftrightarrow> drop_bit 12 opc \<noteq> 0xe \<and> \<not> (drop_bit 12 opc = 0xf \<and> opc AND 255 \<in> {0x07, 0x0a})"

lemma same_random:
  assumes c: "core s = core t" "hosted t" "program_counter s = of_nat pc"
  shows "same (random_byte s) (advance pc (serve (Aot_random (op_x (opcode s)) (unat (opcode s AND 255))) t))"
proof -
  have "ucast (w AND 255 AND ucast (imm8 (opcode s))) = (ucast (w AND 255) AND imm8 (opcode s) :: u8)" for w :: u32
    by (rule bit_word_eqI) (auto simp: bit_simps)
  moreover have "serve (Aot_random (op_x (opcode s)) (unat (opcode s AND 255))) t =
      Done 0 (set_reg (op_x (opcode s)) (ucast (fst (rand t) AND 255) AND imm8 (opcode s)) (snd (rand t)))"
    by (simp only: serve.simps chip8_aot_random_def Let_def split_beta operand_facts)
  moreover have "same (STEP (set_reg x v (snd (rand s)))) (advance pc (Done 0 (set_reg x v (snd (rand t)))))" for x v
    by (rule same_STEP) (use c in \<open>simp_all add: core_eq rand_def\<close>)
  ultimately show ?thesis
    unfolding random_byte_def Let_def split_beta core_upds(8) [OF c(1)] by simp
qed

lemma same_skip:
  assumes c: "core s = core t" "hosted t" "program_counter s = of_nat pc"
  shows "same (skip_when b s) (jump_to (if b then pc + 4 else pc + 2) t)"
proof -
  have "program_counter s + 2 + 2 = of_nat (pc + 4)" "program_counter s + 2 = of_nat (pc + 2)" by (simp_all add: c)
  then show ?thesis using c by (auto simp: same_def skip_when_def STEP_def jump_to_def core_eq)
qed

lemma same_control:
  assumes c: "core s = core t" "hosted t" "program_counter s = of_nat pc"
  shows "same (jump INTERACTIVE s) (jump_to (unat (opcode s AND 4095)) t)"
    "opcode s \<noteq> 0 \<Longrightarrow> same (retern INTERACTIVE s) (serve Aot_return t)"
    "opcode s \<noteq> 0 \<Longrightarrow> same (call INTERACTIVE s) (serve (Aot_call (unat (opcode s AND 4095)) (pc + 2)) t)"
    "same (branch s) (jump_to ((unat (opcode s AND 4095) + unat (regs t ! 0)) mod 65536) t)"
    "same (clearscreen INTERACTIVE s) (advance pc (serve Aot_clear t))"
proof -
  define s1 where "s1 = interrupt INTERACTIVE s"
  have c1: "core s1 = core t" by (simp only: s1_def core_interrupt c)
  have pc: "program_counter s1 = of_nat pc" by (simp only: s1_def interrupt_frame c)
  note r = core_reads [OF c1]
  have err: "same (ERROR s1) p" if "opcode s \<noteq> 0" for p
    using error_code_nonzero [OF that] by (simp add: same_def ERROR_def s1_def del: interrupt.simps)
  show "same (jump INTERACTIVE s) (jump_to (unat (opcode s AND 4095)) t)"
    unfolding jump_def Let_def s1_def [symmetric] by (rule same_jump [OF c1 c(2)]) (simp only: operand_facts)
  show "same (branch s) (jump_to ((unat (opcode s AND 4095) + unat (regs t ! 0)) mod 65536) t)"
    unfolding branch_def core_reads(1) [OF c(1), symmetric] by (rule same_jump [OF c(1,2)]) (simp only: operand_facts)
  show "same (clearscreen INTERACTIVE s) (advance pc (serve Aot_clear t))"
    unfolding clearscreen_def serve.simps
    by (rule same_STEP) (use c in \<open>simp_all add: clearscreen_io_ncurses_def core_eq\<close>)
  show "same (retern INTERACTIVE s) (serve Aot_return t)" if "opcode s \<noteq> 0"
    unfolding retern_def Let_def s1_def [symmetric] r(4)
    using err [OF that] c(2) c1 by (auto simp: same_def chip8_aot_return_def Let_def core_eq)
  show "same (call INTERACTIVE s) (serve (Aot_call (unat (opcode s AND 4095)) (pc + 2)) t)" if "opcode s \<noteq> 0"
    unfolding call_def Let_def s1_def [symmetric] r(4)
    using err [OF that] c(2) c1 pc by (auto simp: same_def chip8_aot_call_def core_eq imm12_def add.commute)
qed

lemma same_dispatch:
  assumes c: "core s = core t" "hosted t" "program_counter s = of_nat pc" "plain (opcode s)"
  shows "same (dispatch INTERACTIVE s) (lowered pc (opcode s) t)"
proof -
  let ?opc = "opcode s"
  let ?k = "unat (drop_bit 12 ?opc)"
  have nz: "?opc \<noteq> 0" if "?k \<noteq> 0" using that by auto
  note c3 = c(1-3)
  note r = core_reads [OF c(1)]
  have y: "unat (drop_bit 4 ?opc AND 15) = op_y ?opc" and x: "unat (drop_bit 8 ?opc AND 15) = op_x ?opc"
    by (simp_all add: op_x_def op_y_def)
  note skips = skip_eq_immediate_def skip_neq_immediate_def skip_eq_register_def skip_neq_register_def
  note steps = load_immediate_def add_immediate_def load_addr_immediate_def Let_def
  have step: "same (STEP s1) (advance pc (Done 0 t1))" if "core s1 = core t1" "hosted t1" "program_counter s1 = of_nat pc" for s1 t1
    by (rule same_STEP [OF that])
  have k: "(drop_bit 12 ?opc = 0xe) = (?k = 14)" "(drop_bit 12 ?opc = 0xf) = (?k = 15)"
    by (simp_all add: unat_eq_numeral)
  show ?thesis
    using c(4) unfolding dispatch_def lowered_def Let_def operand_facts x y plain_def k
    apply (cases "?opc = 0xe0 \<or> ?opc = 0xee")
    apply (auto simp: same_control c simp del: serve.simps) []
    apply (rule less_16_cases [OF opcode_bounds(3) [of ?opc]])
    apply (simp_all add: same_control(1,4) [OF c3] same_control(2,3) [OF c3 nz] same_alu [OF c3] same_draw [OF c3]
       same_random [OF c3] same_f [OF c3 _ nz] skips steps r word_unat_eq_iff [symmetric] del: serve.simps split del: if_split)
    apply (use same_control(3) [OF c3] nz in simp)
    apply (simp_all add: same_skip [OF c3] del: serve.simps)
    apply (rule step; use c in \<open>simp add: core_eq\<close>)+
    done
qed

section \<open>Whole runs\<close>

text \<open>The next word is one of the ROM's, and the program has not written over it.\<close>

definition at_rom :: "u8 list \<Rightarrow> 'a vm_scheme \<Rightarrow> bool" where
  "at_rom rom s \<longleftrightarrow> (let pc = unat (program_counter s) in
     ENTRYPOINT \<le> pc \<and> pc - ENTRYPOINT \<in> set (rom_offsets rom) \<and>
     opcode_at s (program_counter s) = rom_word rom (pc - ENTRYPOINT))"

lemma core_opcode: "core s = core t \<Longrightarrow> opcode_at s a = opcode_at t a"
  by (simp add: core_eq opcode_at_def mem_at_def)

lemma word_step:
  assumes rom: "rom_ok rom" "at_rom rom s" "plain (opcode_at s (program_counter s))"
    and c: "core s = core t" "hosted t" "basic_block INTERACTIVE s = Done 0 s1"
  obtains e1 t1 where "leads (aot_func rom) (goto (aot_func rom) ''dispatch'' e t) (goto (aot_func rom) ''dispatch'' e1 t1)"
    "core s1 = core t1" "hosted t1"
proof -
  define j where "j = unat (program_counter s) - 512"
  have j: "j \<in> set (rom_offsets rom)" "opcode_at s (program_counter s) = rom_word rom j" "unat (program_counter s) = 512 + j"
    using rom(2) by (auto simp: at_rom_def Let_def ENTRYPOINT_def j_def)
  have "of_nat (unat (program_counter s)) = program_counter s" by simp
  then have pc: "program_counter s = of_nat (512 + j)" by (simp only: j(3))
  have tpc: "program_counter t = of_nat (512 + j)" using c(1) pc by (simp add: core_eq)
  obtain stop t1 where r: "chip8_aot_retire t = (stop, t1)" by fastforce
  have t1: "\<not> stop" "hosted t1" "core t1 = core t" using hosted_retire [OF c(2)] core_retire [of t] by (simp_all add: r)
  define s0 where "s0 = s\<lparr>opcode := rom_word rom j\<rparr>"
  have "core s0 = core t1" "program_counter s0 = of_nat (512 + j)" using t1(3) c(1) pc by (simp_all add: s0_def core_eq)
  moreover have "plain (opcode s0)" using rom(3) by (simp add: s0_def j)
  ultimately have "same (dispatch INTERACTIVE s0) (lowered (512 + j) (opcode s0) t1)"
    using same_dispatch t1(2) by blast
  moreover have "dispatch INTERACTIVE s0 = Done 0 s1" using c(3) by (simp add: basic_block_def s0_def j)
  ultimately obtain t2 where t2: "lowered (512 + j) (rom_word rom j) t1 = Done 0 t2" "core s1 = core t2" "hosted t2"
    by (auto simp: same_def s0_def)
  then show thesis
    using dispatch_executes(2) [OF rom(1) j(1) tpc r t1(1), of e] that by (auto simp: resumes_def)
qed

text \<open>\<open>n\<close> passes of the interpreter's loop over plain words of the ROM.\<close>

primrec plain_run :: "u8 list \<Rightarrow> nat \<Rightarrow> 'a vm_scheme \<Rightarrow> 'a vm_scheme option" where
  "plain_run rom 0 s = Some s"
| "plain_run rom (Suc n) s =
     (if at_rom rom s \<and> plain (opcode_at s (program_counter s))
      then case interp_pass INTERACTIVE False s 0 of Next s1 c \<Rightarrow> plain_run rom n s1 | _ \<Rightarrow> None
      else None)"

lemma interp_pass_interactive:
  "interp_pass INTERACTIVE False s c = Next s1 c1 \<Longrightarrow> basic_block INTERACTIVE s = Done 0 s1"
  by (auto simp: interp_pass_def elided_def execute_def split: if_splits outcome.splits)

lemma plain_run_steps:
  assumes "rom_ok rom" "plain_run rom n s = Some s1" "core s = core t" "hosted t"
  shows "\<exists>e1 t1. leads (aot_func rom) (goto (aot_func rom) ''dispatch'' e t) (goto (aot_func rom) ''dispatch'' e1 t1) \<and>
    core s1 = core t1 \<and> hosted t1"
  using assms(2-4)
proof (induction n arbitrary: s e t)
  case 0
  then show ?case by (intro exI [of _ e] exI [of _ t]) simp
next
  case (Suc n)
  from Suc.prems(1) obtain s2 c where a: "at_rom rom s" "plain (opcode_at s (program_counter s))"
    and b: "interp_pass INTERACTIVE False s 0 = Next s2 c" "plain_run rom n s2 = Some s1"
    by (auto split: if_splits pass.splits)
  obtain e2 t2 where
    st: "leads (aot_func rom) (goto (aot_func rom) ''dispatch'' e t) (goto (aot_func rom) ''dispatch'' e2 t2)"
    "core s2 = core t2" "hosted t2"
    by (metis word_step [OF assms(1) a Suc.prems(2,3) interp_pass_interactive [OF b(1)]])
  from Suc.IH [OF b(2) st(2,3), of e2] leads_trans [OF st(1)] show ?case by blast
qed

lemma aot_start_simps [simp]:
  "core (aot_start secs s) = core s" "hosted (aot_start secs s) = hosted s"
  by (simp_all add: core_def hosted_def ticking_def no_quit_def aot_start_def vm.defs)

lemma aot_booted:
  fixes s :: vm and t :: vm
  assumes "rom_ok rom" "core s = core t" "hosted t"
  obtains u where "aot_boot rom (aot_start secs t) = Some u" "core (boot INTERACTIVE rom s) = core u" "hosted u"
proof -
  have l: "\<not> MEMORY_SIZE - ENTRYPOINT < length rom" using assms(1) by (simp add: rom_ok_def)
  define v where "v = aot_start secs t"
  define u where "u = the (aot_boot rom v)"
  have a: "core v = core s" "hosted v" using assms by (simp_all add: v_def)
  have "aot_boot rom v = Some u" using l by (simp add: u_def aot_boot_def Let_def)
  moreover have "core (boot INTERACTIVE rom s) = core u"
    using a(1) l by (simp add: u_def aot_boot_def boot_def Let_def core_eq)
  moreover have "hosted u"
    using a(2) l by (simp add: u_def aot_boot_def Let_def hosted_def ticking_def no_quit_def)
  ultimately show thesis using that by (simp add: v_def)
qed

end
