(* ===== verification/C8_Aot_Thms.thy ===== *)
theory C8_Aot_Thms
  imports C8_Aot_Sim C8_Interp_Thms
begin

text \<open>
  The properties of the ahead-of-time compiler: what it emits is well-formed, each block does what
  its word says, a run computes what the interpreter computes, and what happens where the
  interpreter reports an error.
\<close>

section \<open>The module\<close>

lemma aot_main_ok: "aot_main target file = Inr out \<Longrightarrow> rom_ok file \<and> out = aot_text target file"
  by (auto simp: aot_main_def rom_ok_def split: if_splits)

text \<open>
  C12: The compiler's output is the text of a function LLVM accepts: all labels and values have
  different names, each value is defined before its uses and used at its type, every block ends with
  its only branch, and every branch goes to a block of the function.
\<close>

theorem aot_well_formed:
  assumes "aot_main target file = Inr out"
  shows "func_ok (aot_func file) \<and>
    out = module_header target file @ ''entry: br label %dispatch'' @ newline @
      concat (map print_block (butlast (tl (aot_func file)))) @ ''exit: '' @ print_inst Ret_void @ ''}'' @ newline"
proof
  from aot_main_ok [OF assms] have ok: "rom_ok file" and o: "out = aot_text target file" by blast+
  show "func_ok (aot_func file)" by (rule aot_func_ok [OF ok])
  have "butlast (tl (aot_func file)) = dispatch_block file #
      concat (map (\<lambda>i. aot_block (ENTRYPOINT + i) (rom_word file i)) (rom_offsets file))"
    by (simp add: aot_func_def butlast_append)
  moreover have "concat (map print_block (concat (map g js))) = concat (map (\<lambda>i. concat (map print_block (g i))) js)" for g :: "nat \<Rightarrow> func" and js
    by (induction js) simp_all
  ultimately show "out = module_header target file @ ''entry: br label %dispatch'' @ newline @
      concat (map print_block (butlast (tl (aot_func file)))) @ ''exit: '' @ print_inst Ret_void @ ''}'' @ newline"
    unfolding o aot_text_def by simp
qed

lemma aot_well_formed_witness:
  "func_ok (aot_func [0x12, 0x00])"
proof -
  have "aot_main None [0x12, 0x00] = Inr (aot_text None [0x12, 0x00])" by (simp add: aot_main_def size_defs)
  from aot_well_formed [OF this] show ?thesis by blast
qed

text \<open>A host whose clock ticks and whose keyboard nobody touches, for the witnesses.\<close>

definition demo_aot :: aot where
  "demo_aot = (aot_start (\<lambda>_. 0) (initial_vm (\<lambda>_. 0) (\<lambda>k. k * NANOS_PER_TICK) (\<lambda>_. []) 0 BENCH_KEYS_NONE))
     \<lparr>program_counter := 0x200\<rparr>"

lemma aot_start_keeps:
  "clock_nsec (aot_start secs s) = clock_nsec s" "key_polls (aot_start secs s) = key_polls s"
  "keys_down (aot_start secs s) = keys_down s" "regs (aot_start secs s) = regs s"
  "stack_pointer (aot_start secs s) = stack_pointer s"
  by (simp_all add: aot_start_def vm.defs)

lemma demo_aot_simps:
  "clock_nsec demo_aot = (\<lambda>k. k * NANOS_PER_TICK)" "key_polls demo_aot = (\<lambda>_. [])"
  "keys_down demo_aot = replicate INPUT_TICKS 0" "regs demo_aot = replicate 16 0" "stack_pointer demo_aot = 0"
  "program_counter demo_aot = 0x200"
  by (simp_all add: demo_aot_def aot_start_keeps) (simp_all add: initial_vm_def REGFILE_SIZE_def)

lemma hosted_demo: "hosted demo_aot"
  unfolding hosted_def ticking_def no_quit_def demo_aot_simps using ticks by auto

lemma or_zero: "((OR) (0::u32) ^^ n) 0 = 0"
  by (induction n) simp_all

lemma rom_ok_two: "rom_ok [a, b]"
  by (simp add: rom_ok_def size_defs)

section \<open>One word\<close>



section \<open>A run\<close>

text \<open>
  C11: A compiled program computes what the interpreter computes: as long as the interpreter
  executes words of the ROM that ask for no key and no time, the compiled program comes to a
  state with the same registers, memory, stack, screen and program counter, whatever the two hosts' clocks and
  keyboards do, as long as the compiled program's clock ticks and its user does not quit.
\<close>

theorem aot_runs_program:
  assumes "aot_main target rom = Inr out"
    and "plain_run rom n (boot INTERACTIVE rom (initial_vm rnd clk polls b km)) = Some s1"
    and "\<And>m v. \<exists>k\<ge>m. (clk' k div NANOS_PER_TICK) mod TICKS_PER_SECOND \<noteq> v"
    and "\<And>k key. key \<in> set (polls' k) \<Longrightarrow> key_mask key AND QUIT = 0"
  shows "\<exists>m e t1. aot_run m rom (aot_start secs (initial_vm rnd clk' polls' b' km')) =
      Some (goto (aot_func rom) ''dispatch'' e t1) \<and> core s1 = core t1"
proof -
  let ?f = "aot_func rom"
  have ok: "rom_ok rom" using aot_main_ok [OF assms(1)] by blast
  have c: "core (initial_vm rnd clk polls b km) = core (initial_vm rnd clk' polls' b' km')"
    by (simp add: core_eq initial_vm_def)
  have h: "hosted (initial_vm rnd clk' polls' b' km')"
    using assms(3,4) by (auto simp: hosted_def ticking_def no_quit_def initial_vm_def)
  obtain u where u: "aot_boot rom (aot_start secs (initial_vm rnd clk' polls' b' km')) = Some u"
    "core (boot INTERACTIVE rom (initial_vm rnd clk polls b km)) = core u" "hosted u"
    by (rule aot_booted [OF ok c h])
  obtain e1 t1 where t1: "leads ?f (goto ?f ''dispatch'' Map.empty u) (goto ?f ''dispatch'' e1 t1)" "core s1 = core t1"
    using plain_run_steps [OF ok assms(2) u(2,3)] by blast
  have "leads ?f (goto ?f ''entry'' Map.empty u) (goto ?f ''dispatch'' Map.empty u)"
    by (simp add: goto_def [of ?f "''entry''"] aot_func_frame) (rule leads_At, simp)
  from leads_trans [OF this t1(1)] show ?thesis
    using t1(2) u(1) by (auto simp: leads_def aot_run_def)
qed

lemma aot_runs_program_witness:
  "\<exists>m e t1. aot_run m [0x60, 0x05] (aot_start (\<lambda>_. 0) (initial_vm (\<lambda>_. 0) (\<lambda>k. k * NANOS_PER_TICK) (\<lambda>_. []) 0 BENCH_KEYS_NONE)) =
    Some (goto (aot_func [0x60, 0x05]) ''dispatch'' e t1) \<and> regs t1 ! 0 = 5 \<and> program_counter t1 = 0x202"
proof -
  let ?rom = "[0x60, 0x05] :: u8 list"
  let ?i = "initial_vm (\<lambda>_. 0) (\<lambda>_. 0) (\<lambda>_. []) 100 BENCH_KEYS_NONE"
  define s where "s = boot INTERACTIVE ?rom ?i"
  have s: "memory s = memory (demo_vm ?rom)" "program_counter s = 0x200" "regs s = replicate 16 0"
    by (simp_all add: s_def demo_vm_def boot_def Let_def initial_vm_def size_defs)
  have o: "opcode_at s 0x200 = 0x6005" using demo_opcode [OF s(1)] by simp
  define s1 where "s1 = s\<lparr>opcode := 0x6005, regs := (regs s)[0 := 5], program_counter := 0x202\<rparr>"
  have "dispatch INTERACTIVE (s\<lparr>opcode := 0x6005\<rparr>) = Done 0 s1"
    by (simp add: dispatch_def load_immediate_def STEP_def s1_def s op_x_def imm8_def)
  moreover have "all_keys_down INTERACTIVE s = (0, s)"
    by (simp add: s_def boot_def Let_def initial_vm_def fold_replicate or_zero)
  ultimately have "interp_pass INTERACTIVE False s 0 = Next s1 1"
    by (simp add: interp_pass_def elided_def execute_def basic_block_def s o)
  moreover have "at_rom ?rom s" "plain 0x6005"
    by (simp_all add: at_rom_def s o rom_offsets_def rom_word_def ENTRYPOINT_def plain_def)
  ultimately have p: "plain_run ?rom 1 (boot INTERACTIVE ?rom ?i) = Some s1" by (simp add: s o flip: s_def)
  have c: "aot_main None ?rom = Inr (aot_text None ?rom)" by (simp add: aot_main_def size_defs)
  have "\<exists>m e t1. aot_run m ?rom (aot_start (\<lambda>_. 0) (initial_vm (\<lambda>_. 0) (\<lambda>k. k * NANOS_PER_TICK) (\<lambda>_. []) 0 BENCH_KEYS_NONE)) =
      Some (goto (aot_func ?rom) ''dispatch'' e t1) \<and> core s1 = core t1"
    by (rule aot_runs_program [OF c p ticks]) simp
  then obtain m e t1 where
    "aot_run m ?rom (aot_start (\<lambda>_. 0) (initial_vm (\<lambda>_. 0) (\<lambda>k. k * NANOS_PER_TICK) (\<lambda>_. []) 0 BENCH_KEYS_NONE)) =
      Some (goto (aot_func ?rom) ''dispatch'' e t1)" "core s1 = core t1" by blast
  moreover have "regs t1 = regs s1" "program_counter t1 = program_counter s1"
    using core_reads(1,6) [OF \<open>core s1 = core t1\<close>] by simp_all
  then have "regs t1 ! 0 = 5" "program_counter t1 = 0x202" by (simp_all add: s1_def s)
  ultimately show ?thesis by blast
qed

section \<open>Errors\<close>

lemma retired_run:
  assumes "rom_ok rom" "j \<in> set (rom_offsets rom)" "program_counter t = of_nat (ENTRYPOINT + j)" "hosted t"
  obtains t1 where "core t1 = core t"
    "resumes (aot_func rom) (lowered (512 + j) (rom_word rom j) t1) (goto (aot_func rom) ''dispatch'' e t)"
proof -
  obtain stop t1 where r: "chip8_aot_retire t = (stop, t1)" by fastforce
  have "\<not> stop" "core t1 = core t" using hosted_retire [OF assms(4)] core_retire [of t] by (simp_all add: r)
  then show thesis
    using dispatch_executes(2) [OF assms(1,2) _ r, of e] assms(3) by (intro that) (simp_all add: ENTRYPOINT_def)
qed

lemma fault_leaves:
  assumes "rom_ok rom" "j \<in> set (rom_offsets rom)" "program_counter t = of_nat (ENTRYPOINT + j)" "hosted t"
    and "0 \<le> sint (stack_pointer t)" "faulty t (rom_word rom j)" and k: "drop_bit 12 (rom_word rom j) \<in> {0, 2}"
  shows "\<exists>n t1. ir_steps n (aot_func rom) (goto (aot_func rom) ''dispatch'' e t) = Returned t1 \<and> program_counter t1 = 0xffff"
proof -
  let ?f = "aot_func rom"
  define opc where "opc = rom_word rom j"
  note k = k [folded opc_def] and faulty = assms(6) [folded opc_def, unfolded faulty_def interp_legal_def operand_facts Let_def]
  obtain t1 where t1: "core t1 = core t" and run: "resumes ?f (lowered (512 + j) opc t1) (goto ?f ''dispatch'' e t)"
    unfolding opc_def by (rule retired_run [OF assms(1-4)])
  have "\<exists>t2. lowered (512 + j) opc t1 = Done 0 t2 \<and> program_counter t2 = 0xffff"
  proof (cases "opc = 0xee")
    case True
    then have "sint (stack_pointer t) = 0" using faulty assms(5) by simp
    then have "stack_pointer t = 0" by (simp only: signed_eq_0_iff)
    then have "stack_pointer t1 = 0" using t1 by (simp add: core_eq)
    then show ?thesis using True by (simp add: lowered_def chip8_aot_return_def)
  next
    case False
    then have "opc \<noteq> 0xe0" "unat (drop_bit 12 opc) = 2" "int STACK_SIZE \<le> sint (stack_pointer t)"
      using k faulty by (auto split: if_splits)
    then show ?thesis using False t1 by (simp add: lowered_def Let_def chip8_aot_call_def core_eq)
  qed
  then obtain t2 where t2: "lowered (512 + j) opc t1 = Done 0 t2" "program_counter t2 = 0xffff" by blast
  then obtain e2 where "leads ?f (goto ?f ''dispatch'' e t) (goto ?f ''dispatch'' e2 t2)" using run by (auto simp: resumes_def)
  moreover have "leads ?f (goto ?f ''dispatch'' e2 t2) (Returned t2)"
    by (rule dispatch_leaves) (use rom_offset_bound [OF assms(1), of 65023] t2(2) in auto)
  ultimately show ?thesis using leads_trans t2(2) unfolding leads_def by blast
qed

lemma fault_skipped:
  assumes "rom_ok rom" "j \<in> set (rom_offsets rom)" "program_counter t = of_nat (ENTRYPOINT + j)" "hosted t"
    and "faulty t (rom_word rom j)" and k: "drop_bit 12 (rom_word rom j) \<in> {8, 0xf}"
  shows "\<exists>n e1 t1. ir_steps n (aot_func rom) (goto (aot_func rom) ''dispatch'' e t) = goto (aot_func rom) ''dispatch'' e1 t1 \<and>
    core t1 = core (t\<lparr>program_counter := program_counter t + 2\<rparr>)"
proof -
  let ?f = "aot_func rom"
  define opc where "opc = rom_word rom j"
  note k = k [folded opc_def] and faulty = assms(5) [folded opc_def, unfolded faulty_def interp_legal_def operand_facts Let_def]
  obtain t1 where t1: "core t1 = core t" and run: "resumes ?f (lowered (512 + j) opc t1) (goto ?f ''dispatch'' e t)"
    unfolding opc_def by (rule retired_run [OF assms(1-4)])
  have z: "opc \<noteq> 0xe0" "opc \<noteq> 0xee" using k by auto
  have "lowered (512 + j) opc t1 = advance (512 + j) (Done 0 (t1\<lparr>program_counter := 0xffff\<rparr>))"
  proof (cases "drop_bit 12 opc = 8")
    case True
    then have "opc AND 15 \<notin> {0, 1, 2, 3, 4, 5, 6, 7, 14}" using faulty z by auto
    then have "unat (opc AND 15) \<notin> {0, 1, 2, 3, 4, 5, 6, 7, 14}" by (simp add: unat_eqs)
    then have "chip8_aot_alu x y (unat (opc AND 15)) t1 = t1\<lparr>program_counter := 0xffff\<rparr>" for x y
      by (simp add: chip8_aot_alu_def Let_def)
    then show ?thesis using True z by (simp add: lowered_def Let_def)
  next
    case False
    then have f: "drop_bit 12 opc = 0xf" using k by simp
    then have "opc AND 255 \<notin> {7, 10, 21, 24, 30, 41, 51, 85, 101}" using faulty z by auto
    then have "unat (opc AND 255) \<notin> {7, 10, 21, 24, 30, 41, 51, 85, 101}" by (simp add: unat_eqs)
    then have "chip8_aot_f x (unat (opc AND 255)) t1 = Some (t1\<lparr>program_counter := 0xffff\<rparr>)" for x
      by (simp add: chip8_aot_f_def)
    then show ?thesis using f z by (simp add: lowered_def Let_def status_ok_def)
  qed
  then obtain e2 t2 where t2: "leads ?f (goto ?f ''dispatch'' e t) (goto ?f ''dispatch'' e2 t2)"
      "t2 = t1\<lparr>program_counter := of_nat (512 + j + 2)\<rparr>"
    using run by (auto simp: resumes_def advance_def)
  have "core t2 = core (t\<lparr>program_counter := program_counter t + 2\<rparr>)"
    using t1 unfolding t2(2) core_eq assms(3) ENTRYPOINT_def by simp
  then show ?thesis using t2(1) unfolding leads_def by blast
qed

lemma fault_as_key:
  assumes "faulty t opc" and k: "drop_bit 12 opc = 0xe"
  shows "op_code a opc = op_code a (opc AND 0xff00 OR 0x9e)"
proof -
  note faulty = assms(1) [unfolded faulty_def interp_legal_def operand_facts Let_def]
  let ?o = "opc AND 0xff00 OR 0x9e"
  have "opc AND 255 \<noteq> 0xa1" using faulty k by (auto split: if_splits)
  moreover have "?o AND 255 = 0x9e"
    by (rule bit_word_eqI) (auto simp: bit_simps less_Suc_eq numeral_eq_Suc)
  moreover have "drop_bit 12 opc AND 15 = drop_bit 12 opc" using operand_facts(6) [of opc] by (simp add: drop_bit_and)
  then have "drop_bit 12 ?o = drop_bit 12 opc" by (simp add: drop_bit_or drop_bit_and)
  moreover have "drop_bit 8 ?o AND 15 = drop_bit 8 opc AND 15" by (simp add: drop_bit_or drop_bit_and and.assoc)
  moreover have "opc \<noteq> 0xe0" "opc \<noteq> 0xee" using k by auto
  moreover have "?o \<noteq> 0xe0" "?o \<noteq> 0xee"
    using calculation(2) by (auto dest: arg_cong [where f = "\<lambda>w. w AND 255"])
  ultimately show ?thesis by (simp add: op_code_def Let_def k)
qed

text \<open>
  C14: Where the interpreter stops with an error the compiled program does one of three things: on
  an under- or overflow of the stack it leaves, with the program counter at \<^verbatim>\<open>0xffff\<close>; an
  undefined \<^verbatim>\<open>8xyn\<close> or \<^verbatim>\<open>Fxkk\<close> is skipped; an undefined \<^verbatim>\<open>Exkk\<close> is compiled as \<^verbatim>\<open>Ex9E\<close>.
\<close>

theorem aot_errors:
  assumes "rom_ok rom" "j \<in> set (rom_offsets rom)" "program_counter t = of_nat (ENTRYPOINT + j)" "hosted t"
    and "0 \<le> sint (stack_pointer t)" "faulty t (rom_word rom j)"
  shows "(drop_bit 12 (rom_word rom j) \<in> {0, 2} \<longrightarrow>
      (\<exists>n t1. ir_steps n (aot_func rom) (goto (aot_func rom) ''dispatch'' e t) = Returned t1 \<and> program_counter t1 = 0xffff)) \<and>
    (drop_bit 12 (rom_word rom j) \<in> {8, 0xf} \<longrightarrow>
      (\<exists>n e1 t1. ir_steps n (aot_func rom) (goto (aot_func rom) ''dispatch'' e t) = goto (aot_func rom) ''dispatch'' e1 t1 \<and>
        core t1 = core (t\<lparr>program_counter := program_counter t + 2\<rparr>))) \<and>
    (drop_bit 12 (rom_word rom j) = 0xe \<longrightarrow>
      op_code (ENTRYPOINT + j) (rom_word rom j) = op_code (ENTRYPOINT + j) (rom_word rom j AND 0xff00 OR 0x9e))"
  using fault_leaves [OF assms] fault_skipped [OF assms(1-4,6)] fault_as_key [OF assms(6)] by blast

lemma aot_errors_witness:
  "\<exists>n t1. ir_steps n (aot_func [0x00, 0xee]) (goto (aot_func [0x00, 0xee]) ''dispatch'' Map.empty demo_aot) = Returned t1 \<and>
    program_counter t1 = 0xffff"
proof -
  have w: "rom_word [0x00, 0xee] 0 = 0xee" by (simp add: rom_word_def)
  have "faulty demo_aot (rom_word [0x00, 0xee] 0)"
    by (simp add: faulty_def w demo_aot_simps)
  from aot_errors [OF rom_ok_two _ _ hosted_demo _ this, of Map.empty] show ?thesis
    by (simp add: w demo_aot_simps rom_offsets_def ENTRYPOINT_def)
qed

end
