(* ===== verification/C8_Jit.thy ===== *)
theory C8_Jit
  imports C8_Interp
begin

text \<open>
  The trace compiler of \<^verbatim>\<open>libgccjit_jit.c\<close>: its globals, the host helpers compiled traces
  call, the code generator, and the dispatch loop with its trace cache.

  libgccjit is not part of the repository. What \<^verbatim>\<open>codegen\<close> hands to it is data here: a trace
  is the code \<^verbatim>\<open>gcc_jit_function_new_block\<close> and the calls on blocks built, as one tree per
  CHIP-8 address (\<^verbatim>\<open>pc_block\<close>) whose inner nodes are the unnamed blocks of a safepoint, a
  skip or a back edge. The dispatch loop takes the compiler as an argument \<open>gcc\<close>, which maps a
  trace to its executable or to a failure; \<open>run_trace\<close> is what the interface documents the
  executable to do.
\<close>

section \<open>State\<close>

text \<open>
  \<open>alarm_seq k\<close> says whether the interval timer's signal arrived before the k-th look at
  \<^verbatim>\<open>interrupt_pending\<close>. A cached trace is kept as the code it was compiled from.
\<close>

datatype ctype = U8 | U16 | C_int | I64

datatype place = Reg nat | Addr | Pc | Delay_timer | Sound_timer
  | Program_over | Interrupt_pending | Retired | Next_safepoint | Snap nat

datatype binary_op = PLUS | MINUS | MULT | LSHIFT | RSHIFT | BITWISE_AND | BITWISE_OR | BITWISE_XOR

datatype comparison = Equal | Not_equal | Greater_equal | Greater

datatype rvalue =
    From_int ctype nat
  | As_rvalue place
  | Cast rvalue ctype
  | Binary binary_op ctype rvalue rvalue
  | Comparison comparison rvalue rvalue

datatype host_fn =
    H_interrupt | H_check_interrupt | H_clearscreen_io | H_retern | H_call | H_random_byte | H_draw
  | H_bench_safepoint | H_skip_key_x_down | H_skip_key_x_up | H_load_on_key | H_store_bcd
  | H_save_registers | H_restore_registers | H_sync_timers | H_jit_idle_wait

datatype stmt =
    Add_assignment place rvalue
  | Add_assignment_op place binary_op rvalue
  | Add_eval host_fn

text \<open>
  \<open>Slow_path r f k\<close> is the diamond of a safepoint: a block that calls \<open>f\<close> if \<open>r\<close> holds, joined
  by \<open>k\<close>. \<open>End_with_jump a\<close> goes to the block of address \<open>a\<close>.
\<close>

datatype block =
    Stmt stmt block
  | Slow_path rvalue host_fn block
  | End_with_conditional rvalue block block
  | End_with_jump u16
  | End_with_void_return

type_synonym trace = "block \<times> (u16 \<times> block) list"

record jit = vm +
  alarm_seq :: "nat \<Rightarrow> bool"
  alarm_pos :: nat
  interrupt_pending :: bool
  program_over :: bool
  smc_pending :: bool
  elide_idle :: bool
  code_bytes :: "bool list"
  trace_cache :: "u16 \<Rightarrow> trace option"
  bench_compiled :: nat
  bench_flushes :: nat

definition SAFEPOINT_INTERVAL :: nat where "SAFEPOINT_INTERVAL = 32"

definition jit_mark_code :: "u16 \<Rightarrow> nat \<Rightarrow> 'a jit_scheme \<Rightarrow> 'a jit_scheme" where
  "jit_mark_code a n s =
     s\<lparr>code_bytes := fold (\<lambda>i c. c[mem_index (a + of_nat i) := True]) [0..<n] (code_bytes s)\<rparr>"

definition note_store :: "u16 \<Rightarrow> nat \<Rightarrow> 'a jit_scheme \<Rightarrow> 'a jit_scheme" where
  "note_store a n s =
     (if list_ex (\<lambda>i. code_bytes s ! mem_index (a + of_nat i)) [0..<n]
      then s\<lparr>smc_pending := True\<rparr> else s)"

section \<open>Timers and keys\<close>

text \<open>
  The services every engine has a copy of. They come to the interpreter's, by which the proofs know
  them.
\<close>

fun jit_clear_key :: "build \<Rightarrow> u8 \<Rightarrow> 'a vm_scheme \<Rightarrow> 'a vm_scheme" where
  "jit_clear_key BENCH key s = bench_clear_key key s"
| "jit_clear_key INTERACTIVE key s =
     s\<lparr>keys_down := map (\<lambda>k. k AND NOT (push_bit (unat key) 1)) (keys_down s)\<rparr>"

fun jit_all_keys_down :: "build \<Rightarrow> 'a vm_scheme \<Rightarrow> u32 \<times> 'a vm_scheme" where
  "jit_all_keys_down BENCH s = bench_keys_now s"
| "jit_all_keys_down INTERACTIVE s = (fold (OR) (keys_down s) 0, s)"

fun jit_tick :: "build \<Rightarrow> 'a vm_scheme \<Rightarrow> int \<times> 'a vm_scheme" where
  "jit_tick BENCH s = (bench_tick s, s)"
| "jit_tick INTERACTIVE s =
     (int ((clock_nsec s (clock_pos s) div NANOS_PER_TICK) mod TICKS_PER_SECOND), s\<lparr>clock_pos := Suc (clock_pos s)\<rparr>)"

definition jit_sync_timers :: "'a vm_scheme \<Rightarrow> 'a vm_scheme" where
  "jit_sync_timers s =
     (let (now, s1) = jit_tick BENCH s; elapsed = now - last_tick s1 in
      if elapsed > 0
      then s1\<lparr>delay_timer := (if int (unat (delay_timer s1)) > elapsed then word_of_int (int (unat (delay_timer s1)) - elapsed) else 0),
              sound_timer := (if int (unat (sound_timer s1)) > elapsed then word_of_int (int (unat (sound_timer s1)) - elapsed) else 0),
              last_tick := now\<rparr>
      else s1)"

fun jit_interrupt :: "build \<Rightarrow> 'a vm_scheme \<Rightarrow> 'a vm_scheme" where
  "jit_interrupt BENCH s = jit_sync_timers s"
| "jit_interrupt INTERACTIVE s =
     (let (current_tick, s1) = jit_tick INTERACTIVE s;
          s2 = (if current_tick \<noteq> last_tick s1
                then s1\<lparr>delay_timer := (if delay_timer s1 > 0 then delay_timer s1 - 1 else delay_timer s1),
                        sound_timer := (if sound_timer s1 > 0 then sound_timer s1 - 1 else sound_timer s1),
                        last_tick := current_tick\<rparr>
                else s1);
          (keys, s3) = read_keys_io INTERACTIVE s2
      in s3\<lparr>keys_down := (keys_down s3)[interrupt_count s3 := keys],
            interrupt_count := (interrupt_count s3 + 1) mod INPUT_TICKS\<rparr>)"

text \<open>The loop of \<^verbatim>\<open>draw\<close> that holds the frame, and the one of \<^verbatim>\<open>load_on_key\<close> over the keys.\<close>

partial_function (option) jit_wait_tick :: "'a vm_scheme \<Rightarrow> (int \<times> 'a vm_scheme) option" where
  "jit_wait_tick s =
     (let (current_tick, s1) = jit_tick INTERACTIVE s
      in if current_tick = last_tick s1 then jit_wait_tick s1 else Some (current_tick, s1))"

definition jit_frame_sync :: "build \<Rightarrow> 'a vm_scheme \<Rightarrow> 'a vm_scheme option" where
  "jit_frame_sync b s =
     (if b = BENCH then Some s
      else map_option (\<lambda>(current_tick, s1). s1\<lparr>last_tick := current_tick\<rparr>) (jit_wait_tick s))"

definition jit_take_key :: "build \<Rightarrow> nat \<Rightarrow> u32 \<Rightarrow> nat \<Rightarrow> 'a vm_scheme \<Rightarrow> 'a vm_scheme" where
  "jit_take_key b x all_keys i s =
     (let s1 = jit_clear_key b (of_nat i) s
      in if all_keys AND push_bit i 1 \<noteq> 0 then set_reg x (of_nat i) s1 else s1)"

lemma jit_clear_key_eq [simp]: "jit_clear_key b = clear_key b"
  by (cases b) (intro ext, simp)+

lemma jit_all_keys_down_eq [simp]: "jit_all_keys_down b = all_keys_down b"
  by (cases b) (intro ext, simp)+

lemma jit_tick_eq [simp]: "jit_tick b = tick b"
  by (cases b) (intro ext, simp)+

lemma jit_sync_timers_eq [simp]: "jit_sync_timers = sync_timers"
  by (intro ext) (simp add: jit_sync_timers_def sync_timers_def timer_sub_def Let_def)

lemma jit_interrupt_eq [simp]: "jit_interrupt b = interrupt b"
  by (cases b) (intro ext, simp)+

lemma jit_wait_tick_eq [simp]: "jit_wait_tick s = wait_tick s"
proof -
  have "wait_tick s = Some r" if "jit_wait_tick s = Some r" for s :: "'a vm_scheme" and r
    by (rule jit_wait_tick.raw_induct [OF _ that]) (subst wait_tick.simps, auto simp: Let_def split: prod.splits if_splits)
  moreover have "jit_wait_tick s = Some r" if "wait_tick s = Some r" for s :: "'a vm_scheme" and r
    by (rule wait_tick.raw_induct [OF _ that]) (subst jit_wait_tick.simps, auto simp: Let_def split: prod.splits if_splits)
  ultimately show ?thesis by (metis option.exhaust)
qed

lemma jit_frame_sync_eq [simp]: "jit_frame_sync b = frame_sync b"
  by (intro ext) (simp add: jit_frame_sync_def frame_sync_def)

lemma jit_take_key_eq [simp]: "jit_take_key b = take_key b"
  by (intro ext) (simp add: jit_take_key_def take_key_def)

section \<open>Host helpers\<close>

text \<open>
  A helper returns, or ends the process through \<^verbatim>\<open>errer\<close>, or shifts by 32 or more; \<open>None\<close> is a
  helper that never returns.
\<close>

datatype 's run = Returns 's | Exits 's | Undef

definition alarm :: "'a jit_scheme \<Rightarrow> 'a jit_scheme" where
  "alarm s =
     s\<lparr>interrupt_pending := interrupt_pending s \<or> alarm_seq s (alarm_pos s), alarm_pos := Suc (alarm_pos s)\<rparr>"

definition check_interrupt :: "build \<Rightarrow> 'a jit_scheme \<Rightarrow> 'a jit_scheme" where
  "check_interrupt b s =
     (if b = BENCH
      then let s1 = jit_interrupt BENCH s
           in if bench_done s1 then s1\<lparr>program_over := True\<rparr> else s1
      else let s1 = alarm s
           in if interrupt_pending s1
              then let s2 = jit_interrupt INTERACTIVE (s1\<lparr>interrupt_pending := False\<rparr>)
                   in if fst (jit_all_keys_down INTERACTIVE s2) AND QUIT \<noteq> 0
                      then s2\<lparr>program_over := True\<rparr> else s2
              else s1)"

partial_function (option) jit_idle_loop :: "'a jit_scheme \<Rightarrow> 'a jit_scheme option" where
  "jit_idle_loop s =
     (if delay_timer s \<noteq> 0
      then if fst (jit_all_keys_down INTERACTIVE s) AND QUIT \<noteq> 0 then Some (s\<lparr>program_over := True\<rparr>)
           else jit_idle_loop (jit_interrupt INTERACTIVE s)
      else Some s)"

definition jit_idle_wait :: "'a jit_scheme \<Rightarrow> 'a jit_scheme option" where
  "jit_idle_wait s =
     (case chip8_idle_delay_loop s (program_counter s) of
        None \<Rightarrow> Some s
      | Some reg \<Rightarrow> map_option (set_reg reg 0) (jit_idle_loop s))"

definition bench_safepoint :: "'a jit_scheme \<Rightarrow> 'a jit_scheme" where
  "bench_safepoint s = bench_advance_safepoint (check_interrupt BENCH s)"

definition errer :: "'a jit_scheme \<Rightarrow> 'a jit_scheme run" where
  "errer s = Exits s"

definition jit_retern :: "build \<Rightarrow> 'a jit_scheme \<Rightarrow> 'a jit_scheme run" where
  "jit_retern b s =
     (let s1 = check_interrupt b s in
      if sint (stack_pointer s1) > 0
      then let sp = stack_pointer s1 - 1
           in Returns (s1\<lparr>stack_pointer := sp, program_counter := stack s1 ! nat (sint sp)\<rparr>)
      else errer s1)"

text \<open>\<^verbatim>\<open>op = OP_AT (program_counter)\<close>.\<close>

definition refetch :: "'a vm_scheme \<Rightarrow> 'a vm_scheme" where
  "refetch s = s\<lparr>opcode := opcode_at s (program_counter s)\<rparr>"

definition jit_call :: "build \<Rightarrow> 'a jit_scheme \<Rightarrow> 'a jit_scheme run" where
  "jit_call b s0 =
     (let s = refetch s0; immediate = imm12 (opcode s); s1 = check_interrupt b s in
      if sint (stack_pointer s1) < int STACK_SIZE
      then Returns (s1\<lparr>stack := (stack s1)[nat (sint (stack_pointer s1)) := program_counter s1 + 2],
                       stack_pointer := stack_pointer s1 + 1,
                       program_counter := immediate\<rparr>)
      else errer s1)"

definition jit_random_byte :: "'a jit_scheme \<Rightarrow> 'a jit_scheme" where
  "jit_random_byte s0 =
     (let s = refetch s0; (r, s1) = rand s
      in set_reg (op_x (opcode s)) (ucast (r AND 0xff AND ucast (imm8 (opcode s)))) s1)"

definition jit_store_bcd :: "'a jit_scheme \<Rightarrow> 'a jit_scheme" where
  "jit_store_bcd s0 =
     (let s = note_store (addr s0) 3 (refetch s0);
          tmp = regs s ! op_x (opcode s);
          hundreds = tmp div 100; tmp1 = tmp mod 100;
          tens = tmp1 div 10; tmp2 = tmp1 mod 10;
          a = addr s;
          s1 = mem_set (a + 2) tmp2 (mem_set (a + 1) tens (mem_set (a + 0) hundreds s))
      in s1\<lparr>program_counter := program_counter s1 + 2\<rparr>)"

definition jit_skip_key_x :: "build \<Rightarrow> bool \<Rightarrow> 'a jit_scheme \<Rightarrow> 'a jit_scheme run" where
  "jit_skip_key_x b up s0 =
     (let s = refetch s0; vx = regs s ! op_x (opcode s); (keys, s1) = jit_all_keys_down b s in
      if unat vx \<ge> 32 then Undef
      else let s2 = (if (keys AND push_bit (unat vx) 1 \<noteq> 0) \<noteq> up
                     then let s3 = jit_clear_key b vx s1 in s3\<lparr>program_counter := program_counter s3 + 2\<rparr>
                     else s1)
           in Returns (s2\<lparr>program_counter := program_counter s2 + 2\<rparr>))"

partial_function (option) jit_poll_loop ::
  "build \<Rightarrow> 'a jit_scheme \<Rightarrow> (u32 \<times> 'a jit_scheme) option" where
  "jit_poll_loop b s =
     (let (all_keys, s1) = read_keys_io b s in
      if b = BENCH \<and> bench_done s1 then Some (all_keys, s1\<lparr>program_over := True\<rparr>)
      else if all_keys = 0 then jit_poll_loop b s1
      else Some (all_keys, s1))"

definition jit_load_on_key :: "build \<Rightarrow> 'a jit_scheme \<Rightarrow> 'a jit_scheme run option" where
  "jit_load_on_key b s0 =
     (let s = refetch s0 in
      case jit_poll_loop b s of
        None \<Rightarrow> None
      | Some (all_keys, s1) \<Rightarrow>
          let s2 = fold (jit_take_key b (op_x (opcode s)) all_keys) [0..<16] s1
          in Some (if all_keys AND QUIT \<noteq> 0 then errer s2
                   else Returns (s2\<lparr>program_counter := program_counter s2 + 2\<rparr>)))"

definition jit_draw :: "build \<Rightarrow> 'a jit_scheme \<Rightarrow> 'a jit_scheme option" where
  "jit_draw b s0 =
     (let s = refetch s0;
          x = op_x (opcode s); y = op_y (opcode s); immediate = unat (imm4 (opcode s));
          s1 = check_interrupt b s;
          sprite = map (\<lambda>i. mem_at s1 (addr s1 + of_nat i)) [0..<immediate];
          (vf, s2) = draw_io b (unat (regs s1 ! x)) (unat (regs s1 ! y)) immediate sprite s1
      in jit_frame_sync b (set_reg 15 (of_nat vf) s2))"

definition jit_save_registers :: "'a jit_scheme \<Rightarrow> 'a jit_scheme" where
  "jit_save_registers s0 =
     (let s = refetch s0; x = op_x (opcode s);
          s1 = note_store (addr s) (x + 1) s;
          s2 = fold (\<lambda>i t. mem_set (addr t + of_nat i) (regs t ! i) t) [0..<x + 1] s1
      in s2\<lparr>program_counter := program_counter s2 + 2\<rparr>)"

definition jit_restore_registers :: "'a jit_scheme \<Rightarrow> 'a jit_scheme" where
  "jit_restore_registers s0 =
     (let s = refetch s0
      in fold (\<lambda>i t. set_reg i (mem_at t (addr t + of_nat i)) t) [0..<op_x (opcode s) + 1] s)"

text \<open>The table \<^verbatim>\<open>HOST_FNS\<close>.\<close>

fun host_call :: "build \<Rightarrow> host_fn \<Rightarrow> 'a jit_scheme \<Rightarrow> 'a jit_scheme run option" where
  "host_call b H_interrupt s = Some (Returns (jit_interrupt b s))"
| "host_call b H_check_interrupt s = Some (Returns (check_interrupt b s))"
| "host_call b H_clearscreen_io s = Some (Returns (clearscreen_io b s))"
| "host_call b H_retern s = Some (jit_retern b s)"
| "host_call b H_call s = Some (jit_call b s)"
| "host_call b H_random_byte s = Some (Returns (jit_random_byte s))"
| "host_call b H_draw s = map_option Returns (jit_draw b s)"
| "host_call b H_bench_safepoint s = Some (Returns (bench_safepoint s))"
| "host_call b H_skip_key_x_down s = Some (jit_skip_key_x b False s)"
| "host_call b H_skip_key_x_up s = Some (jit_skip_key_x b True s)"
| "host_call b H_load_on_key s = jit_load_on_key b s"
| "host_call b H_store_bcd s = Some (Returns (jit_store_bcd s))"
| "host_call b H_save_registers s = Some (Returns (jit_save_registers s))"
| "host_call b H_restore_registers s = Some (Returns (jit_restore_registers s))"
| "host_call b H_sync_timers s = Some (Returns (jit_sync_timers s))"
| "host_call b H_jit_idle_wait s = map_option Returns (jit_idle_wait s)"

section \<open>The code generator\<close>

text \<open>
  The macros. \<open>k\<close> is the code that follows; \<^verbatim>\<open>CLOSE_BACKEDGE\<close> ends the block.
\<close>

definition SAFEPOINT :: "build \<Rightarrow> block \<Rightarrow> block" where
  "SAFEPOINT b k =
     (if b = BENCH
      then Slow_path (Comparison Greater_equal (As_rvalue Retired) (As_rvalue Next_safepoint)) H_bench_safepoint k
      else Slow_path (Comparison Not_equal (As_rvalue Interrupt_pending) (From_int C_int 0)) H_check_interrupt k)"

definition CLOSE_BACKEDGE :: "u16 \<Rightarrow> block" where
  "CLOSE_BACKEDGE dst =
     End_with_conditional (Comparison Not_equal (As_rvalue Program_over) (From_int C_int 0))
       End_with_void_return (End_with_jump dst)"

definition RETIRE :: "build \<Rightarrow> nat \<Rightarrow> block \<Rightarrow> block" where
  "RETIRE b n k = (if b = BENCH then Stmt (Add_assignment_op Retired PLUS (From_int I64 n)) k else k)"

definition CALL_HOST :: "host_fn \<Rightarrow> block \<Rightarrow> block" where
  "CALL_HOST f k = Stmt (Add_eval f) k"

definition set_pc :: "u16 \<Rightarrow> block \<Rightarrow> block" where
  "set_pc a k = Stmt (Add_assignment Pc (From_int U16 (unat a))) k"

definition CALL_HOST_OP :: "host_fn \<Rightarrow> u16 \<Rightarrow> block \<Rightarrow> block" where
  "CALL_HOST_OP f pc k = set_pc pc (CALL_HOST f k)"

definition MAYBE_IDLE_WAIT :: "build \<Rightarrow> 'a jit_scheme \<Rightarrow> u16 \<Rightarrow> block \<Rightarrow> block" where
  "MAYBE_IDLE_WAIT b s header k =
     (if b = INTERACTIVE \<and> elide_idle s \<and> chip8_idle_delay_loop s header \<noteq> None
      then CALL_HOST H_jit_idle_wait k else k)"

text \<open>
  What the body of the loop does with one instruction: fail, end the trace, or go on at a next
  address with code to emit in front. The lists hold the addresses of further words it read
  (\<^verbatim>\<open>mark_code\<close>), the number the next free \<^verbatim>\<open>local_id\<close>.
\<close>

datatype emitted =
    Bail_errer
  | Stops "u16 list" block
  | Goes_on "u16 list" nat u16 "block \<Rightarrow> block"

definition emit_jump :: "build \<Rightarrow> 'a jit_scheme \<Rightarrow> nat \<Rightarrow> nat \<Rightarrow> u16 list \<Rightarrow> u16 \<Rightarrow> emitted" where
  "emit_jump b s op_count lid seen opc =
     (let immediate = imm12 opc in
      if immediate \<in> set seen
      then Stops [] (SAFEPOINT b (set_pc immediate (MAYBE_IDLE_WAIT b s immediate (CLOSE_BACKEDGE immediate))))
      else if op_count < 256
      then Goes_on [] lid immediate (\<lambda>k. SAFEPOINT b (set_pc immediate k))
      else Stops [] (SAFEPOINT b (set_pc immediate End_with_void_return)))"

definition emit_skip :: "build \<Rightarrow> 'a jit_scheme \<Rightarrow> u16 \<Rightarrow> nat \<Rightarrow> u16 list \<Rightarrow> u16 \<Rightarrow> emitted" where
  "emit_skip b s pc lid seen opc =
     (let group = unat (drop_bit 12 (opc AND 0xf000));
          fused_op = opcode_at s (pc + 2);
          fused = (fused_op AND 0xf000 = 0x1000);
          fused_target = fused_op AND 0x0fff;
          cmp = (if group = 0x3 \<or> group = 0x5 then Equal else Not_equal);
          vx = As_rvalue (Reg (op_x opc));
          rhs = (if group = 0x3 \<or> group = 0x4 then From_int U8 (unat (imm8 opc)) else As_rvalue (Reg (op_y opc)));
          no_skip =
            (if fused
             then RETIRE b 1 (SAFEPOINT b (set_pc fused_target
               (if fused_target \<in> set seen
                then MAYBE_IDLE_WAIT b s fused_target (CLOSE_BACKEDGE fused_target)
                else End_with_void_return)))
             else set_pc (pc + 2) End_with_void_return)
      in Goes_on [pc + 2] lid (pc + 4)
           (\<lambda>k. End_with_conditional (Comparison cmp vx rhs) (set_pc (pc + 4) k) no_skip))"

definition emit_8 :: "u16 \<Rightarrow> nat \<Rightarrow> u16 \<Rightarrow> emitted" where
  "emit_8 pc lid opc =
     (let rx = Reg (op_x opc); ry = Reg (op_y opc); n = opc AND 0x000f; vf = Reg 15;
          vx = As_rvalue (Snap lid); vy = As_rvalue (Snap (lid + 1));
          op_assign = (\<lambda>bop. Goes_on [] lid (pc + 2) (\<lambda>k. Stmt (Add_assignment_op rx bop (As_rvalue ry)) k));
          snap1 = (\<lambda>k. Stmt (Add_assignment (Snap lid) (As_rvalue rx)) k);
          snap2 = (\<lambda>k. snap1 (Stmt (Add_assignment (Snap (lid + 1)) (As_rvalue ry)) k));
          set2 = (\<lambda>res flag k. Stmt (Add_assignment rx res) (Stmt (Add_assignment vf flag) k))
      in if n = 0x0 then Goes_on [] lid (pc + 2) (\<lambda>k. Stmt (Add_assignment rx (As_rvalue ry)) k)
         else if n = 0x1 then op_assign BITWISE_OR
         else if n = 0x2 then op_assign BITWISE_AND
         else if n = 0x3 then op_assign BITWISE_XOR
         else if n = 0x4 then
           (let sum16 = Binary PLUS U16 (Cast vx U16) (Cast vy U16);
                carry = Comparison Greater sum16 (From_int U16 0xff)
            in Goes_on [] (lid + 2) (pc + 2) (\<lambda>k. snap2 (set2 (Cast sum16 U8) (Cast carry U8) k)))
         else if n = 0x5 then
           Goes_on [] (lid + 2) (pc + 2)
             (\<lambda>k. snap2 (set2 (Binary MINUS U8 vx vy) (Cast (Comparison Greater_equal vx vy) U8) k))
         else if n = 0x6 then
           Goes_on [] (lid + 1) (pc + 2)
             (\<lambda>k. snap1 (set2 (Binary RSHIFT U8 vx (From_int U8 1)) (Binary BITWISE_AND U8 vx (From_int U8 1)) k))
         else if n = 0x7 then
           Goes_on [] (lid + 2) (pc + 2)
             (\<lambda>k. snap2 (set2 (Binary MINUS U8 vy vx) (Cast (Comparison Greater_equal vy vx) U8) k))
         else if n = 0xe then
           (let hi = Binary BITWISE_AND U8 vx (From_int U8 0x80)
            in Goes_on [] (lid + 1) (pc + 2)
                 (\<lambda>k. snap1 (set2 (Binary LSHIFT U8 vx (From_int U8 1)) (Binary RSHIFT U8 hi (From_int U8 7)) k)))
         else Bail_errer)"

definition emit_e :: "u16 \<Rightarrow> u16 \<Rightarrow> emitted" where
  "emit_e pc opc =
     (let kk = opc AND 0x00ff in
      if kk = 0x9e then Stops [] (CALL_HOST_OP H_skip_key_x_down pc End_with_void_return)
      else if kk = 0xa1 then Stops [] (CALL_HOST_OP H_skip_key_x_up pc End_with_void_return)
      else Bail_errer)"

definition sync_call :: "build \<Rightarrow> block \<Rightarrow> block" where
  "sync_call b k = (if b = BENCH then CALL_HOST H_sync_timers k else k)"

definition emit_f :: "build \<Rightarrow> u16 \<Rightarrow> nat \<Rightarrow> u16 \<Rightarrow> emitted" where
  "emit_f b pc lid opc =
     (let kk = opc AND 0x00ff; rx = Reg (op_x opc); vx16 = Cast (As_rvalue rx) U16;
          step = (\<lambda>f. Goes_on [] lid (pc + 2) f)
      in if kk = 0x07 then step (\<lambda>k. sync_call b (Stmt (Add_assignment rx (As_rvalue Delay_timer)) k))
         else if kk = 0x0a then Stops [] (CALL_HOST_OP H_load_on_key pc End_with_void_return)
         else if kk = 0x15 then step (\<lambda>k. sync_call b (Stmt (Add_assignment Delay_timer (As_rvalue rx)) k))
         else if kk = 0x18 then step (\<lambda>k. sync_call b (Stmt (Add_assignment Sound_timer (As_rvalue rx)) k))
         else if kk = 0x1e then step (\<lambda>k. Stmt (Add_assignment_op Addr PLUS vx16) k)
         else if kk = 0x29 then
           step (\<lambda>k. Stmt (Add_assignment Addr
             (Binary MULT U16 (Binary BITWISE_AND U16 vx16 (From_int U16 0x0f)) (From_int U16 5))) k)
         else if kk = 0x33 then Stops [] (CALL_HOST_OP H_store_bcd pc End_with_void_return)
         else if kk = 0x55 then Stops [] (CALL_HOST_OP H_save_registers pc End_with_void_return)
         else if kk = 0x65 then step (\<lambda>k. CALL_HOST_OP H_restore_registers pc k)
         else Bail_errer)"

text \<open>The loads and adds of an immediate, \<open>6xkk\<close> and \<open>7xkk\<close>, and the group \<open>Annn\<close> to \<open>Dxyn\<close>.\<close>

definition emit_immediate :: "nat \<Rightarrow> u16 \<Rightarrow> nat \<Rightarrow> u16 \<Rightarrow> emitted" where [simp]:
  "emit_immediate k pc lid opc =
     (let rx = Reg (op_x opc); immediate = From_int U8 (unat (imm8 opc))
      in Goes_on [] lid (pc + 2) (Stmt (if k = 0x6 then Add_assignment rx immediate else Add_assignment_op rx PLUS immediate)))"

definition emit_address :: "nat \<Rightarrow> u16 \<Rightarrow> nat \<Rightarrow> u16 \<Rightarrow> emitted" where [simp]:
  "emit_address k pc lid opc =
     (let immediate = From_int U16 (unat (imm12 opc)) in
      if k = 0xa then Goes_on [] lid (pc + 2) (Stmt (Add_assignment Addr immediate))
      else if k = 0xb
      then Stops [] (Stmt (Add_assignment Pc (Binary PLUS U16 immediate (Cast (As_rvalue (Reg 0)) U16))) End_with_void_return)
      else if k = 0xc then Goes_on [] lid (pc + 2) (CALL_HOST_OP H_random_byte pc)
      else Goes_on [] lid (pc + 2) (CALL_HOST_OP H_draw pc))"

definition emit :: "build \<Rightarrow> 'a jit_scheme \<Rightarrow> u16 \<Rightarrow> nat \<Rightarrow> nat \<Rightarrow> u16 list \<Rightarrow> emitted" where
  "emit b s pc op_count lid seen =
     (let opc = opcode_at s pc in
      if opc = 0x00e0 then Goes_on [] lid (pc + 2) (CALL_HOST H_clearscreen_io)
      else if opc = 0x00ee then Stops [] (CALL_HOST H_retern End_with_void_return)
      else let k = unat (drop_bit 12 (opc AND 0xf000)) in
        if k = 0x0 \<or> k = 0x1 then emit_jump b s op_count lid seen opc
        else if k = 0x2 then Stops [] (CALL_HOST_OP H_call pc End_with_void_return)
        else if k = 0x3 \<or> k = 0x4 \<or> k = 0x5 \<or> k = 0x9 then emit_skip b s pc lid seen opc
        else if k = 0x6 \<or> k = 0x7 then emit_immediate k pc lid opc
        else if k = 0x8 then emit_8 pc lid opc
        else if k = 0xa \<or> k = 0xb \<or> k = 0xc \<or> k = 0xd then emit_address k pc lid opc
        else if k = 0xe then emit_e pc opc
        else if k = 0xf then emit_f b pc lid opc
        else Bail_errer)"

text \<open>What precedes the code of the instruction in its block: now and then a safepoint, always the count.\<close>

definition block_head :: "build \<Rightarrow> nat \<Rightarrow> block \<Rightarrow> block" where
  "block_head b op_count k =
     (if op_count \<noteq> 0 \<and> op_count mod SAFEPOINT_INTERVAL = 0 then SAFEPOINT b (RETIRE b 1 k) else RETIRE b 1 k)"

text \<open>Falling through onto an address that is compiled already.\<close>

definition fall_back :: "build \<Rightarrow> 'a jit_scheme \<Rightarrow> u16 \<Rightarrow> block" where
  "fall_back b s pc = SAFEPOINT b (set_pc pc (MAYBE_IDLE_WAIT b s pc (CLOSE_BACKEDGE pc)))"

text \<open>
  The loop, from address \<open>pc\<close> with the addresses \<open>seen\<close> compiled so far. It returns the addresses
  of the words read, the last opcode read (the global \<^verbatim>\<open>op\<close>), and the code: what leads into
  \<open>pc\<close> and the blocks from there on. \<^verbatim>\<open>pc_block\<close> has \<^verbatim>\<open>MEMORY_SIZE\<close> entries; an access
  beyond is undefined.
\<close>

datatype generated = Generated block "(u16 \<times> block) list" | Failed | Out_of_bounds

fun add_block :: "u16 \<Rightarrow> (block \<Rightarrow> block) \<Rightarrow> generated \<Rightarrow> generated" where
  "add_block pc f (Generated k bs) = Generated (End_with_jump pc) ((pc, f k) # bs)"
| "add_block pc f Failed = Failed"
| "add_block pc f Out_of_bounds = Out_of_bounds"

function gen :: "build \<Rightarrow> 'a jit_scheme \<Rightarrow> u16 \<Rightarrow> nat \<Rightarrow> nat \<Rightarrow> u16 list \<Rightarrow> u16 list \<times> u16 \<times> generated" where
  "gen b s pc op_count lid seen =
     (let opc = opcode_at s pc in
      if unat pc \<ge> MEMORY_SIZE then ([pc], opc, Out_of_bounds)
      else if pc \<in> set seen then ([pc], opc, Generated (fall_back b s pc) [])
      else case emit b s pc op_count lid (pc # seen) of
             Bail_errer \<Rightarrow> ([pc], opc, Failed)
           | Stops marks k \<Rightarrow>
               (pc # marks, opc, Generated (End_with_jump pc) [(pc, block_head b op_count k)])
           | Goes_on marks lid1 pc1 f \<Rightarrow>
               (let (marks1, opc1, g) = gen b s pc1 (op_count + 1) lid1 (pc # seen)
                in (pc # marks @ marks1, opc1, add_block pc (\<lambda>k. block_head b op_count (f k)) g)))"
  by pat_completeness auto
termination
proof (relation "measure (\<lambda>(b, s, pc, n, lid, seen). card (UNIV - set seen))", simp, goal_cases)
  case (1 b s pc n lid seen opc marks lid1 pc1 f)
  have "UNIV - set (pc # seen) \<subset> UNIV - set seen" using 1(3) by auto
  then show ?case by (simp add: psubset_card_mono del: set_simps)
qed

declare gen.simps [simp del]

text \<open>
  \<^verbatim>\<open>codegen\<close>: the trace from the program counter, and the state with the words read marked as
  code.
\<close>

definition codegen :: "build \<Rightarrow> 'a jit_scheme \<Rightarrow> generated \<times> 'a jit_scheme" where
  "codegen b s =
     (let (marks, opc, g) = gen b s (program_counter s) 0 0 []
      in (g, (fold (\<lambda>a. jit_mark_code a 2) marks s)\<lparr>opcode := opc\<rparr>))"

section \<open>Executing a trace\<close>

text \<open>
  Integer expressions of libgccjit: unsigned arithmetic modulo the width. The 64-bit clock
  counters are naturals, as in the I/O layer. A comparison is 0 or 1.
\<close>

fun wrap :: "ctype \<Rightarrow> nat \<Rightarrow> nat" where
  "wrap U8 n = n mod 2 ^ 8"
| "wrap U16 n = n mod 2 ^ 16"
| "wrap C_int n = n mod 2 ^ 32"
| "wrap I64 n = n"

fun get_place :: "place \<Rightarrow> (nat \<Rightarrow> u8) \<Rightarrow> 'a jit_scheme \<Rightarrow> nat" where
  "get_place (Reg r) l s = unat (regs s ! r)"
| "get_place Addr l s = unat (addr s)"
| "get_place Pc l s = unat (program_counter s)"
| "get_place Delay_timer l s = unat (delay_timer s)"
| "get_place Sound_timer l s = unat (sound_timer s)"
| "get_place Program_over l s = of_bool (program_over s)"
| "get_place Interrupt_pending l s = of_bool (interrupt_pending s)"
| "get_place Retired l s = bench_retired s"
| "get_place Next_safepoint l s = bench_next_safepoint s"
| "get_place (Snap i) l s = unat (l i)"

fun set_place :: "place \<Rightarrow> nat \<Rightarrow> (nat \<Rightarrow> u8) \<times> 'a jit_scheme \<Rightarrow> (nat \<Rightarrow> u8) \<times> 'a jit_scheme" where
  "set_place (Reg r) n (l, s) = (l, set_reg r (of_nat n) s)"
| "set_place Addr n (l, s) = (l, s\<lparr>addr := of_nat n\<rparr>)"
| "set_place Pc n (l, s) = (l, s\<lparr>program_counter := of_nat n\<rparr>)"
| "set_place Delay_timer n (l, s) = (l, s\<lparr>delay_timer := of_nat n\<rparr>)"
| "set_place Sound_timer n (l, s) = (l, s\<lparr>sound_timer := of_nat n\<rparr>)"
| "set_place Program_over n (l, s) = (l, s\<lparr>program_over := n \<noteq> 0\<rparr>)"
| "set_place Interrupt_pending n (l, s) = (l, s\<lparr>interrupt_pending := n \<noteq> 0\<rparr>)"
| "set_place Retired n (l, s) = (l, s\<lparr>bench_retired := n\<rparr>)"
| "set_place Next_safepoint n (l, s) = (l, s\<lparr>bench_next_safepoint := n\<rparr>)"
| "set_place (Snap i) n (l, s) = (l(i := of_nat n), s)"

fun place_type :: "place \<Rightarrow> ctype" where
  "place_type (Reg r) = U8"
| "place_type Addr = U16"
| "place_type Pc = U16"
| "place_type Delay_timer = U8"
| "place_type Sound_timer = U8"
| "place_type Program_over = C_int"
| "place_type Interrupt_pending = C_int"
| "place_type Retired = I64"
| "place_type Next_safepoint = I64"
| "place_type (Snap i) = U8"

fun width_of :: "ctype \<Rightarrow> nat" where
  "width_of U8 = 2 ^ 8" | "width_of U16 = 2 ^ 16" | "width_of C_int = 2 ^ 32" | "width_of I64 = 2 ^ 64"

fun apply_op :: "binary_op \<Rightarrow> ctype \<Rightarrow> nat \<Rightarrow> nat \<Rightarrow> nat" where
  "apply_op PLUS t m n = wrap t (m + n)"
| "apply_op MINUS t m n = wrap t (m + (width_of t - n))"
| "apply_op MULT t m n = wrap t (m * n)"
| "apply_op LSHIFT t m n = wrap t (m * 2 ^ n)"
| "apply_op RSHIFT t m n = m div 2 ^ n"
| "apply_op BITWISE_AND t m n = m AND n"
| "apply_op BITWISE_OR t m n = m OR n"
| "apply_op BITWISE_XOR t m n = m XOR n"

fun compare_with :: "comparison \<Rightarrow> nat \<Rightarrow> nat \<Rightarrow> bool" where
  "compare_with Equal m n \<longleftrightarrow> m = n"
| "compare_with Not_equal m n \<longleftrightarrow> m \<noteq> n"
| "compare_with Greater_equal m n \<longleftrightarrow> n \<le> m"
| "compare_with Greater m n \<longleftrightarrow> n < m"

fun eval :: "(nat \<Rightarrow> u8) \<Rightarrow> 'a jit_scheme \<Rightarrow> rvalue \<Rightarrow> nat" where
  "eval l s (From_int t n) = wrap t n"
| "eval l s (As_rvalue p) = get_place p l s"
| "eval l s (Cast r t) = wrap t (eval l s r)"
| "eval l s (Binary f t r q) = apply_op f t (eval l s r) (eval l s q)"
| "eval l s (Comparison f r q) = of_bool (compare_with f (eval l s r) (eval l s q))"

fun run_stmt :: "build \<Rightarrow> stmt \<Rightarrow> (nat \<Rightarrow> u8) \<times> 'a jit_scheme \<Rightarrow> ((nat \<Rightarrow> u8) \<times> 'a jit_scheme run) option" where
  "run_stmt b (Add_assignment p r) (l, s) =
     (let (l1, s1) = set_place p (eval l s r) (l, s) in Some (l1, Returns s1))"
| "run_stmt b (Add_assignment_op p f r) (l, s) =
     (let (l1, s1) = set_place p (apply_op f (place_type p) (get_place p l s) (eval l s r)) (l, s)
      in Some (l1, Returns s1))"
| "run_stmt b (Add_eval f) (l, s) = map_option (Pair l) (host_call b f s)"

text \<open>
  The signal may arrive whenever a safepoint looks at \<^verbatim>\<open>interrupt_pending\<close>; the build for
  benchmarks installs no timer.
\<close>

definition look :: "build \<Rightarrow> 'a jit_scheme \<Rightarrow> 'a jit_scheme" where
  "look b s = (if b = BENCH then s else alarm s)"

partial_function (option) run_block ::
  "build \<Rightarrow> (u16 \<times> block) list \<Rightarrow> block \<Rightarrow> (nat \<Rightarrow> u8) \<Rightarrow> 'a jit_scheme \<Rightarrow> 'a jit_scheme run option" where
  "run_block b bs k l s =
     (case k of
        End_with_void_return \<Rightarrow> Some (Returns s)
      | End_with_jump a \<Rightarrow>
          (case map_of bs a of None \<Rightarrow> Some Undef | Some k1 \<Rightarrow> run_block b bs k1 l s)
      | End_with_conditional r k1 k2 \<Rightarrow>
          (if eval l s r \<noteq> 0 then run_block b bs k1 l s else run_block b bs k2 l s)
      | Slow_path r f k1 \<Rightarrow>
          (let s1 = look b s in
           if eval l s1 r \<noteq> 0
           then case host_call b f s1 of
                  None \<Rightarrow> None
                | Some (Returns s2) \<Rightarrow> run_block b bs k1 l s2
                | Some p \<Rightarrow> Some p
           else run_block b bs k1 l s1)
      | Stmt st k1 \<Rightarrow>
          (case run_stmt b st (l, s) of
             None \<Rightarrow> None
           | Some (l1, p) \<Rightarrow>
               (case p of Returns s1 \<Rightarrow> run_block b bs k1 l1 s1 | Exits s1 \<Rightarrow> Some (Exits s1) | Undef \<Rightarrow> Some Undef)))"

definition run_trace :: "build \<Rightarrow> trace \<Rightarrow> 'a jit_scheme \<Rightarrow> 'a jit_scheme run option" where
  "run_trace b T s = run_block b (snd T) (fst T) (\<lambda>_. 0) s"

section \<open>The dispatch loop\<close>

datatype 's jit_pass = Go_on 's nat | Report 's nat | Exit_error 's | Never | Undefined_run

text \<open>
  The part of a pass after the trace: timers and input, the flush of every trace when code was
  overwritten, the stop test.
\<close>

definition flush :: "build \<Rightarrow> 'a jit_scheme \<Rightarrow> 'a jit_scheme" where
  "flush b s =
     (if smc_pending s
      then s\<lparr>trace_cache := (\<lambda>_. None), code_bytes := replicate MEMORY_SIZE False, smc_pending := False,
             bench_flushes := (if b = BENCH then bench_flushes s + 1 else bench_flushes s)\<rparr>
      else s)"

definition after_trace :: "build \<Rightarrow> 'a jit_scheme \<Rightarrow> nat \<Rightarrow> 'a jit_scheme jit_pass" where
  "after_trace b s count =
     (let s1 = flush b (check_interrupt b s); (keys, s2) = jit_all_keys_down b s1 in
      if keys AND QUIT \<noteq> 0 \<or> program_over s2 then Report s2 count else Go_on s2 (count + 1))"

text \<open>
  \<open>gcc T\<close> is the executable \<^verbatim>\<open>gcc_jit_context_compile\<close> and \<^verbatim>\<open>gcc_jit_result_get_code\<close> give for
  the trace, or \<open>None\<close> if they fail.
\<close>

definition compile_pass ::
  "(trace \<Rightarrow> ('a jit_scheme \<Rightarrow> 'a jit_scheme run option) option) \<Rightarrow> build \<Rightarrow> 'a jit_scheme \<Rightarrow> nat \<Rightarrow> 'a jit_scheme jit_pass" where
  "compile_pass gcc b s count =
     (let (g, s1) = codegen b s in
      case g of
        Failed \<Rightarrow> Report s1 count
      | Out_of_bounds \<Rightarrow> Undefined_run
      | Generated k bs \<Rightarrow>
          (case gcc (k, bs) of
             None \<Rightarrow> Report s1 count
           | Some f \<Rightarrow>
               Go_on (s1\<lparr>trace_cache := (trace_cache s1)(program_counter s1 \<mapsto> (k, bs)),
                         bench_compiled := (if b = BENCH then bench_compiled s1 + 1 else bench_compiled s1)\<rparr>) count))"

definition jit_pass ::
  "(trace \<Rightarrow> ('a jit_scheme \<Rightarrow> 'a jit_scheme run option) option) \<Rightarrow> build \<Rightarrow> 'a jit_scheme \<Rightarrow> nat \<Rightarrow> 'a jit_scheme jit_pass" where
  "jit_pass gcc b s count =
     (case trace_cache s (program_counter s) of
        None \<Rightarrow> compile_pass gcc b s count
      | Some T \<Rightarrow>
          (case gcc T of
             None \<Rightarrow> Undefined_run
           | Some f \<Rightarrow>
               (case f s of
                  None \<Rightarrow> Never
                | Some (Exits s1) \<Rightarrow> Exit_error s1
                | Some Undef \<Rightarrow> Undefined_run
                | Some (Returns s1) \<Rightarrow> after_trace b s1 count)))"

partial_function (option) jit_loop ::
  "(trace \<Rightarrow> ('a jit_scheme \<Rightarrow> 'a jit_scheme run option) option) \<Rightarrow> build \<Rightarrow> 'a jit_scheme \<Rightarrow> nat \<Rightarrow> 'a jit_scheme jit_pass option" where
  "jit_loop gcc b s count =
     (case jit_pass gcc b s count of
        Go_on s1 count1 \<Rightarrow> jit_loop gcc b s1 count1
      | p \<Rightarrow> Some p)"

text \<open>\<^verbatim>\<open>main\<close> starts as the interpreter does, with nothing compiled.\<close>

definition jit_start :: "(nat \<Rightarrow> bool) \<Rightarrow> bool \<Rightarrow> vm \<Rightarrow> jit" where
  "jit_start alarms elide s =
     vm.extend s \<lparr>alarm_seq = alarms, alarm_pos = 0, interrupt_pending = False, program_over = False,
       smc_pending = False, elide_idle = elide, code_bytes = replicate MEMORY_SIZE False,
       trace_cache = (\<lambda>_. None), bench_compiled = 0, bench_flushes = 0\<rparr>"

definition jit_main ::
  "(trace \<Rightarrow> (jit \<Rightarrow> jit run option) option) \<Rightarrow> build \<Rightarrow> u8 list \<Rightarrow> jit \<Rightarrow> string + jit jit_pass option" where
  "jit_main gcc b rom s =
     (if rom = [] then Inl ''Could not read ROM''
      else Inr (jit_loop gcc b (boot b rom s) 0))"

end
