(* ===== verification/C8_Llvm.thy ===== *)
theory C8_Llvm
  imports C8_Jit
begin

text \<open>
  The trace compiler \<^verbatim>\<open>llvm_jit.cpp\<close>: its globals, the host helpers compiled traces call, the
  code generator, and the dispatch loop with its trace cache. The file repeats the helpers and the
  loop of \<^verbatim>\<open>libgccjit_jit.c\<close>; they are translated again from this source, with the prefix \<open>l_\<close>
  where a name is taken. The timer and key services are the interpreter's, line for line.

  LLVM is not part of the repository. What \<^verbatim>\<open>codegen\<close> builds is data: the instructions an
  \<^verbatim>\<open>IRBuilder\<close> makes, one tree of blocks for each CHIP-8 address, with the names of the C++
  variables as the names of values. The dispatch loop takes the compiler as an argument \<open>orc\<close>.
\<close>

section \<open>Modules\<close>

datatype lty = Int1 | Int8 | Int16 | Int32 | Int64

datatype l_place = L_reg nat | L_addr | L_program_counter | L_delay_timer | L_sound_timer
  | L_program_over_flag | L_interrupt_flag | L_retired | L_next_safepoint

datatype l_value = ConstantInt lty nat | Value string
datatype l_binary = LAdd | LSub | LMul | LAnd | LOr | LXor | LShl | LLShr
datatype l_predicate = ICMP_EQ | ICMP_NE | ICMP_SGT | ICMP_SGE | ICMP_UGE
datatype l_cast = ZExt | Trunc | BitCast

datatype l_inst =
    CreateLoad string lty l_place
  | CreateStore l_value l_place
  | CreateCmp string l_predicate lty l_value l_value
  | CreateBinary string l_binary lty l_value l_value
  | CreateCast string l_cast lty l_value lty
  | CreateCall host_fn

text \<open>
  \<open>Slow_block v f k\<close> is the diamond of a safepoint: a block that calls \<open>f\<close> if \<open>v\<close> holds, joined by \<open>k\<close>.
  \<open>CreateBr a\<close> goes to the block of address \<open>a\<close>.
\<close>

datatype l_block =
    Inst l_inst l_block
  | Slow_block l_value host_fn l_block
  | CreateCondBr l_value l_block l_block
  | CreateBr u16
  | CreateRet

type_synonym l_trace = "l_block \<times> (u16 \<times> l_block) list"

section \<open>State\<close>

record llvm = vm +
  l_alarm_seq :: "nat \<Rightarrow> bool"
  l_alarm_pos :: nat
  l_interrupt_pending :: bool
  l_program_over :: bool
  l_smc_pending :: bool
  l_elide_idle :: bool
  l_code_bytes :: "bool list"
  l_trace_cache :: "u16 \<Rightarrow> l_trace option"
  l_bench_compiled :: nat
  l_bench_flushes :: nat

definition l_mark_code :: "u16 \<Rightarrow> nat \<Rightarrow> 'a llvm_scheme \<Rightarrow> 'a llvm_scheme" where
  "l_mark_code a n s =
     s\<lparr>l_code_bytes := fold (\<lambda>i c. c[mem_index (a + of_nat i) := True]) [0..<n] (l_code_bytes s)\<rparr>"

definition l_note_store :: "u16 \<Rightarrow> nat \<Rightarrow> 'a llvm_scheme \<Rightarrow> 'a llvm_scheme" where
  "l_note_store a n s =
     (if list_ex (\<lambda>i. l_code_bytes s ! mem_index (a + of_nat i)) [0..<n]
      then s\<lparr>l_smc_pending := True\<rparr> else s)"

section \<open>Timers and keys\<close>

text \<open>
  The services every engine has a copy of. They come to the interpreter's, by which the proofs know
  them.
\<close>

fun l_clear_key :: "build \<Rightarrow> u8 \<Rightarrow> 'a vm_scheme \<Rightarrow> 'a vm_scheme" where
  "l_clear_key BENCH key s = bench_clear_key key s"
| "l_clear_key INTERACTIVE key s =
     s\<lparr>keys_down := map (\<lambda>k. k AND NOT (push_bit (unat key) 1)) (keys_down s)\<rparr>"

fun l_all_keys_down :: "build \<Rightarrow> 'a vm_scheme \<Rightarrow> u32 \<times> 'a vm_scheme" where
  "l_all_keys_down BENCH s = bench_keys_now s"
| "l_all_keys_down INTERACTIVE s = (fold (OR) (keys_down s) 0, s)"

fun l_tick :: "build \<Rightarrow> 'a vm_scheme \<Rightarrow> int \<times> 'a vm_scheme" where
  "l_tick BENCH s = (bench_tick s, s)"
| "l_tick INTERACTIVE s =
     (int ((clock_nsec s (clock_pos s) div NANOS_PER_TICK) mod TICKS_PER_SECOND), s\<lparr>clock_pos := Suc (clock_pos s)\<rparr>)"

definition l_sync_timers :: "'a vm_scheme \<Rightarrow> 'a vm_scheme" where
  "l_sync_timers s =
     (let (now, s1) = l_tick BENCH s; elapsed = now - last_tick s1 in
      if elapsed > 0
      then s1\<lparr>delay_timer := (if int (unat (delay_timer s1)) > elapsed then word_of_int (int (unat (delay_timer s1)) - elapsed) else 0),
              sound_timer := (if int (unat (sound_timer s1)) > elapsed then word_of_int (int (unat (sound_timer s1)) - elapsed) else 0),
              last_tick := now\<rparr>
      else s1)"

fun l_interrupt :: "build \<Rightarrow> 'a vm_scheme \<Rightarrow> 'a vm_scheme" where
  "l_interrupt BENCH s = l_sync_timers s"
| "l_interrupt INTERACTIVE s =
     (let (current_tick, s1) = l_tick INTERACTIVE s;
          s2 = (if current_tick \<noteq> last_tick s1
                then s1\<lparr>delay_timer := (if delay_timer s1 > 0 then delay_timer s1 - 1 else delay_timer s1),
                        sound_timer := (if sound_timer s1 > 0 then sound_timer s1 - 1 else sound_timer s1),
                        last_tick := current_tick\<rparr>
                else s1);
          (keys, s3) = read_keys_io INTERACTIVE s2
      in s3\<lparr>keys_down := (keys_down s3)[interrupt_count s3 := keys],
            interrupt_count := (interrupt_count s3 + 1) mod INPUT_TICKS\<rparr>)"

text \<open>The loop of \<^verbatim>\<open>draw\<close> that holds the frame, and the one of \<^verbatim>\<open>load_on_key\<close> over the keys.\<close>

partial_function (option) l_wait_tick :: "'a vm_scheme \<Rightarrow> (int \<times> 'a vm_scheme) option" where
  "l_wait_tick s =
     (let (current_tick, s1) = l_tick INTERACTIVE s
      in if current_tick = last_tick s1 then l_wait_tick s1 else Some (current_tick, s1))"

definition l_frame_sync :: "build \<Rightarrow> 'a vm_scheme \<Rightarrow> 'a vm_scheme option" where
  "l_frame_sync b s =
     (if b = BENCH then Some s
      else map_option (\<lambda>(current_tick, s1). s1\<lparr>last_tick := current_tick\<rparr>) (l_wait_tick s))"

definition l_take_key :: "build \<Rightarrow> nat \<Rightarrow> u32 \<Rightarrow> nat \<Rightarrow> 'a vm_scheme \<Rightarrow> 'a vm_scheme" where
  "l_take_key b x all_keys i s =
     (let s1 = l_clear_key b (of_nat i) s
      in if all_keys AND push_bit i 1 \<noteq> 0 then set_reg x (of_nat i) s1 else s1)"

lemma l_clear_key_eq [simp]: "l_clear_key b = clear_key b"
  by (cases b) (intro ext, simp)+

lemma l_all_keys_down_eq [simp]: "l_all_keys_down b = all_keys_down b"
  by (cases b) (intro ext, simp)+

lemma l_tick_eq [simp]: "l_tick b = tick b"
  by (cases b) (intro ext, simp)+

lemma l_sync_timers_eq [simp]: "l_sync_timers = sync_timers"
  by (intro ext) (simp add: l_sync_timers_def sync_timers_def timer_sub_def Let_def)

lemma l_interrupt_eq [simp]: "l_interrupt b = interrupt b"
  by (cases b) (intro ext, simp)+

lemma l_wait_tick_eq [simp]: "l_wait_tick s = wait_tick s"
proof -
  have "wait_tick s = Some r" if "l_wait_tick s = Some r" for s :: "'a vm_scheme" and r
    by (rule l_wait_tick.raw_induct [OF _ that]) (subst wait_tick.simps, auto simp: Let_def split: prod.splits if_splits)
  moreover have "l_wait_tick s = Some r" if "wait_tick s = Some r" for s :: "'a vm_scheme" and r
    by (rule wait_tick.raw_induct [OF _ that]) (subst l_wait_tick.simps, auto simp: Let_def split: prod.splits if_splits)
  ultimately show ?thesis by (metis option.exhaust)
qed

lemma l_frame_sync_eq [simp]: "l_frame_sync b = frame_sync b"
  by (intro ext) (simp add: l_frame_sync_def frame_sync_def)

lemma l_take_key_eq [simp]: "l_take_key b = take_key b"
  by (intro ext) (simp add: l_take_key_def take_key_def)

section \<open>Host helpers\<close>

text \<open>\<^verbatim>\<open>alarm_handler\<close>: the signal may have arrived before the flag is read.\<close>

definition l_alarm :: "'a llvm_scheme \<Rightarrow> 'a llvm_scheme" where
  "l_alarm s =
     s\<lparr>l_interrupt_pending := l_interrupt_pending s \<or> l_alarm_seq s (l_alarm_pos s), l_alarm_pos := Suc (l_alarm_pos s)\<rparr>"

definition l_check_interrupt :: "build \<Rightarrow> 'a llvm_scheme \<Rightarrow> 'a llvm_scheme" where
  "l_check_interrupt b s =
     (if b = BENCH
      then let s1 = l_interrupt BENCH s
           in if bench_done s1 then s1\<lparr>l_program_over := True\<rparr> else s1
      else let s1 = l_alarm s
           in if l_interrupt_pending s1
              then let s2 = l_interrupt INTERACTIVE (s1\<lparr>l_interrupt_pending := False\<rparr>)
                   in if fst (l_all_keys_down INTERACTIVE s2) AND QUIT \<noteq> 0
                      then s2\<lparr>l_program_over := True\<rparr> else s2
              else s1)"

definition l_bench_safepoint :: "'a llvm_scheme \<Rightarrow> 'a llvm_scheme" where
  "l_bench_safepoint s = bench_advance_safepoint (l_check_interrupt BENCH s)"

partial_function (option) l_idle_loop :: "'a llvm_scheme \<Rightarrow> 'a llvm_scheme option" where
  "l_idle_loop s =
     (if delay_timer s \<noteq> 0
      then if fst (l_all_keys_down INTERACTIVE s) AND QUIT \<noteq> 0 then Some (s\<lparr>l_program_over := True\<rparr>)
           else l_idle_loop (l_interrupt INTERACTIVE s)
      else Some s)"

definition l_jit_idle_wait :: "'a llvm_scheme \<Rightarrow> 'a llvm_scheme option" where
  "l_jit_idle_wait s =
     (case chip8_idle_delay_loop s (program_counter s) of
        None \<Rightarrow> Some s
      | Some reg \<Rightarrow> map_option (set_reg reg 0) (l_idle_loop s))"

definition l_errer :: "'a llvm_scheme \<Rightarrow> 'a llvm_scheme run" where
  "l_errer s = Exits s"

definition l_retern :: "build \<Rightarrow> 'a llvm_scheme \<Rightarrow> 'a llvm_scheme run" where
  "l_retern b s =
     (let s1 = l_check_interrupt b s in
      if sint (stack_pointer s1) > 0
      then let sp = stack_pointer s1 - 1
           in Returns (s1\<lparr>stack_pointer := sp, program_counter := stack s1 ! nat (sint sp)\<rparr>)
      else l_errer s1)"

text \<open>
  The macro \<^verbatim>\<open>OP\<close> decodes into a local variable, which hides the global \<^verbatim>\<open>op\<close>: here the helpers
  differ from those of \<^verbatim>\<open>libgccjit_jit.c\<close>, which set the global.
\<close>

definition l_op :: "'a llvm_scheme \<Rightarrow> u16" where
  "l_op s = opcode_at s (program_counter s)"

definition l_call :: "build \<Rightarrow> 'a llvm_scheme \<Rightarrow> 'a llvm_scheme run" where
  "l_call b s =
     (let immediate = imm12 (l_op s); s1 = l_check_interrupt b s in
      if sint (stack_pointer s1) < int STACK_SIZE
      then Returns (s1\<lparr>stack := (stack s1)[nat (sint (stack_pointer s1)) := program_counter s1 + 2],
                       stack_pointer := stack_pointer s1 + 1,
                       program_counter := immediate\<rparr>)
      else l_errer s1)"

definition l_random_byte :: "'a llvm_scheme \<Rightarrow> 'a llvm_scheme" where
  "l_random_byte s =
     (let opc = l_op s; (r, s1) = rand s
      in set_reg (op_x opc) (ucast (r AND 0xff AND ucast (imm8 opc))) s1)"

definition l_store_bcd :: "'a llvm_scheme \<Rightarrow> 'a llvm_scheme" where
  "l_store_bcd s0 =
     (let x = op_x (l_op s0);
          s = l_note_store (addr s0) 3 s0;
          tmp = regs s ! x;
          hundreds = tmp div 100; tmp1 = tmp mod 100;
          tens = tmp1 div 10; tmp2 = tmp1 mod 10;
          a = addr s;
          s1 = mem_set (a + 2) tmp2 (mem_set (a + 1) tens (mem_set (a + 0) hundreds s))
      in s1\<lparr>program_counter := program_counter s1 + 2\<rparr>)"

definition l_skip_key_x :: "build \<Rightarrow> bool \<Rightarrow> 'a llvm_scheme \<Rightarrow> 'a llvm_scheme run" where
  "l_skip_key_x b up s =
     (let vx = regs s ! op_x (l_op s); (keys, s1) = l_all_keys_down b s in
      if unat vx \<ge> 32 then Undef
      else let s2 = (if (keys AND push_bit (unat vx) 1 \<noteq> 0) \<noteq> up
                     then let s3 = l_clear_key b vx s1 in s3\<lparr>program_counter := program_counter s3 + 2\<rparr>
                     else s1)
           in Returns (s2\<lparr>program_counter := program_counter s2 + 2\<rparr>))"

partial_function (option) l_poll_loop ::
  "build \<Rightarrow> 'a llvm_scheme \<Rightarrow> (u32 \<times> 'a llvm_scheme) option" where
  "l_poll_loop b s =
     (let (all_keys, s1) = read_keys_io b s in
      if b = BENCH \<and> bench_done s1 then Some (all_keys, s1\<lparr>l_program_over := True\<rparr>)
      else if all_keys = 0 then l_poll_loop b s1
      else Some (all_keys, s1))"

definition l_load_on_key :: "build \<Rightarrow> 'a llvm_scheme \<Rightarrow> 'a llvm_scheme run option" where
  "l_load_on_key b s =
     (let x = op_x (l_op s) in
      case l_poll_loop b s of
        None \<Rightarrow> None
      | Some (all_keys, s1) \<Rightarrow>
          let s2 = fold (l_take_key b x all_keys) [0..<16] s1
          in Some (if all_keys AND QUIT \<noteq> 0 then l_errer s2
                   else Returns (s2\<lparr>program_counter := program_counter s2 + 2\<rparr>)))"

definition l_draw :: "build \<Rightarrow> 'a llvm_scheme \<Rightarrow> 'a llvm_scheme option" where
  "l_draw b s =
     (let opc = l_op s;
          x = op_x opc; y = op_y opc; immediate = unat (imm4 opc);
          s1 = l_check_interrupt b s;
          sprite = map (\<lambda>i. mem_at s1 (addr s1 + of_nat i)) [0..<immediate];
          (vf, s2) = draw_io b (unat (regs s1 ! x)) (unat (regs s1 ! y)) immediate sprite s1
      in l_frame_sync b (set_reg 15 (of_nat vf) s2))"

definition l_save_registers :: "'a llvm_scheme \<Rightarrow> 'a llvm_scheme" where
  "l_save_registers s =
     (let x = op_x (l_op s);
          s1 = l_note_store (addr s) (x + 1) s;
          s2 = fold (\<lambda>i t. mem_set (addr t + of_nat i) (regs t ! i) t) [0..<x + 1] s1
      in s2\<lparr>program_counter := program_counter s2 + 2\<rparr>)"

definition l_restore_registers :: "'a llvm_scheme \<Rightarrow> 'a llvm_scheme" where
  "l_restore_registers s =
     (let x = op_x (l_op s)
      in fold (\<lambda>i t. set_reg i (mem_at t (addr t + of_nat i)) t) [0..<x + 1] s)"

text \<open>The names \<^verbatim>\<open>JIT_CALL\<close> is used with.\<close>

fun l_host :: "build \<Rightarrow> host_fn \<Rightarrow> 'a llvm_scheme \<Rightarrow> 'a llvm_scheme run option" where
  "l_host b H_interrupt s = Some (Returns (l_interrupt b s))"
| "l_host b H_check_interrupt s = Some (Returns (l_check_interrupt b s))"
| "l_host b H_clearscreen_io s = Some (Returns (clearscreen_io b s))"
| "l_host b H_retern s = Some (l_retern b s)"
| "l_host b H_call s = Some (l_call b s)"
| "l_host b H_random_byte s = Some (Returns (l_random_byte s))"
| "l_host b H_draw s = map_option Returns (l_draw b s)"
| "l_host b H_bench_safepoint s = Some (Returns (l_bench_safepoint s))"
| "l_host b H_skip_key_x_down s = Some (l_skip_key_x b False s)"
| "l_host b H_skip_key_x_up s = Some (l_skip_key_x b True s)"
| "l_host b H_load_on_key s = l_load_on_key b s"
| "l_host b H_store_bcd s = Some (Returns (l_store_bcd s))"
| "l_host b H_save_registers s = Some (Returns (l_save_registers s))"
| "l_host b H_restore_registers s = Some (Returns (l_restore_registers s))"
| "l_host b H_sync_timers s = Some (Returns (l_sync_timers s))"
| "l_host b H_jit_idle_wait s = map_option Returns (l_jit_idle_wait s)"

section \<open>The code generator\<close>

text \<open>The macros. \<open>k\<close> is the code that follows; \<^verbatim>\<open>JIT_CLOSE_BACKEDGE\<close> ends the block.\<close>

definition insts :: "l_inst list \<Rightarrow> l_block \<Rightarrow> l_block" where "insts c k = foldr Inst c k"

definition JIT_RETIRE :: "build \<Rightarrow> nat \<Rightarrow> l_block \<Rightarrow> l_block" where
  "JIT_RETIRE b n k =
     (if b = BENCH
      then insts [CreateLoad ''val_r'' Int64 L_retired,
                  CreateBinary ''sum_r'' LAdd Int64 (Value ''val_r'') (ConstantInt Int64 n),
                  CreateStore (Value ''sum_r'') L_retired] k
      else k)"

definition JIT_SAFEPOINT :: "build \<Rightarrow> l_block \<Rightarrow> l_block" where
  "JIT_SAFEPOINT b k =
     (if b = BENCH
      then insts [CreateLoad ''retired'' Int64 L_retired, CreateLoad ''next'' Int64 L_next_safepoint,
                  CreateCmp ''pending'' ICMP_SGE Int64 (Value ''retired'') (Value ''next'')]
             (Slow_block (Value ''pending'') H_bench_safepoint k)
      else insts [CreateLoad ''flag_value'' Int32 L_interrupt_flag,
                  CreateCmp ''pending'' ICMP_NE Int32 (Value ''flag_value'') (ConstantInt Int32 0)]
             (Slow_block (Value ''pending'') H_check_interrupt k))"

definition JIT_CLOSE_BACKEDGE :: "u16 \<Rightarrow> l_block" where
  "JIT_CLOSE_BACKEDGE dst =
     insts [CreateLoad ''over_val'' Int8 L_program_over_flag,
            CreateCmp ''over'' ICMP_NE Int8 (Value ''over_val'') (ConstantInt Int8 0)]
       (CreateCondBr (Value ''over'') CreateRet (CreateBr dst))"

definition store_pc :: "u16 \<Rightarrow> l_block \<Rightarrow> l_block" where
  "store_pc a k = Inst (CreateStore (ConstantInt Int16 (unat a)) L_program_counter) k"

definition JIT_CALL :: "host_fn \<Rightarrow> l_block \<Rightarrow> l_block" where
  "JIT_CALL f k = Inst (CreateCall f) k"

definition JIT_CALL_OP :: "host_fn \<Rightarrow> u16 \<Rightarrow> l_block \<Rightarrow> l_block" where
  "JIT_CALL_OP f pc k = store_pc pc (JIT_CALL f k)"

definition JIT_MAYBE_IDLE_WAIT :: "build \<Rightarrow> 'a llvm_scheme \<Rightarrow> u16 \<Rightarrow> l_block \<Rightarrow> l_block" where
  "JIT_MAYBE_IDLE_WAIT b s header k =
     (if b = INTERACTIVE \<and> l_elide_idle s \<and> chip8_idle_delay_loop s header \<noteq> None
      then JIT_CALL H_jit_idle_wait k else k)"

definition load_reg :: "string \<Rightarrow> nat \<Rightarrow> l_inst" where
  "load_reg d r = CreateLoad d Int8 (L_reg r)"

text \<open>What the body of the loop does with one instruction.\<close>

datatype l_emitted =
    Null_code
  | L_stops "u16 list" l_block
  | L_goes_on "u16 list" u16 "l_block \<Rightarrow> l_block"

definition l_emit_jump :: "build \<Rightarrow> 'a llvm_scheme \<Rightarrow> nat \<Rightarrow> u16 list \<Rightarrow> u16 \<Rightarrow> l_emitted" where
  "l_emit_jump b s op_count seen opc =
     (let immediate = imm12 opc in
      if immediate \<in> set seen
      then L_stops [] (JIT_SAFEPOINT b (store_pc immediate (JIT_MAYBE_IDLE_WAIT b s immediate (JIT_CLOSE_BACKEDGE immediate))))
      else if op_count < 256
      then L_goes_on [] immediate (\<lambda>k. JIT_SAFEPOINT b (store_pc immediate k))
      else L_stops [] (JIT_SAFEPOINT b (store_pc immediate CreateRet)))"

definition l_emit_skip :: "build \<Rightarrow> 'a llvm_scheme \<Rightarrow> u16 \<Rightarrow> u16 list \<Rightarrow> u16 \<Rightarrow> l_emitted" where
  "l_emit_skip b s pc seen opc =
     (let group = unat (drop_bit 12 (opc AND 0xf000));
          fused_op = opcode_at s (pc + 2);
          fused = (fused_op AND 0xf000 = 0x1000);
          fused_target = fused_op AND 0x0fff;
          pred = (if group = 0x3 \<or> group = 0x5 then ICMP_EQ else ICMP_NE);
          compare =
            (if group = 0x3 \<or> group = 0x4
             then [load_reg ''x_value'' (op_x opc),
                   CreateCmp ''cond'' pred Int8 (Value ''x_value'') (ConstantInt Int8 (unat (imm8 opc)))]
             else [load_reg ''x_value'' (op_x opc), load_reg ''y_value'' (op_y opc),
                   CreateCmp ''cond'' pred Int8 (Value ''x_value'') (Value ''y_value'')]);
          else_block =
            (if fused
             then JIT_RETIRE b 1 (JIT_SAFEPOINT b (store_pc fused_target
               (if fused_target \<in> set seen
                then JIT_MAYBE_IDLE_WAIT b s fused_target (JIT_CLOSE_BACKEDGE fused_target)
                else CreateRet)))
             else store_pc (pc + 2) CreateRet)
      in L_goes_on [pc + 2] (pc + 4)
           (\<lambda>k. insts compare (CreateCondBr (Value ''cond'') (store_pc (pc + 4) k) else_block)))"

definition getCastOpcode :: "lty \<Rightarrow> lty \<Rightarrow> l_cast" where
  "getCastOpcode from to =
     (let bits = (\<lambda>t. case t of Int1 \<Rightarrow> 1 | Int8 \<Rightarrow> 8 | Int16 \<Rightarrow> 16 | Int32 \<Rightarrow> 32 | Int64 \<Rightarrow> (64::nat)) in
      if bits to < bits from then Trunc else if bits from < bits to then ZExt else BitCast)"

definition cast_to :: "string \<Rightarrow> lty \<Rightarrow> string \<Rightarrow> lty \<Rightarrow> l_inst" where
  "cast_to d from v to = CreateCast d (getCastOpcode from to) from (Value v) to"

definition l_emit_8 :: "u16 \<Rightarrow> u16 \<Rightarrow> l_emitted" where
  "l_emit_8 pc opc =
     (let x = op_x opc; y = op_y opc; n = opc AND 0x000f; rx = L_reg x; f = L_reg 15;
          x_value = Value ''x_value''; y_value = Value ''y_value'';
          load_x = load_reg ''x_value'' x; load_y = load_reg ''y_value'' y;
          step = (\<lambda>c. L_goes_on [] (pc + 2) (insts c));
          logic = (\<lambda>d bop. step [load_x, load_y, CreateBinary d bop Int8 x_value y_value, CreateStore (Value d) rx]);
          minus = (\<lambda>u v. step [load_x, load_y, CreateCmp ''cmp_value'' ICMP_UGE Int8 u v,
                cast_to ''cmp8_value'' Int1 ''cmp_value'' Int8,
                CreateBinary ''diff_value'' LSub Int8 u v,
                CreateStore (Value ''diff_value'') rx, CreateStore (Value ''cmp8_value'') f])
      in if n = 0x0 then step [load_y, CreateStore y_value rx]
         else if n = 0x1 then logic ''or_value'' LOr
         else if n = 0x2 then logic ''and_value'' LAnd
         else if n = 0x3 then logic ''xor_value'' LXor
         else if n = 0x4 then
           step [load_x, load_y, CreateCast ''x16_value'' ZExt Int8 x_value Int16,
                 CreateCast ''y16_value'' ZExt Int8 y_value Int16,
                 CreateBinary ''sum16_value'' LAdd Int16 (Value ''x16_value'') (Value ''y16_value''),
                 CreateCmp ''cmp_value'' ICMP_SGT Int16 (Value ''sum16_value'') (ConstantInt Int16 0xff),
                 cast_to ''cmp8_value'' Int1 ''cmp_value'' Int8, cast_to ''sum8_value'' Int16 ''sum16_value'' Int8,
                 CreateStore (Value ''sum8_value'') rx, CreateStore (Value ''cmp8_value'') f]
         else if n = 0x5 then minus x_value y_value
         else if n = 0x6 then
           step [load_x, CreateBinary ''andone_value'' LAnd Int8 x_value (ConstantInt Int8 1),
                 CreateBinary ''shr_value'' LLShr Int8 x_value (ConstantInt Int8 1),
                 cast_to ''shr8_value'' Int8 ''shr_value'' Int8,
                 CreateStore (Value ''shr8_value'') rx, CreateStore (Value ''andone_value'') f]
         else if n = 0x7 then minus y_value x_value
         else if n = 0xe then
           step [load_x, CreateBinary ''andeight_value'' LAnd Int8 x_value (ConstantInt Int8 0x80),
                 CreateBinary ''msb_value'' LLShr Int8 (Value ''andeight_value'') (ConstantInt Int8 7),
                 CreateBinary ''shl_value'' LShl Int8 x_value (ConstantInt Int8 1),
                 CreateStore (Value ''shl_value'') rx, CreateStore (Value ''msb_value'') f]
         else Null_code)"

definition l_emit_e :: "u16 \<Rightarrow> u16 \<Rightarrow> l_emitted" where
  "l_emit_e pc opc =
     (let kk = opc AND 0x00ff in
      if kk = 0x9e then L_stops [] (JIT_CALL_OP H_skip_key_x_down pc CreateRet)
      else if kk = 0xa1 then L_stops [] (JIT_CALL_OP H_skip_key_x_up pc CreateRet)
      else Null_code)"

definition call_sync :: "build \<Rightarrow> l_block \<Rightarrow> l_block" where
  "call_sync b k = (if b = BENCH then JIT_CALL H_sync_timers k else k)"

definition l_emit_f :: "build \<Rightarrow> u16 \<Rightarrow> u16 \<Rightarrow> l_emitted" where
  "l_emit_f b pc opc =
     (let kk = opc AND 0x00ff; x = op_x opc; load_x = load_reg ''x_value'' x;
          zext_x = CreateCast ''x16_value'' ZExt Int8 (Value ''x_value'') Int16;
          step = (\<lambda>f. L_goes_on [] (pc + 2) f)
      in if kk = 0x07 then
           step (\<lambda>k. call_sync b (insts [CreateLoad ''delay_timer_value'' Int8 L_delay_timer,
             CreateStore (Value ''delay_timer_value'') (L_reg x)] k))
         else if kk = 0x0a then L_stops [] (JIT_CALL_OP H_load_on_key pc CreateRet)
         else if kk = 0x15 then
           step (\<lambda>k. insts [load_x] (call_sync b (insts [CreateStore (Value ''x_value'') L_delay_timer] k)))
         else if kk = 0x18 then
           step (\<lambda>k. insts [load_x] (call_sync b (insts [CreateStore (Value ''x_value'') L_sound_timer] k)))
         else if kk = 0x1e then
           step (insts [load_x, CreateLoad ''addr_value'' Int16 L_addr, zext_x,
             CreateBinary ''sum_value'' LAdd Int16 (Value ''addr_value'') (Value ''x16_value''),
             CreateStore (Value ''sum_value'') L_addr])
         else if kk = 0x29 then
           step (insts [load_x, zext_x,
             CreateBinary ''nibble_value'' LAnd Int16 (Value ''x16_value'') (ConstantInt Int16 0x0f),
             CreateBinary ''prod_value'' LMul Int16 (Value ''nibble_value'') (ConstantInt Int16 5),
             CreateStore (Value ''prod_value'') L_addr])
         else if kk = 0x33 then L_stops [] (JIT_CALL_OP H_store_bcd pc CreateRet)
         else if kk = 0x55 then L_stops [] (JIT_CALL_OP H_save_registers pc CreateRet)
         else if kk = 0x65 then step (JIT_CALL_OP H_restore_registers pc)
         else Null_code)"

definition l_emit_immediate :: "nat \<Rightarrow> u16 \<Rightarrow> u16 \<Rightarrow> l_emitted" where [simp]:
  "l_emit_immediate k pc opc =
     (let rx = L_reg (op_x opc); imm = ConstantInt Int8 (unat (imm8 opc))
      in L_goes_on [] (pc + 2)
           (if k = 0x6 then insts [CreateStore imm rx]
            else insts [load_reg ''x_value'' (op_x opc), CreateBinary ''sum_value'' LAdd Int8 (Value ''x_value'') imm,
                   CreateStore (Value ''sum_value'') rx]))"

definition l_emit_address :: "nat \<Rightarrow> u16 \<Rightarrow> u16 \<Rightarrow> l_emitted" where [simp]:
  "l_emit_address k pc opc =
     (let imm16 = ConstantInt Int16 (unat (imm12 opc)) in
      if k = 0xa then L_goes_on [] (pc + 2) (insts [CreateStore imm16 L_addr])
      else if k = 0xb then
        L_stops [] (insts [load_reg ''z_value'' 0, CreateCast ''z16_value'' ZExt Int8 (Value ''z_value'') Int16,
          CreateBinary ''pc_value'' LAdd Int16 imm16 (Value ''z16_value''),
          CreateStore (Value ''pc_value'') L_program_counter] CreateRet)
      else if k = 0xc then L_goes_on [] (pc + 2) (JIT_CALL_OP H_random_byte pc)
      else L_goes_on [] (pc + 2) (JIT_CALL_OP H_draw pc))"

definition l_emit :: "build \<Rightarrow> 'a llvm_scheme \<Rightarrow> u16 \<Rightarrow> nat \<Rightarrow> u16 list \<Rightarrow> l_emitted" where
  "l_emit b s pc op_count seen =
     (let opc = opcode_at s pc in
      if opc = 0x00e0 then L_goes_on [] (pc + 2) (JIT_CALL H_clearscreen_io)
      else if opc = 0x00ee then L_stops [] (JIT_CALL H_retern CreateRet)
      else let k = unat (drop_bit 12 (opc AND 0xf000)) in
        if k = 0x0 \<or> k = 0x1 then l_emit_jump b s op_count seen opc
        else if k = 0x2 then L_stops [] (JIT_CALL_OP H_call pc CreateRet)
        else if k = 0x3 \<or> k = 0x4 \<or> k = 0x5 \<or> k = 0x9 then l_emit_skip b s pc seen opc
        else if k = 0x6 \<or> k = 0x7 then l_emit_immediate k pc opc
        else if k = 0x8 then l_emit_8 pc opc
        else if k = 0xa \<or> k = 0xb \<or> k = 0xc \<or> k = 0xd then l_emit_address k pc opc
        else if k = 0xe then l_emit_e pc opc
        else if k = 0xf then l_emit_f b pc opc
        else Null_code)"

definition l_block_head :: "build \<Rightarrow> nat \<Rightarrow> l_block \<Rightarrow> l_block" where
  "l_block_head b op_count k =
     (if op_count \<noteq> 0 \<and> op_count mod SAFEPOINT_INTERVAL = 0 then JIT_SAFEPOINT b (JIT_RETIRE b 1 k) else JIT_RETIRE b 1 k)"

definition l_fall_back :: "build \<Rightarrow> 'a llvm_scheme \<Rightarrow> u16 \<Rightarrow> l_block" where
  "l_fall_back b s pc = JIT_SAFEPOINT b (store_pc pc (JIT_MAYBE_IDLE_WAIT b s pc (JIT_CLOSE_BACKEDGE pc)))"

text \<open>
  The loop, from address \<open>pc\<close> with the addresses \<open>seen\<close> compiled so far: the addresses of the words
  read, the last opcode read (the global \<^verbatim>\<open>op\<close>), and the code. The vector \<^verbatim>\<open>pc_block\<close> has
  \<^verbatim>\<open>MEMORY_SIZE\<close> entries and \<^verbatim>\<open>operator[]\<close> is not checked.
\<close>

datatype l_generated = L_generated l_block "(u16 \<times> l_block) list" | Null_trace | L_out_of_bounds

fun l_add_block :: "u16 \<Rightarrow> (l_block \<Rightarrow> l_block) \<Rightarrow> l_generated \<Rightarrow> l_generated" where
  "l_add_block pc f (L_generated k bs) = L_generated (CreateBr pc) ((pc, f k) # bs)"
| "l_add_block pc f Null_trace = Null_trace"
| "l_add_block pc f L_out_of_bounds = L_out_of_bounds"

function l_gen :: "build \<Rightarrow> 'a llvm_scheme \<Rightarrow> u16 \<Rightarrow> nat \<Rightarrow> u16 list \<Rightarrow> u16 list \<times> u16 \<times> l_generated" where
  "l_gen b s pc op_count seen =
     (let opc = opcode_at s pc in
      if unat pc \<ge> MEMORY_SIZE then ([pc], opc, L_out_of_bounds)
      else if pc \<in> set seen then ([pc], opc, L_generated (l_fall_back b s pc) [])
      else case l_emit b s pc op_count (pc # seen) of
             Null_code \<Rightarrow> ([pc], opc, Null_trace)
           | L_stops marks k \<Rightarrow>
               (pc # marks, opc, L_generated (CreateBr pc) [(pc, l_block_head b op_count k)])
           | L_goes_on marks pc1 f \<Rightarrow>
               (let (marks1, opc1, g) = l_gen b s pc1 (op_count + 1) (pc # seen)
                in (pc # marks @ marks1, opc1, l_add_block pc (\<lambda>k. l_block_head b op_count (f k)) g)))"
  by pat_completeness auto
termination
proof (relation "measure (\<lambda>(b, s, pc, n, seen). card (UNIV - set seen))", simp, goal_cases)
  case (1 b s pc n seen opc marks pc1 f)
  have "UNIV - set (pc # seen) \<subset> UNIV - set seen" using 1(3) by auto
  then show ?case by (simp add: psubset_card_mono del: set_simps)
qed

declare l_gen.simps [simp del]

definition l_codegen :: "build \<Rightarrow> 'a llvm_scheme \<Rightarrow> l_generated \<times> 'a llvm_scheme" where
  "l_codegen b s =
     (let (marks, opc, g) = l_gen b s (program_counter s) 0 []
      in (g, (fold (\<lambda>a. l_mark_code a 2) marks s)\<lparr>opcode := opc\<rparr>))"

section \<open>Executing a trace\<close>

text \<open>
  The instructions as the LLVM language reference has them, on naturals below the width of their
  type; the 64-bit clock counters are naturals, as in the I/O layer. A value used before it is
  defined is undefined.
\<close>

type_synonym l_env = "string \<Rightarrow> nat option"

fun l_bits :: "lty \<Rightarrow> nat" where
  "l_bits Int1 = 1" | "l_bits Int8 = 8" | "l_bits Int16 = 16" | "l_bits Int32 = 32" | "l_bits Int64 = 64"

definition l_wrap :: "lty \<Rightarrow> nat \<Rightarrow> nat" where
  "l_wrap t n = (if t = Int64 then n else n mod 2 ^ l_bits t)"

definition l_signed :: "lty \<Rightarrow> nat \<Rightarrow> int" where
  "l_signed t n = (if t = Int64 \<or> n < 2 ^ (l_bits t - 1) then int n else int n - 2 ^ l_bits t)"

definition l_num :: "l_env \<Rightarrow> l_value \<Rightarrow> nat option" where
  "l_num e v = (case v of ConstantInt t n \<Rightarrow> Some (l_wrap t n) | Value x \<Rightarrow> e x)"

fun l_apply :: "l_binary \<Rightarrow> lty \<Rightarrow> nat \<Rightarrow> nat \<Rightarrow> nat" where
  "l_apply LAdd t m n = l_wrap t (m + n)"
| "l_apply LSub t m n = l_wrap t (m + (2 ^ l_bits t - n))"
| "l_apply LMul t m n = l_wrap t (m * n)"
| "l_apply LAnd t m n = m AND n"
| "l_apply LOr t m n = m OR n"
| "l_apply LXor t m n = m XOR n"
| "l_apply LShl t m n = l_wrap t (m * 2 ^ n)"
| "l_apply LLShr t m n = m div 2 ^ n"

fun l_compare :: "l_predicate \<Rightarrow> lty \<Rightarrow> nat \<Rightarrow> nat \<Rightarrow> bool" where
  "l_compare ICMP_EQ t m n \<longleftrightarrow> m = n"
| "l_compare ICMP_NE t m n \<longleftrightarrow> m \<noteq> n"
| "l_compare ICMP_SGT t m n \<longleftrightarrow> l_signed t n < l_signed t m"
| "l_compare ICMP_SGE t m n \<longleftrightarrow> l_signed t n \<le> l_signed t m"
| "l_compare ICMP_UGE t m n \<longleftrightarrow> n \<le> m"

fun l_read :: "l_place \<Rightarrow> 'a llvm_scheme \<Rightarrow> nat" where
  "l_read (L_reg r) s = unat (regs s ! r)"
| "l_read L_addr s = unat (addr s)"
| "l_read L_program_counter s = unat (program_counter s)"
| "l_read L_delay_timer s = unat (delay_timer s)"
| "l_read L_sound_timer s = unat (sound_timer s)"
| "l_read L_program_over_flag s = of_bool (l_program_over s)"
| "l_read L_interrupt_flag s = of_bool (l_interrupt_pending s)"
| "l_read L_retired s = bench_retired s"
| "l_read L_next_safepoint s = bench_next_safepoint s"

fun l_write :: "l_place \<Rightarrow> nat \<Rightarrow> 'a llvm_scheme \<Rightarrow> 'a llvm_scheme" where
  "l_write (L_reg r) n s = set_reg r (of_nat n) s"
| "l_write L_addr n s = s\<lparr>addr := of_nat n\<rparr>"
| "l_write L_program_counter n s = s\<lparr>program_counter := of_nat n\<rparr>"
| "l_write L_delay_timer n s = s\<lparr>delay_timer := of_nat n\<rparr>"
| "l_write L_sound_timer n s = s\<lparr>sound_timer := of_nat n\<rparr>"
| "l_write L_program_over_flag n s = s\<lparr>l_program_over := n \<noteq> 0\<rparr>"
| "l_write L_interrupt_flag n s = s\<lparr>l_interrupt_pending := n \<noteq> 0\<rparr>"
| "l_write L_retired n s = s\<lparr>bench_retired := n\<rparr>"
| "l_write L_next_safepoint n s = s\<lparr>bench_next_safepoint := n\<rparr>"

text \<open>The signal may arrive whenever the flag is loaded.\<close>

definition l_look :: "l_place \<Rightarrow> 'a llvm_scheme \<Rightarrow> 'a llvm_scheme" where
  "l_look p s = (if p = L_interrupt_flag then l_alarm s else s)"

fun run_inst :: "build \<Rightarrow> l_inst \<Rightarrow> l_env \<Rightarrow> 'a llvm_scheme \<Rightarrow> (l_env \<times> 'a llvm_scheme run) option" where
  "run_inst b (CreateLoad d t p) e s = (let s1 = l_look p s in Some (e(d \<mapsto> l_read p s1), Returns s1))"
| "run_inst b (CreateStore v p) e s =
     (case l_num e v of None \<Rightarrow> Some (e, Undef) | Some n \<Rightarrow> Some (e, Returns (l_write p n s)))"
| "run_inst b (CreateCmp d c t v w) e s =
     (case (l_num e v, l_num e w) of
        (Some m, Some n) \<Rightarrow> Some (e(d \<mapsto> of_bool (l_compare c t m n)), Returns s) | _ \<Rightarrow> Some (e, Undef))"
| "run_inst b (CreateBinary d f t v w) e s =
     (case (l_num e v, l_num e w) of
        (Some m, Some n) \<Rightarrow> Some (e(d \<mapsto> l_apply f t m n), Returns s) | _ \<Rightarrow> Some (e, Undef))"
| "run_inst b (CreateCast d c t1 v t2) e s =
     (case l_num e v of None \<Rightarrow> Some (e, Undef) | Some n \<Rightarrow> Some (e(d \<mapsto> (if c = Trunc then l_wrap t2 n else n)), Returns s))"
| "run_inst b (CreateCall f) e s = map_option (Pair e) (l_host b f s)"

text \<open>
  Executing a tree of blocks to its end: a branch to the block of an address, or the result of the
  trace. \<open>None\<close> is a helper that never returns.
\<close>

datatype ('e, 's) reached = Goes u16 'e 's | Ends "'s run"

primrec l_walk :: "build \<Rightarrow> l_block \<Rightarrow> l_env \<Rightarrow> 'a llvm_scheme \<Rightarrow> (l_env, 'a llvm_scheme) reached option" where
  "l_walk b (Inst i k) e s =
     (case run_inst b i e s of None \<Rightarrow> None
      | Some (e1, p) \<Rightarrow> (case p of Returns s1 \<Rightarrow> l_walk b k e1 s1 | _ \<Rightarrow> Some (Ends p)))"
| "l_walk b (Slow_block v f k) e s =
     (case l_num e v of None \<Rightarrow> Some (Ends Undef)
      | Some n \<Rightarrow>
          if n \<noteq> 0
          then (case l_host b f s of None \<Rightarrow> None
                | Some p \<Rightarrow> (case p of Returns s1 \<Rightarrow> l_walk b k e s1 | _ \<Rightarrow> Some (Ends p)))
          else l_walk b k e s)"
| "l_walk b (CreateCondBr v k1 k2) e s =
     (case l_num e v of None \<Rightarrow> Some (Ends Undef)
      | Some n \<Rightarrow> if n \<noteq> 0 then l_walk b k1 e s else l_walk b k2 e s)"
| "l_walk b (CreateBr a) e s = Some (Goes a e s)"
| "l_walk b CreateRet e s = Some (Ends (Returns s))"

partial_function (option) l_run ::
  "build \<Rightarrow> (u16 \<times> l_block) list \<Rightarrow> l_block \<Rightarrow> l_env \<Rightarrow> 'a llvm_scheme \<Rightarrow> 'a llvm_scheme run option" where
  "l_run b bs k e s =
     (case l_walk b k e s of
        None \<Rightarrow> None
      | Some (Ends p) \<Rightarrow> Some p
      | Some (Goes a e1 s1) \<Rightarrow>
          (case map_of bs a of None \<Rightarrow> Some Undef | Some k1 \<Rightarrow> l_run b bs k1 e1 s1))"

definition l_run_trace :: "build \<Rightarrow> l_trace \<Rightarrow> 'a llvm_scheme \<Rightarrow> 'a llvm_scheme run option" where
  "l_run_trace b T s = l_run b (snd T) (fst T) Map.empty s"

section \<open>The dispatch loop\<close>

definition invalidate_traces :: "build \<Rightarrow> 'a llvm_scheme \<Rightarrow> 'a llvm_scheme" where
  "invalidate_traces b s =
     s\<lparr>l_trace_cache := (\<lambda>_. None), l_code_bytes := replicate MEMORY_SIZE False, l_smc_pending := False,
       l_bench_flushes := (if b = BENCH then l_bench_flushes s + 1 else l_bench_flushes s)\<rparr>"

definition l_after_trace :: "build \<Rightarrow> 'a llvm_scheme \<Rightarrow> nat \<Rightarrow> 'a llvm_scheme jit_pass" where
  "l_after_trace b s trace_count =
     (let s1 = l_check_interrupt b s;
          s2 = (if l_smc_pending s1 then invalidate_traces b s1 else s1);
          (keys, s3) = l_all_keys_down b s2 in
      if keys AND QUIT \<noteq> 0 \<or> l_program_over s3 then Report s3 trace_count else Go_on s3 (trace_count + 1))"

text \<open>
  \<open>orc T\<close> is the function \<^verbatim>\<open>addIRModule\<close> and \<^verbatim>\<open>lookup\<close> give for the trace; if they fail, \<^verbatim>\<open>ExitOnErr\<close>
  ends the process.
\<close>

definition l_compile_pass ::
  "(l_trace \<Rightarrow> ('a llvm_scheme \<Rightarrow> 'a llvm_scheme run option) option) \<Rightarrow> build \<Rightarrow> 'a llvm_scheme \<Rightarrow> nat \<Rightarrow> 'a llvm_scheme jit_pass" where
  "l_compile_pass orc b s trace_count =
     (let (g, s1) = l_codegen b s in
      case g of
        Null_trace \<Rightarrow> Report s1 trace_count
      | L_out_of_bounds \<Rightarrow> Undefined_run
      | L_generated k bs \<Rightarrow>
          (case orc (k, bs) of
             None \<Rightarrow> Exit_error s1
           | Some f \<Rightarrow>
               Go_on (s1\<lparr>l_trace_cache := (l_trace_cache s1)(program_counter s1 \<mapsto> (k, bs)),
                         l_bench_compiled := (if b = BENCH then l_bench_compiled s1 + 1 else l_bench_compiled s1)\<rparr>) trace_count))"

definition l_pass ::
  "(l_trace \<Rightarrow> ('a llvm_scheme \<Rightarrow> 'a llvm_scheme run option) option) \<Rightarrow> build \<Rightarrow> 'a llvm_scheme \<Rightarrow> nat \<Rightarrow> 'a llvm_scheme jit_pass" where
  "l_pass orc b s trace_count =
     (case l_trace_cache s (program_counter s) of
        None \<Rightarrow> l_compile_pass orc b s trace_count
      | Some T \<Rightarrow>
          (case orc T of
             None \<Rightarrow> Undefined_run
           | Some f \<Rightarrow>
               (case f s of
                  None \<Rightarrow> Never
                | Some (Exits s1) \<Rightarrow> Exit_error s1
                | Some Undef \<Rightarrow> Undefined_run
                | Some (Returns s1) \<Rightarrow> l_after_trace b s1 trace_count)))"

partial_function (option) l_loop ::
  "(l_trace \<Rightarrow> ('a llvm_scheme \<Rightarrow> 'a llvm_scheme run option) option) \<Rightarrow> build \<Rightarrow> 'a llvm_scheme \<Rightarrow> nat \<Rightarrow> 'a llvm_scheme jit_pass option" where
  "l_loop orc b s trace_count =
     (case l_pass orc b s trace_count of
        Go_on s1 count1 \<Rightarrow> l_loop orc b s1 count1
      | p \<Rightarrow> Some p)"

definition llvm_start :: "(nat \<Rightarrow> bool) \<Rightarrow> bool \<Rightarrow> vm \<Rightarrow> llvm" where
  "llvm_start alarms elide s =
     vm.extend s \<lparr>l_alarm_seq = alarms, l_alarm_pos = 0, l_interrupt_pending = False, l_program_over = False,
       l_smc_pending = False, l_elide_idle = elide, l_code_bytes = replicate MEMORY_SIZE False,
       l_trace_cache = (\<lambda>_. None), l_bench_compiled = 0, l_bench_flushes = 0\<rparr>"

definition llvm_main ::
  "(l_trace \<Rightarrow> (llvm \<Rightarrow> llvm run option) option) \<Rightarrow> build \<Rightarrow> u8 list \<Rightarrow> llvm \<Rightarrow> string + llvm jit_pass option" where
  "llvm_main orc b rom s =
     (if rom = [] then Inl ''Could not read ROM''
      else Inr (l_loop orc b (boot b rom s) 0))"

end
