(* ===== verification/C8_Process.thy ===== *)
theory C8_Process
  imports C8_Llvm C8_Report C8_Disas C8_Aot C8_Aot_Run
begin

text \<open>
  The programs as processes: their command lines, the files they open, their exit statuses, and
  what they print at the end. The texts of usage and error messages are left out.
\<close>

section \<open>The outside\<close>

text \<open>
  What a process sees of its host: the files it can open, the C library's generator for a seed,
  \<^verbatim>\<open>time (NULL)\<close>, the clock and the terminal.
\<close>

record outside =
  opened :: "string \<Rightarrow> u8 list option"
  writable :: "string \<Rightarrow> bool"
  srand :: "nat \<Rightarrow> nat \<Rightarrow> u32"
  wall_time :: nat
  nanoseconds :: "nat \<Rightarrow> nat"
  terminal :: "nat \<Rightarrow> int list"

text \<open>\<open>Exited status lines\<close>: the lines are those of the report.\<close>

datatype process = Exited int "string list" | Runs_on | Goes_wrong

section \<open>The engines\<close>

text \<open>The command line of the interactive builds: the flag and the first other argument.\<close>

fun elide_args :: "string list \<Rightarrow> bool \<Rightarrow> string option \<Rightarrow> bool \<times> string option" where
  "elide_args [] elide rom = (elide, rom)"
| "elide_args (a # args) elide rom =
     (if a = ''--elide-idle'' then elide_args args True rom
      else if rom = None then elide_args args elide (Some a)
      else elide_args args elide rom)"

text \<open>The seed \<^verbatim>\<open>init_chip8\<close> gives the generator: \<^verbatim>\<open>bench_seed\<close>, or the time.\<close>

definition init_chip8 :: "build \<Rightarrow> outside \<Rightarrow> nat \<Rightarrow> nat \<Rightarrow> u32" where
  "init_chip8 b w bench_seed = (if b = BENCH then srand w bench_seed else srand w (wall_time w))"

text \<open>
  The part of \<^verbatim>\<open>main\<close> the engines share: the arguments, then the file. \<open>go\<close> is the rest, from
  the flag, the seed, the ROM and the machine.
\<close>

definition engine_process ::
  "build \<Rightarrow> outside \<Rightarrow> string list \<Rightarrow> (bool \<Rightarrow> nat \<Rightarrow> u8 list \<Rightarrow> vm \<Rightarrow> process) \<Rightarrow> process" where
  "engine_process b w args go =
     (let start = (\<lambda>elide rom seed budget keys.
          (case opened w rom of
             None \<Rightarrow> Exited (-1) []
           | Some bytes \<Rightarrow>
               go elide seed bytes (initial_vm (init_chip8 b w seed) (nanoseconds w) (terminal w) budget keys)))
      in if b = BENCH
         then (case bench_parse_args args of
                 Parsed opts cap \<Rightarrow> start False (the (opt_rom opts)) (opt_seed opts) (nat (opt_budget opts)) (opt_keys opts)
               | Overflow \<Rightarrow> Goes_wrong
               | _ \<Rightarrow> Exited (-1) [])
         else (case elide_args args False None of
                 (elide, Some rom) \<Rightarrow> start elide rom 0 0 BENCH_KEYS_NONE
               | (elide, None) \<Rightarrow> Exited (-1) []))"

definition final_report :: "build \<Rightarrow> string \<Rightarrow> string \<Rightarrow> nat \<Rightarrow> nat \<Rightarrow> nat \<Rightarrow> nat \<Rightarrow> 'a vm_scheme \<Rightarrow> string list" where
  "final_report b engine counter_label counter seed compiled flushes s =
     (if b = BENCH then bench_report engine counter_label counter seed compiled flushes s
      else dump_chip8_state counter_label counter s)"

definition interp_process :: "build \<Rightarrow> outside \<Rightarrow> string list \<Rightarrow> process" where
  "interp_process b w args =
     engine_process b w args (\<lambda>elide seed rom s.
       case interp_main b elide rom s of
         Inl err \<Rightarrow> Exited (-1) []
       | Inr (Some (Stop s1 inst_count)) \<Rightarrow> Exited 0 (final_report b ''interp'' ''chip-8 instructions'' inst_count seed 0 0 s1)
       | Inr (Some Undefined) \<Rightarrow> Goes_wrong
       | Inr _ \<Rightarrow> Runs_on)"

definition jit_process ::
  "(trace \<Rightarrow> (jit \<Rightarrow> jit run option) option) \<Rightarrow> build \<Rightarrow> (nat \<Rightarrow> bool) \<Rightarrow> outside \<Rightarrow> string list \<Rightarrow> process" where
  "jit_process gcc b alarms w args =
     engine_process b w args (\<lambda>elide seed rom s.
       case jit_main gcc b rom (jit_start alarms elide s) of
         Inl err \<Rightarrow> Exited (-1) []
       | Inr (Some (Report s1 trace_count)) \<Rightarrow>
           Exited 0 (final_report b ''libgccjit'' ''traces'' trace_count seed (bench_compiled s1) (bench_flushes s1) s1)
       | Inr (Some (Exit_error s1)) \<Rightarrow> Exited (-1) []
       | Inr (Some Undefined_run) \<Rightarrow> Goes_wrong
       | Inr _ \<Rightarrow> Runs_on)"

definition llvm_process ::
  "(l_trace \<Rightarrow> (llvm \<Rightarrow> llvm run option) option) \<Rightarrow> build \<Rightarrow> (nat \<Rightarrow> bool) \<Rightarrow> outside \<Rightarrow> string list \<Rightarrow> process" where
  "llvm_process orc b alarms w args =
     engine_process b w args (\<lambda>elide seed rom s.
       case llvm_main orc b rom (llvm_start alarms elide s) of
         Inl err \<Rightarrow> Exited (-1) []
       | Inr (Some (Report s1 trace_count)) \<Rightarrow>
           Exited 0 (final_report b ''llvm'' ''traces'' trace_count seed (l_bench_compiled s1) (l_bench_flushes s1) s1)
       | Inr (Some (Exit_error s1)) \<Rightarrow> Exited (-1) []
       | Inr (Some Undefined_run) \<Rightarrow> Goes_wrong
       | Inr _ \<Rightarrow> Runs_on)"

section \<open>The tools\<close>

text \<open>A text file holds its characters' codes.\<close>

definition text_of :: "u8 list \<Rightarrow> string" where "text_of = map (\<lambda>v. char_of (unat v))"
definition bytes_of :: "string \<Rightarrow> u8 list" where "bytes_of = map (\<lambda>c. of_nat (of_char c))"

text \<open>The status and what went to \<^verbatim>\<open>stdout\<close>. A failure leaves what was written before it.\<close>

definition asm_process :: "outside \<Rightarrow> string list \<Rightarrow> int \<times> u8 list" where
  "asm_process w args =
     (case args of
        [filename] \<Rightarrow>
          (case opened w filename of
             None \<Rightarrow> (1, [])
           | Some bytes \<Rightarrow> (case asm_main (text_of bytes) of (out, None) \<Rightarrow> (0, out) | (out, Some e) \<Rightarrow> (1, out)))
      | _ \<Rightarrow> (2, []))"

record disas_options =
  assembly_output :: bool
  report :: bool
  assume_no_smc :: bool
  decode_unreachable :: bool
  rom_file :: "string option"

text \<open>The options, or the status to exit with.\<close>

fun disas_args :: "string list \<Rightarrow> disas_options \<Rightarrow> int + disas_options" where
  "disas_args [] opts = Inr opts"
| "disas_args (a # args) opts =
     (if a = ''-a'' \<or> a = ''--asm'' then disas_args args (opts\<lparr>assembly_output := True\<rparr>)
      else if a = ''-r'' \<or> a = ''--report'' then disas_args args (opts\<lparr>report := True\<rparr>)
      else if a = ''--assume-no-smc'' then disas_args args (opts\<lparr>assume_no_smc := True\<rparr>)
      else if a = ''--decode-unreachable'' then disas_args args (opts\<lparr>decode_unreachable := True\<rparr>)
      else if a = ''-h'' \<or> a = ''--help'' then Inl 0
      else if rom_file opts = None then disas_args args (opts\<lparr>rom_file := Some a\<rparr>)
      else Inl 2)"

text \<open>
  The status, \<^verbatim>\<open>stdout\<close>, and the region report on \<^verbatim>\<open>stderr\<close>. \<open>None\<close> is a work stack that overflows.
\<close>

definition disas_process :: "outside \<Rightarrow> string list \<Rightarrow> (int \<times> u8 list \<times> string) option" where
  "disas_process w args =
     (case disas_args args \<lparr>assembly_output = False, report = False, assume_no_smc = False, decode_unreachable = False, rom_file = None\<rparr> of
        Inl status \<Rightarrow> Some (status, [], [])
      | Inr opts \<Rightarrow>
          (case rom_file opts of
             None \<Rightarrow> Some (2, [], [])
           | Some rom \<Rightarrow>
               (case opened w rom of
                  None \<Rightarrow> Some (1, [], [])
                | Some file \<Rightarrow>
                    (let bytes = take 0xE00 file in
                     map_option (\<lambda>s.
                       (0, bytes_of (concat (disas_lines (assembly_output opts) (decode_unreachable opts) s bytes)),
                        if report opts then print_report (assume_no_smc opts) (length bytes) s else []))
                       (analysis (decode_unreachable opts) bytes)))))"

text \<open>The status and the file written.\<close>

definition aot_process :: "outside \<Rightarrow> string list \<Rightarrow> int \<times> (string \<times> string) option" where
  "aot_process w args =
     (if (length args \<noteq> 3 \<and> length args \<noteq> 5) \<or> args ! 1 \<noteq> ''-o'' \<or> length args = 5 \<and> args ! 3 \<noteq> ''--target'' then (1, None)
      else case opened w (args ! 0) of
             None \<Rightarrow> (1, None)
           | Some file \<Rightarrow>
               (case aot_main (if length args = 5 then Some (args ! 4) else None) file of
                  Inl err \<Rightarrow> (1, None)
                | Inr ll \<Rightarrow> if writable w (args ! 2) then (0, Some (args ! 2, ll)) else (1, None)))"

text \<open>
  A compiled program, after \<open>n\<close> steps of its module: the linked \<^verbatim>\<open>main\<close> of the runtime. \<open>secs\<close> is the
  clock's \<^verbatim>\<open>tv_sec\<close>. The counter is printed as an \<^verbatim>\<open>int\<close>, which it is up to \<open>2 ^ 31\<close> retired words.
\<close>

definition compiled_process :: "nat \<Rightarrow> u8 list \<Rightarrow> (nat \<Rightarrow> nat) \<Rightarrow> outside \<Rightarrow> process" where
  "compiled_process n rom secs w =
     (case aot_run n rom (aot_start secs (initial_vm (init_chip8 INTERACTIVE w 0) (nanoseconds w) (terminal w) 0 BENCH_KEYS_NONE)) of
        None \<Rightarrow> Exited 1 []
      | Some (Returned s) \<Rightarrow> Exited 0 (dump_chip8_state ''AOT instructions'' (unat (retired s)) s)
      | Some Undefined_ir \<Rightarrow> Goes_wrong
      | Some _ \<Rightarrow> Runs_on)"

end
