(* ===== verification/C8_Agree.thy ===== *)
theory C8_Agree
  imports C8_Interp_Thms
begin

text \<open>
  When two engines of the \<^verbatim>\<open>BENCH\<close> build agree: on the machine, the screen, the random
  numbers and the virtual clock, and on the timers and consumed keys as they read once caught
  up with that clock, however long ago each engine caught up. Every instruction of the
  interpreter respects it, and catching up early does not disturb it.
\<close>

section \<open>Lazy parts of the state\<close>

text \<open>The last clock value whose tick fits the \<^verbatim>\<open>int\<close> of \<^verbatim>\<open>bench_tick\<close>.\<close>

definition CLOCK_LIMIT :: nat where "CLOCK_LIMIT = BENCH_INSTR_PER_TICK * 2 ^ 31"

definition behind :: "'a vm_scheme \<Rightarrow> int" where
  "behind s = max 0 (bench_tick s - last_tick s)"

definition timer_view :: "'a vm_scheme \<Rightarrow> u8 \<times> u8 \<times> int" where
  "timer_view s = (timer_sub (delay_timer s) (behind s), timer_sub (sound_timer s) (behind s), last_tick s + behind s)"

definition key_tick :: "'a io_scheme \<Rightarrow> nat" where
  "key_tick s = bench_now s div BENCH_INSTR_PER_TICK"

definition cleared_view :: "'a io_scheme \<Rightarrow> u32" where
  "cleared_view s = (if int (key_tick s) = bench_cleared_tick s then bench_cleared s else 0)"

definition clock_ok :: "'a io_scheme \<Rightarrow> bool" where
  "clock_ok s \<longleftrightarrow> bench_now s < CLOCK_LIMIT \<and> bench_cleared_tick s \<le> int (key_tick s)"

definition agree :: "'a vm_scheme \<Rightarrow> 'c vm_scheme \<Rightarrow> bool" where
  "agree s t \<longleftrightarrow>
     stack s = stack t \<and> memory s = memory t \<and> regs s = regs t \<and> stack_pointer s = stack_pointer t \<and>
     addr s = addr t \<and> program_counter s = program_counter t \<and>
     rand_seq s = rand_seq t \<and> rand_pos s = rand_pos t \<and>
     display s = display t \<and> width s = width t \<and> height s = height t \<and>
     bench_retired s = bench_retired t \<and> bench_poll_clock s = bench_poll_clock t \<and>
     bench_budget s = bench_budget t \<and> bench_clock_cap s = bench_clock_cap t \<and>
     bench_key_mode s = bench_key_mode t \<and>
     timer_view s = timer_view t \<and> cleared_view s = cleared_view t \<and> clock_ok s \<and> clock_ok t"

lemmas agree_defs = agree_def timer_view_def behind_def cleared_view_def clock_ok_def key_tick_def
  bench_tick_def bench_now_def

lemma agree_refl: "clock_ok s \<Longrightarrow> agree s s"
  by (simp add: agree_def)

lemma agree_sym: "agree s t \<Longrightarrow> agree t s"
  by (auto simp: agree_def)

lemma agree_trans: "agree s t \<Longrightarrow> agree t u \<Longrightarrow> agree s u"
  by (simp add: agree_def)

section \<open>Catching up\<close>

lemma timer_view_sync: "timer_view (sync_timers s) = timer_view s"
proof -
  have tick: "bench_tick (elapse e s) = bench_tick s" for e by simp
  show ?thesis
    unfolding sync_timers_eq timer_view_def behind_def tick
    by (simp add: elapse_def max_def)
qed

lemma sync_other:
  "bench_now (sync_timers s) = bench_now s" "cleared_view (sync_timers s) = cleared_view s"
  "clock_ok (sync_timers s) = clock_ok s"
  by (simp_all add: sync_timers_def Let_def cleared_view_def clock_ok_def key_tick_def bench_now_def)

lemma agree_sync: "agree (sync_timers s) t \<longleftrightarrow> agree s t"
  by (simp add: agree_def timer_view_sync sync_other) (simp add: sync_timers_def Let_def)

lemma agree_sync_right: "agree s (sync_timers t) \<longleftrightarrow> agree s t"
  using agree_sync [of t s] agree_sym [of s t] agree_sym [of t s] agree_sym [of s "sync_timers t"]
    agree_sym [of "sync_timers t" s] by blast

lemma synced:
  "delay_timer (sync_timers s) = fst (timer_view s)" "sound_timer (sync_timers s) = fst (snd (timer_view s))"
  "last_tick (sync_timers s) = snd (snd (timer_view s))" "behind (sync_timers s) = 0"
proof -
  have "bench_tick (sync_timers s) = bench_tick s" by (simp add: bench_tick_def sync_other)
  then show "behind (sync_timers s) = 0" "last_tick (sync_timers s) = snd (snd (timer_view s))"
    by (simp_all add: behind_def timer_view_def sync_timers_spec)
  show "delay_timer (sync_timers s) = fst (timer_view s)" "sound_timer (sync_timers s) = fst (snd (timer_view s))"
    by (simp_all add: sync_timers_eq elapse_def timer_view_def behind_def)
qed

section \<open>The clock runs\<close>

lemma tick_mono:
  assumes "m \<le> n" "n < CLOCK_LIMIT"
  shows "s32 (int (m div BENCH_INSTR_PER_TICK)) \<le> s32 (int (n div BENCH_INSTR_PER_TICK))"
proof -
  have "m div BENCH_INSTR_PER_TICK \<le> n div BENCH_INSTR_PER_TICK" using assms(1) by (rule div_le_mono)
  moreover have "n div BENCH_INSTR_PER_TICK < 2 ^ 31"
    using assms(2) by (simp add: CLOCK_LIMIT_def BENCH_INSTR_PER_TICK_def)
  ultimately show ?thesis by (simp add: s32_id)
qed

lemma timer_view_later:
  assumes "bench_now s \<le> n" "n < CLOCK_LIMIT" "bench_now s' = n"
    "delay_timer s' = delay_timer s" "sound_timer s' = sound_timer s" "last_tick s' = last_tick s"
  shows "timer_view s' =
    (let (d, v, l) = timer_view s; e = max 0 (s32 (int (n div BENCH_INSTR_PER_TICK)) - l)
     in (timer_sub d e, timer_sub v e, l + e))"
proof -
  let ?k = "s32 (int (n div BENCH_INSTR_PER_TICK))"
  have le: "bench_tick s \<le> ?k" unfolding bench_tick_def by (rule tick_mono [OF assms(1,2)])
  have tick: "bench_tick s' = ?k" using assms(3) by (simp add: bench_tick_def)
  define e where "e = max 0 (?k - (last_tick s + behind s))"
  have sum: "behind s' = behind s + e"
    using le assms(6) tick by (simp add: e_def behind_def max_def)
  have "0 \<le> behind s" "0 \<le> e" by (simp_all add: behind_def e_def)
  then show ?thesis
    using assms(4-6) sum by (simp add: timer_view_def e_def [symmetric] timer_sub_sub)
qed

lemma cleared_later:
  assumes "clock_ok s" "bench_now s \<le> bench_now s'" "bench_cleared s' = bench_cleared s"
    "bench_cleared_tick s' = bench_cleared_tick s"
  shows "cleared_view s' = (if key_tick s' = key_tick s then cleared_view s else 0)"
    and "bench_now s' < CLOCK_LIMIT \<Longrightarrow> clock_ok s'"
proof -
  have "key_tick s \<le> key_tick s'" unfolding key_tick_def using assms(2) by (rule div_le_mono)
  then show "cleared_view s' = (if key_tick s' = key_tick s then cleared_view s else 0)"
    "bench_now s' < CLOCK_LIMIT \<Longrightarrow> clock_ok s'"
    using assms(1,3,4) by (auto simp: cleared_view_def clock_ok_def)
qed

text \<open>\<open>forward r p\<close> lets the clock run by \<open>r\<close> retired instructions and \<open>p\<close> polls.\<close>

definition forward :: "nat \<Rightarrow> nat \<Rightarrow> 'a io_scheme \<Rightarrow> 'a io_scheme" where
  "forward r p s = s\<lparr>bench_retired := bench_retired s + r, bench_poll_clock := bench_poll_clock s + p\<rparr>"

lemma forward_now [simp]: "bench_now (forward r p s) = bench_now s + (r + p)"
  by (simp add: forward_def bench_now_def)

lemma agree_forward:
  assumes "agree s t" "bench_now s + (r + p) < CLOCK_LIMIT"
  shows "agree (forward r p s) (forward r p t)"
proof -
  have now: "bench_now s = bench_now t" using assms(1) by (simp add: agree_def bench_now_def)
  have f: "delay_timer (forward r p u) = delay_timer u" "sound_timer (forward r p u) = sound_timer u"
    "last_tick (forward r p u) = last_tick u" for u :: "'z vm_scheme" by (simp_all add: forward_def)
  have tv: "timer_view (forward r p s) = timer_view (forward r p t)"
    using timer_view_later [of s "bench_now s + (r + p)" "forward r p s"]
      timer_view_later [of t "bench_now s + (r + p)" "forward r p t"] assms now
    by (simp add: f agree_def)
  have k: "key_tick (forward r p s) = key_tick (forward r p t)" "key_tick s = key_tick t"
    using now by (simp_all add: key_tick_def)
  have c: "cleared_view (forward r p u) = (if key_tick (forward r p u) = key_tick u then cleared_view u else 0)"
    "bench_now u + (r + p) < CLOCK_LIMIT \<Longrightarrow> clock_ok (forward r p u)" if "clock_ok u" for u :: "'z vm_scheme"
    using cleared_later [OF that, of "forward r p u"] by (simp_all add: forward_def bench_now_def)
  have "cleared_view (forward r p s) = cleared_view (forward r p t)" "clock_ok (forward r p s)" "clock_ok (forward r p t)"
    using assms now k c(1) [of s] c(1) [of t] c(2) [of s] c(2) [of t] by (simp_all add: agree_def)
  then show ?thesis using assms(1) tv by (simp add: agree_def) (simp add: forward_def)
qed

section \<open>Every instruction respects agreement\<close>

definition poll_ok :: "'a io_scheme \<Rightarrow> bool" where
  "poll_ok s \<longleftrightarrow> bench_now s + 1 < CLOCK_LIMIT \<and> bench_clock_cap s < CLOCK_LIMIT"

lemma roll_view:
  assumes "clock_ok s"
  shows "bench_cleared (bench_roll_tick (key_tick s) s) = cleared_view s"
    "bench_cleared_tick (bench_roll_tick (key_tick s) s) = int (key_tick s)"
  by (auto simp: bench_roll_tick_def cleared_view_def)

lemma agree_fields:
  assumes "agree s t"
  shows "bench_now s = bench_now t" "key_tick s = key_tick t" "bench_key_mode s = bench_key_mode t"
    "clock_ok s" "clock_ok t" "cleared_view s = cleared_view t"
  using assms by (simp_all add: agree_def bench_now_def key_tick_def)

text \<open>Setting the lazy fields of the keyboard to what they stand for.\<close>

lemma agree_keys_update:
  assumes "agree s t"
  shows "agree (s\<lparr>bench_cleared := c, bench_cleared_tick := int (key_tick s)\<rparr>)
    (t\<lparr>bench_cleared := c, bench_cleared_tick := int (key_tick t)\<rparr>)"
  using assms by (auto simp: agree_defs)

lemma roll_eq:
  "bench_roll_tick (key_tick s) s = s\<lparr>bench_cleared := cleared_view s, bench_cleared_tick := int (key_tick s)\<rparr>"
  by (simp add: bench_roll_tick_def cleared_view_def)

lemma keys_now_eq:
  "bench_keys_now s =
    (if bench_key_mode s = BENCH_KEYS_NONE \<or> key_tick s mod 4 \<ge> 2 then 0
     else push_bit ((key_tick s div 4) mod 16) 1 AND NOT (cleared_view s),
     s\<lparr>bench_cleared := cleared_view s, bench_cleared_tick := int (key_tick s)\<rparr>)"
  using roll_eq [of s] by (simp add: bench_keys_now_def key_tick_def Let_def)

lemma clear_key_eq:
  "bench_clear_key k s =
    s\<lparr>bench_cleared := cleared_view s OR push_bit (unat k) 1, bench_cleared_tick := int (key_tick s)\<rparr>"
  using roll_eq [of s] by (simp add: bench_clear_key_def key_tick_def Let_def)

lemma agree_keys_now:
  assumes "agree s t"
  shows "fst (bench_keys_now s) = fst (bench_keys_now t)" "agree (snd (bench_keys_now s)) (snd (bench_keys_now t))"
  using agree_keys_update [OF assms] by (simp_all add: keys_now_eq agree_fields [OF assms])

lemma agree_clear_key: "agree s t \<Longrightarrow> agree (bench_clear_key k s) (bench_clear_key k t)"
  using agree_keys_update [of s t] by (simp add: clear_key_eq agree_fields(6))

lemma poll_keys_forward: "bench_poll_keys s = bench_keys_now (forward 0 1 s)"
  by (simp add: bench_poll_keys_def forward_def BENCH_POLL_COST_def)

lemma agree_poll_keys:
  assumes "agree s t" "bench_now s + 1 < CLOCK_LIMIT"
  shows "fst (bench_poll_keys s) = fst (bench_poll_keys t)" "agree (snd (bench_poll_keys s)) (snd (bench_poll_keys t))"
  using agree_keys_now [OF agree_forward [OF assms(1), of 0 1]] assms(2) by (simp_all add: poll_keys_forward)

lemma agree_done: "agree s t \<Longrightarrow> bench_done s = bench_done t"
  by (simp add: agree_def bench_done_def bench_now_def)

lemma agree_poll_loop:
  "agree s t \<Longrightarrow> poll_ok s \<Longrightarrow> rel_option (rel_prod (=) agree) (poll_loop BENCH s) (poll_loop BENCH t)"
proof (induction "bench_clock_cap s - bench_now s" arbitrary: s t rule: less_induct)
  case less
  obtain keys s1 where k: "bench_poll_keys s = (keys, s1)" by fastforce
  obtain keys' t1 where k': "bench_poll_keys t = (keys', t1)" by fastforce
  have eq: "keys' = keys" and r: "agree s1 t1"
    using agree_poll_keys [OF less.prems(1)] less.prems(2) k k' by (simp_all add: poll_ok_def)
  have here: "poll_loop BENCH u = (if bench_done u1 then Some (keys, u1) else
      if keys = 0 then poll_loop BENCH u1 else Some (keys, u1))"
    if "bench_poll_keys u = (keys, u1)" for u u1 :: "'z vm_scheme"
    by (subst poll_loop.simps) (simp add: that)
  note hs = here [OF k] and ht = here [OF k' [unfolded eq]]
  show ?case
  proof (cases "bench_done s1 \<or> keys \<noteq> 0")
    case False
    then have cap: "bench_now s1 < bench_clock_cap s1" "bench_clock_cap s1 = bench_clock_cap s"
        "bench_now s1 = Suc (bench_now s)"
      using poll_keys_clock [OF k] by (auto simp: bench_done_def bench_now_def bench_frame_def)
    with less.prems(2) have "poll_ok s1" by (simp add: poll_ok_def)
    with cap have "rel_option (rel_prod (=) agree) (poll_loop BENCH s1) (poll_loop BENCH t1)"
      by (intro less.hyps r) simp_all
    then show ?thesis using False agree_done [OF r] by (simp add: hs ht)
  qed (use agree_done [OF r] r in \<open>auto simp: hs ht\<close>)
qed

text \<open>The lazy parts depend on nothing else.\<close>

lemma view_frames [simp]:
  "timer_view (regs_update f s) = timer_view s" "timer_view (memory_update g s) = timer_view s"
  "timer_view (stack_update h s) = timer_view s" "timer_view (stack_pointer_update k s) = timer_view s"
  "timer_view (program_counter_update p s) = timer_view s" "timer_view (addr_update a s) = timer_view s"
  "timer_view (s\<lparr>opcode := v\<rparr>) = timer_view s" "timer_view (s\<lparr>rand_pos := n\<rparr>) = timer_view s"
  "timer_view (s\<lparr>display := d\<rparr>) = timer_view s"
  "cleared_view (regs_update f s) = cleared_view s" "cleared_view (memory_update g s) = cleared_view s"
  "cleared_view (stack_update h s) = cleared_view s" "cleared_view (stack_pointer_update k s) = cleared_view s"
  "cleared_view (program_counter_update p s) = cleared_view s" "cleared_view (addr_update a s) = cleared_view s"
  "cleared_view (s\<lparr>opcode := v\<rparr>) = cleared_view s" "cleared_view (s\<lparr>rand_pos := n\<rparr>) = cleared_view s"
  "cleared_view (s\<lparr>display := d\<rparr>) = cleared_view s"
  "clock_ok (regs_update f s) = clock_ok s" "clock_ok (memory_update g s) = clock_ok s"
  "clock_ok (stack_update h s) = clock_ok s" "clock_ok (stack_pointer_update k s) = clock_ok s"
  "clock_ok (program_counter_update p s) = clock_ok s" "clock_ok (addr_update a s) = clock_ok s"
  "clock_ok (s\<lparr>opcode := v\<rparr>) = clock_ok s" "clock_ok (s\<lparr>rand_pos := n\<rparr>) = clock_ok s"
  "clock_ok (s\<lparr>display := d\<rparr>) = clock_ok s"
  by (simp_all add: timer_view_def behind_def cleared_view_def clock_ok_def key_tick_def bench_tick_def bench_now_def)

lemma agree_set_timer:
  assumes "agree s t" "behind s = 0" "behind t = 0"
  shows "agree (s\<lparr>delay_timer := d\<rparr>) (t\<lparr>delay_timer := d\<rparr>)" "agree (s\<lparr>sound_timer := d\<rparr>) (t\<lparr>sound_timer := d\<rparr>)"
proof -
  have frame: "behind (u\<lparr>delay_timer := d\<rparr>) = behind u" "behind (u\<lparr>sound_timer := d\<rparr>) = behind u"
    "cleared_view (u\<lparr>delay_timer := d\<rparr>) = cleared_view u" "cleared_view (u\<lparr>sound_timer := d\<rparr>) = cleared_view u"
    "clock_ok (u\<lparr>delay_timer := d\<rparr>) = clock_ok u" "clock_ok (u\<lparr>sound_timer := d\<rparr>) = clock_ok u"
    for u :: "'z vm_scheme"
    by (simp_all add: behind_def bench_tick_def bench_now_def cleared_view_def clock_ok_def key_tick_def)
  show "agree (s\<lparr>delay_timer := d\<rparr>) (t\<lparr>delay_timer := d\<rparr>)" "agree (s\<lparr>sound_timer := d\<rparr>) (t\<lparr>sound_timer := d\<rparr>)"
    using assms by (simp_all add: agree_def timer_view_def frame)
qed

interpretation ag: vm_congruence BENCH agree poll_ok
proof (unfold_locales, goal_cases)
  case (10 s t)
  then show ?case by (simp add: agree_sync agree_sync_right)
next
  case (11 s t)
  then have "timer_view s = timer_view t" by (simp add: agree_def)
  with 11 show ?case by (simp add: timer_access_def agree_sync agree_sync_right synced)
next
  case (12 s t d)
  then have "agree (sync_timers s) (sync_timers t)" by (simp add: agree_sync agree_sync_right)
  from agree_set_timer [OF this synced(4) synced(4)] show ?case by (simp add: timer_access_def)
next
  case (13 s t d)
  then have "agree (sync_timers s) (sync_timers t)" by (simp add: agree_sync agree_sync_right)
  from agree_set_timer [OF this synced(4) synced(4)] show ?case by (simp add: timer_access_def)
next
  case (14 s t)
  then show ?case by (simp add: agree_keys_now)
next
  case (15 s t key)
  then show ?case by (simp add: agree_clear_key)
next
  case (16 s t)
  then show ?case by (simp add: agree_poll_loop)
next
  case (18 s t)
  then show ?case by (simp add: clearscreen_io_bench_def agree_def)
next
  case (19 s t x y n mem)
  then show ?case by (simp add: draw_io_bench_def agree_def split: prod.splits)
next
  case (20 s t)
  then show ?case by (simp add: frame_sync_def)
next
  case (9 s t)
  then show ?case by (simp add: rand_def agree_def)
next
  case (17 s v)
  then show ?case by (simp add: poll_ok_def bench_now_def)
qed (simp_all add: agree_def)

end
