(* ===== verification/C8_Jit_Run.thy ===== *)
theory C8_Jit_Run
  imports C8_Agree C8_Jit
begin

text \<open>
  Executing compiled code in the \<^verbatim>\<open>BENCH\<close> build: one rule per node, what the host helpers
  keep, and the notion of code that simulates the interpreter.
\<close>

section \<open>One rule per node\<close>

lemma run_return [simp]: "run_block b bs End_with_void_return l s = Some (Returns s)"
  by (subst run_block.simps) simp

lemma run_jump: "map_of bs a = Some k \<Longrightarrow> run_block b bs (End_with_jump a) l s = run_block b bs k l s"
  by (subst run_block.simps) simp

lemma run_conditional:
  "run_block b bs (End_with_conditional r k1 k2) l s =
    (if eval l s r \<noteq> 0 then run_block b bs k1 l s else run_block b bs k2 l s)"
  by (subst run_block.simps) simp

lemma run_assignment:
  "run_block b bs (Stmt (Add_assignment p r) k) l s =
    (let (l1, s1) = set_place p (eval l s r) (l, s) in run_block b bs k l1 s1)"
  by (subst run_block.simps) (simp split: prod.splits)

lemma run_assignment_op:
  "run_block b bs (Stmt (Add_assignment_op p f r) k) l s =
    (let (l1, s1) = set_place p (apply_op f (place_type p) (get_place p l s) (eval l s r)) (l, s)
     in run_block b bs k l1 s1)"
  by (subst run_block.simps) (simp split: prod.splits)

lemma run_eval:
  "run_block b bs (Stmt (Add_eval f) k) l s =
    (case host_call b f s of None \<Rightarrow> None
     | Some (Returns s1) \<Rightarrow> run_block b bs k l s1 | Some (Exits s1) \<Rightarrow> Some (Exits s1) | Some Undef \<Rightarrow> Some Undef)"
  by (subst run_block.simps) (simp split: option.split run.split)

lemma run_slow_path:
  "run_block BENCH bs (Slow_path r f k) l s =
    (if eval l s r \<noteq> 0
     then case host_call BENCH f s of None \<Rightarrow> None
       | Some (Returns s1) \<Rightarrow> run_block BENCH bs k l s1 | Some (Exits s1) \<Rightarrow> Some (Exits s1) | Some Undef \<Rightarrow> Some Undef
     else run_block BENCH bs k l s)"
  by (subst run_block.simps) (simp add: look_def split: option.split run.split)

lemmas run_simps = run_conditional run_assignment run_assignment_op run_eval

lemma run_set_pc [simp]:
  "run_block b bs (set_pc a k) l s = run_block b bs k l (s\<lparr>program_counter := a\<rparr>)"
  using unsigned_less [of a, where ?'a = nat]
  by (simp add: set_pc_def run_assignment of_nat_mod)

lemma run_retire [simp]:
  "run_block BENCH bs (RETIRE BENCH n k) l s = run_block BENCH bs k l (s\<lparr>bench_retired := bench_retired s + n\<rparr>)"
  by (simp add: RETIRE_def run_assignment_op)

section \<open>What agreement does not see\<close>

lemma agree_jit_fields [simp]:
  "agree s (t\<lparr>program_over := p\<rparr>) = agree s t" "agree s (t\<lparr>smc_pending := q\<rparr>) = agree s t"
  "agree s (t\<lparr>code_bytes := c\<rparr>) = agree s t" "agree s (t\<lparr>trace_cache := m\<rparr>) = agree s t"
  "agree s (t\<lparr>bench_compiled := i\<rparr>) = agree s t" "agree s (t\<lparr>bench_flushes := i\<rparr>) = agree s t"
  "agree s (u\<lparr>bench_next_safepoint := j\<rparr>) = agree s u" "agree s (u\<lparr>opcode := v\<rparr>) = agree s u"
  by (simp_all add: agree_defs)

lemma agree_opcode_left [simp]: "agree (u\<lparr>opcode := v\<rparr>) s = agree u s"
  by (simp add: agree_defs)

lemma sync_pc: "sync_timers (t\<lparr>program_counter := a\<rparr>) = sync_timers t\<lparr>program_counter := a\<rparr>"
  by (simp add: sync_timers_def Let_def bench_tick_def bench_now_def)

lemma check_interrupt_BENCH:
  "check_interrupt BENCH t =
    (if bench_done t then sync_timers t\<lparr>program_over := True\<rparr> else sync_timers t)"
  by (simp add: check_interrupt_def Let_def bench_done_def bench_now_def) (simp add: sync_timers_def Let_def)

lemma agree_check_interrupt: "agree s (check_interrupt BENCH t) = agree s t"
  by (simp add: check_interrupt_BENCH agree_sync_right)

lemma check_interrupt_pc:
  "check_interrupt BENCH (t\<lparr>program_counter := a\<rparr>) = check_interrupt BENCH t\<lparr>program_counter := a\<rparr>"
  by (simp add: check_interrupt_BENCH sync_pc bench_done_def bench_now_def)

lemma agree_check_interrupt_pc:
  "agree s (check_interrupt BENCH t\<lparr>program_counter := a\<rparr>) = agree s (t\<lparr>program_counter := a\<rparr>)"
  unfolding check_interrupt_pc [symmetric] by (rule agree_check_interrupt)

section \<open>What code keeps\<close>

text \<open>
  The JIT's own state across a piece of code, for a bound \<open>n\<close> on the next safepoint: the cache
  and its marks stay, a write to a marked byte raises \<^verbatim>\<open>smc_pending\<close>, and the next safepoint
  is within the bound unless the run is over, which is noted only when it is.
\<close>

definition due :: "nat \<Rightarrow> 'a jit_scheme \<Rightarrow> bool" where
  "due n t \<longleftrightarrow> program_over t \<or> bench_next_safepoint t \<le> n"

definition kept :: "nat \<Rightarrow> 'a jit_scheme \<Rightarrow> 'a jit_scheme \<Rightarrow> bool" where
  "kept n t u \<longleftrightarrow>
     code_bytes u = code_bytes t \<and> trace_cache u = trace_cache t \<and>
     bench_budget u = bench_budget t \<and> bench_clock_cap u = bench_clock_cap t \<and>
     length (memory u) = length (memory t) \<and>
     (smc_pending t \<longrightarrow> smc_pending u) \<and>
     (\<forall>i. code_bytes t ! i \<longrightarrow> memory u ! i = memory t ! i \<or> smc_pending u) \<and>
     (due n t \<longrightarrow> due n u) \<and> ((program_over t \<longrightarrow> bench_done t) \<longrightarrow> program_over u \<longrightarrow> bench_done u)"

definition calm :: "nat \<Rightarrow> 'a jit_scheme \<Rightarrow> 'a jit_scheme \<Rightarrow> bool" where
  "calm n t u \<longleftrightarrow> kept n t u \<and> memory u = memory t \<and> bench_retired u = bench_retired t \<and>
     bench_poll_clock u = bench_poll_clock t"

lemma kept_refl [simp]: "kept n t t"
  by (simp add: kept_def)

lemma kept_trans: "kept n t u \<Longrightarrow> kept n u v \<Longrightarrow> kept n t v"
  by (auto simp: kept_def)

lemma calm_refl [simp]: "calm n t t"
  by (simp add: calm_def)

lemma calm_trans: "calm n t u \<Longrightarrow> calm n u v \<Longrightarrow> calm n t v"
  by (auto simp: calm_def intro: kept_trans)

lemma calm_kept: "calm n t u \<Longrightarrow> kept n t u"
  by (simp add: calm_def)

lemma calm_fields [simp]:
  "calm n t (regs_update f u) = calm n t u" "calm n t (stack_update h u) = calm n t u"
  "calm n t (stack_pointer_update k u) = calm n t u" "calm n t (program_counter_update p u) = calm n t u"
  "calm n t (addr_update a u) = calm n t u" "calm n t (u\<lparr>opcode := v\<rparr>) = calm n t u"
  "calm n t (u\<lparr>delay_timer := d\<rparr>) = calm n t u" "calm n t (u\<lparr>sound_timer := d\<rparr>) = calm n t u"
  "calm n t (u\<lparr>rand_pos := i\<rparr>) = calm n t u" "calm n t (u\<lparr>display := g\<rparr>) = calm n t u"
  by (simp_all add: calm_def kept_def due_def bench_done_def bench_now_def)

lemma calm_sync [simp]: "calm n t (sync_timers u) = calm n t u"
  by (simp add: sync_timers_def Let_def calm_def kept_def due_def bench_done_def bench_now_def)

lemma calm_over: "calm n t u \<Longrightarrow> bench_done u \<Longrightarrow> calm n t (u\<lparr>program_over := True\<rparr>)"
  by (simp add: calm_def kept_def due_def bench_done_def bench_now_def)

lemma bench_done_sync [simp]: "bench_done (sync_timers t) = bench_done t"
  by (simp add: sync_timers_def Let_def bench_done_def bench_now_def)

lemma calm_check_interrupt: "calm n t u \<Longrightarrow> calm n t (check_interrupt BENCH u)"
  by (simp add: check_interrupt_BENCH calm_over)

section \<open>Safepoints\<close>

lemma advance_from_bounds: "r < advance_from r n \<and> (n \<le> r \<longrightarrow> advance_from r n \<le> r + BENCH_SAFEPOINT_INTERVAL)"
proof (induction r n rule: advance_from.induct)
  case (1 r n)
  then show ?case by (subst (1 2) advance_from.simps) (auto simp: Let_def BENCH_SAFEPOINT_INTERVAL_def)
qed

text \<open>A safepoint, and what is known when the run is not over behind it.\<close>

definition safepoint :: "'a jit_scheme \<Rightarrow> 'a jit_scheme" where
  "safepoint t = (if bench_next_safepoint t \<le> bench_retired t then bench_safepoint t else t)"

lemma run_safepoint [simp]: "run_block BENCH bs (SAFEPOINT BENCH k) l t = run_block BENCH bs k l (safepoint t)"
  by (simp add: SAFEPOINT_def run_slow_path safepoint_def)

lemma agree_safepoint_pc: "agree s (safepoint t\<lparr>program_counter := a\<rparr>) = agree s (t\<lparr>program_counter := a\<rparr>)"
proof -
  have "bench_safepoint t\<lparr>program_counter := a\<rparr> = (check_interrupt BENCH t\<lparr>program_counter := a\<rparr>)
      \<lparr>bench_next_safepoint := bench_next_safepoint (bench_safepoint t)\<rparr>"
    by (simp add: bench_safepoint_def bench_advance_safepoint_def)
  then have "agree s (bench_safepoint t\<lparr>program_counter := a\<rparr>) = agree s (t\<lparr>program_counter := a\<rparr>)"
    by (simp add: agree_check_interrupt_pc)
  then show ?thesis by (simp add: safepoint_def)
qed

lemma safepoint_spec:
  assumes "bench_budget t + BENCH_SAFEPOINT_INTERVAL \<le> n" "due n t"
  shows "calm n t (safepoint t)" "program_over (safepoint t) \<or> bench_retired t < n"
proof -
  let ?c = "check_interrupt BENCH t"
  have frame: "bench_retired ?c = bench_retired t" "bench_next_safepoint ?c = bench_next_safepoint t"
    "program_over ?c \<longleftrightarrow> program_over t \<or> bench_done t"
    by (simp_all add: check_interrupt_BENCH) (simp_all add: sync_timers_def Let_def)
  have next_le: "bench_done t \<or> advance_from (bench_retired t) (bench_next_safepoint t) \<le> n"
    if "bench_next_safepoint t \<le> bench_retired t"
    using advance_from_bounds [of "bench_retired t" "bench_next_safepoint t"] that assms(1)
    by (auto simp: bench_done_def)
  have c: "calm n t ?c" by (simp add: calm_check_interrupt)
  show "calm n t (safepoint t)"
    using c next_le frame
    by (auto simp: safepoint_def bench_safepoint_def bench_advance_safepoint_def calm_def kept_def due_def bench_done_def bench_now_def)
  show "program_over (safepoint t) \<or> bench_retired t < n"
    using frame assms
    by (auto simp: safepoint_def bench_safepoint_def bench_advance_safepoint_def bench_done_def
        BENCH_SAFEPOINT_INTERVAL_def due_def)
qed

end
