(* ===== verification/C8_Jit_Emit.thy ===== *)
theory C8_Jit_Emit
  imports C8_Jit_Run
begin

text \<open>
  The code generator, one instruction at a time: the code emitted for an instruction does to a
  JIT state what the interpreter's handler does to an agreeing one. The host helpers first,
  then the inline operations, then the ways out of a trace.
\<close>

section \<open>Outcomes side by side\<close>

text \<open>
  What the interpreter makes of an instruction against what compiled code makes of it. A helper
  that ends the process has not always stored the program counter.
\<close>

fun matches :: "'a vm_scheme outcome \<Rightarrow> 'c jit_scheme run \<Rightarrow> bool" where
  "matches (Done r u) (Returns w) \<longleftrightarrow> r = 0 \<and> agree u w"
| "matches (Done r u) (Exits w) \<longleftrightarrow> r \<noteq> 0 \<and> agree u (w\<lparr>program_counter := program_counter u\<rparr>)"
| "matches UB Undef \<longleftrightarrow> True"
| "matches _ _ \<longleftrightarrow> False"

lemma rel_outcome_matches:
  assumes "rel_outcome agree o1 o2" "matches o2 p"
  shows "matches o1 p"
proof (cases o2)
  case (Done r2 u2)
  then obtain u1 where o1: "o1 = Done r2 u1" "agree u1 u2" using assms(1) by (cases o1) auto
  then have "program_counter u1 = program_counter u2" by (simp add: agree_def)
  with o1 Done assms(2) show ?thesis by (cases p) (auto dest: agree_trans)
next
  case Hangs
  then show ?thesis using assms(2) by (cases p) simp_all
next
  case UB
  then have "o1 = UB" using assms(1) by (cases o1) simp_all
  then show ?thesis using assms(2) UB by (cases p) simp_all
qed

text \<open>A helper called in state \<open>v\<close> does the work of an instruction whose outcome is \<open>out\<close>.\<close>

definition stays :: "nat \<Rightarrow> 'c jit_scheme \<Rightarrow> 'c jit_scheme \<Rightarrow> bool" where
  "stays n v w \<longleftrightarrow> kept n v w \<and> bench_retired w = bench_retired v"

lemma stays_refl [simp]: "stays n v v"
  by (simp add: stays_def)

lemma calm_stays: "calm n v w \<Longrightarrow> stays n v w"
  by (simp add: stays_def calm_def)

lemma stays_fields [simp]:
  "stays n v (program_counter_update p w) = stays n v w" "stays n v (w\<lparr>opcode := c\<rparr>) = stays n v w"
  "stays n (v\<lparr>opcode := c\<rparr>) w = stays n v w" "stays n v (regs_update r w) = stays n v w"
  "stays n v (w\<lparr>bench_cleared := c', bench_cleared_tick := i\<rparr>) = stays n v w"
  "stays n v (stack_update h w) = stays n v w" "stays n v (stack_pointer_update k w) = stays n v w"
  by (simp_all add: stays_def kept_def due_def bench_done_def bench_now_def)

definition serves :: "nat \<Rightarrow> host_fn \<Rightarrow> 'c jit_scheme \<Rightarrow> 'a vm_scheme outcome \<Rightarrow> bool" where
  "serves n f v out \<longleftrightarrow>
     (\<exists>p. host_call BENCH f v = Some p \<and> matches out p \<and> (\<forall>w. p = Returns w \<longrightarrow> stays n v w))"

lemma serves_rel: "rel_outcome agree o1 o2 \<Longrightarrow> serves n f v o2 \<Longrightarrow> serves n f v o1"
  unfolding serves_def using rel_outcome_matches by blast

section \<open>Agreement along a step\<close>

lemma agree_same [simp]: "agree s s \<longleftrightarrow> clock_ok s"
  by (simp add: agree_def)

lemma clock_ok_check_interrupt [simp]: "clock_ok (check_interrupt BENCH t) = clock_ok t"
  by (simp add: check_interrupt_BENCH) (simp add: sync_other clock_ok_def key_tick_def bench_now_def sync_timers_def Let_def)

lemma sync_again:
  assumes "behind t = 0"
  shows "sync_timers t = t"
  using assms by (simp add: sync_timers_def behind_def Let_def)

lemma behind_fields [simp]:
  "behind (t\<lparr>program_counter := a\<rparr>) = behind t" "behind (t\<lparr>opcode := v\<rparr>) = behind t"
  by (simp_all add: behind_def bench_tick_def bench_now_def)

lemma interrupted:
  "interrupt BENCH (check_interrupt BENCH t) = check_interrupt BENCH t"
  "interrupt BENCH (check_interrupt BENCH t\<lparr>opcode := v\<rparr>) = check_interrupt BENCH t\<lparr>opcode := v\<rparr>"
  "interrupt BENCH (check_interrupt BENCH t\<lparr>program_counter := a, opcode := v\<rparr>) =
    check_interrupt BENCH t\<lparr>program_counter := a, opcode := v\<rparr>"
proof -
  have "behind (check_interrupt BENCH t) = 0"
    using synced(4) [of t]
    by (simp add: check_interrupt_BENCH) (simp add: behind_def bench_tick_def bench_now_def)
  then show "interrupt BENCH (check_interrupt BENCH t) = check_interrupt BENCH t"
    "interrupt BENCH (check_interrupt BENCH t\<lparr>opcode := v\<rparr>) = check_interrupt BENCH t\<lparr>opcode := v\<rparr>"
    "interrupt BENCH (check_interrupt BENCH t\<lparr>program_counter := a, opcode := v\<rparr>) =
      check_interrupt BENCH t\<lparr>program_counter := a, opcode := v\<rparr>"
    by (simp_all add: sync_again)
qed

lemma check_interrupt_frame [simp]:
  "stack (check_interrupt BENCH t) = stack t" "stack_pointer (check_interrupt BENCH t) = stack_pointer t"
  "memory (check_interrupt BENCH t) = memory t" "regs (check_interrupt BENCH t) = regs t"
  "addr (check_interrupt BENCH t) = addr t" "program_counter (check_interrupt BENCH t) = program_counter t"
  "opcode (check_interrupt BENCH t) = opcode t"
  by (simp_all add: check_interrupt_BENCH)

lemma pc_same: "program_counter t = a \<Longrightarrow> t\<lparr>program_counter := a\<rparr> = (t :: 'a chip8_scheme)"
  by auto

lemma opcode_out:
  "program_counter_update f (u\<lparr>opcode := v\<rparr>) = program_counter_update f u\<lparr>opcode := v\<rparr>"
  "stack_pointer_update k (u\<lparr>opcode := v\<rparr>) = stack_pointer_update k u\<lparr>opcode := v\<rparr>"
  "stack_update h (u\<lparr>opcode := v\<rparr>) = stack_update h u\<lparr>opcode := v\<rparr>"
  "addr_update a (u\<lparr>opcode := v\<rparr>) = addr_update a u\<lparr>opcode := v\<rparr>"
  "regs_update r (u\<lparr>opcode := v\<rparr>) = regs_update r u\<lparr>opcode := v\<rparr>"
  "memory_update m (u\<lparr>opcode := v\<rparr>) = memory_update m u\<lparr>opcode := v\<rparr>"
  "delay_timer_update g (u\<lparr>opcode := v\<rparr>) = delay_timer_update g u\<lparr>opcode := v\<rparr>"
  "sound_timer_update g (u\<lparr>opcode := v\<rparr>) = sound_timer_update g u\<lparr>opcode := v\<rparr>"
  by simp_all

lemma pc_out:
  "regs_update r (u\<lparr>program_counter := a\<rparr>) = regs_update r u\<lparr>program_counter := a\<rparr>"
  "addr_update f (u\<lparr>program_counter := a\<rparr>) = addr_update f u\<lparr>program_counter := a\<rparr>"
  "delay_timer_update g (w\<lparr>program_counter := a\<rparr>) = delay_timer_update g w\<lparr>program_counter := a\<rparr>"
  "sound_timer_update g (w\<lparr>program_counter := a\<rparr>) = sound_timer_update g w\<lparr>program_counter := a\<rparr>"
  by simp_all

section \<open>The control helpers\<close>

lemma serves_retern:
  assumes "clock_ok t" "opc \<noteq> 0"
  shows "serves n H_retern t (retern BENCH (t\<lparr>program_counter := a, opcode := opc\<rparr>))"
proof (rule serves_rel)
  let ?c = "check_interrupt BENCH t"
  show "rel_outcome agree (retern BENCH (t\<lparr>program_counter := a, opcode := opc\<rparr>))
      (retern BENCH (?c\<lparr>program_counter := a, opcode := opc\<rparr>))"
    by (rule ag.rel_control) (simp add: agree_check_interrupt_pc assms)
  have "calm n t ?c" by (simp add: calm_check_interrupt)
  then show "serves n H_retern t (retern BENCH (?c\<lparr>program_counter := a, opcode := opc\<rparr>))"
    using assms
    by (simp add: serves_def retern_def jit_retern_def errer_def Let_def interrupted ERROR_def
        error_code_nonzero calm_stays opcode_out del: interrupt.simps)
qed

lemma serves_call:
  assumes "clock_ok v" "opcode (refetch v) \<noteq> 0"
  shows "serves n H_call v (call BENCH (refetch v))"
proof (rule serves_rel)
  let ?c = "check_interrupt BENCH (refetch v)"
  show "rel_outcome agree (call BENCH (refetch v)) (call BENCH ?c)"
    by (rule ag.rel_control) (simp add: agree_check_interrupt assms refetch_def)
  have "calm n v ?c" by (rule calm_check_interrupt) (simp add: refetch_def)
  then show "serves n H_call v (call BENCH ?c)"
    using assms
    by (simp add: serves_def call_def jit_call_def errer_def Let_def interrupted ERROR_def
        error_code_nonzero calm_stays refetch_def pc_same del: interrupt.simps)
qed

section \<open>Helpers that go on\<close>

text \<open>
  The interpreter's outcome is a step to address \<open>a\<close>, and \<open>w\<close> is a JIT state that agrees with it
  once its program counter is stored.
\<close>

definition lands :: "'a vm_scheme outcome \<Rightarrow> 'c jit_scheme \<Rightarrow> u16 \<Rightarrow> bool" where
  "lands out w a \<longleftrightarrow> (\<exists>u. out = Done 0 u \<and> agree u (w\<lparr>program_counter := a\<rparr>))"

definition carries :: "nat \<Rightarrow> host_fn \<Rightarrow> 'c jit_scheme \<Rightarrow> 'a vm_scheme outcome \<Rightarrow> u16 \<Rightarrow> bool" where
  "carries n f v out a \<longleftrightarrow> (\<exists>w. host_call BENCH f v = Some (Returns w) \<and> calm n v w \<and> lands out w a)"

lemma lands_rel: "rel_outcome agree o1 o2 \<Longrightarrow> lands o2 w a \<Longrightarrow> lands o1 w a"
  unfolding lands_def by (cases o1; cases o2) (auto dest: agree_trans)

lemma carries_rel: "rel_outcome agree o1 o2 \<Longrightarrow> carries n f v o2 a \<Longrightarrow> carries n f v o1 a"
  unfolding carries_def using lands_rel by blast

lemma lands_STEP:
  assumes "agree u (w\<lparr>program_counter := p\<rparr>)" "a = p + 2"
  shows "lands (STEP u) w a"
  using ag.R_pc [OF assms(1), of "\<lambda>_. a"] assms
  by (simp add: lands_def STEP_def agree_def)

lemma random_step:
  assumes "clock_ok v"
  shows "carries n H_random_byte v (random_byte (refetch v)) (program_counter v + 2)"
proof -
  have c: "clock_ok (snd (rand (refetch v)))" "calm n v (snd (rand (refetch v)))"
      "program_counter (snd (rand (refetch v))) = program_counter v"
    using assms by (simp_all add: refetch_def rand_def)
  then show ?thesis
    by (simp add: carries_def jit_random_byte_def random_byte_def split_beta Let_def)
      (rule lands_STEP, simp_all add: pc_same)
qed

lemma calm_fold_regs: "calm n v s \<Longrightarrow> calm n v (fold (\<lambda>i t. set_reg i (f i t) t) is s)"
  by (induction "is" arbitrary: s) simp_all

lemma clock_ok_fold_regs: "clock_ok (fold (\<lambda>i t. set_reg i (f i t) t) is s) = clock_ok (s :: 'a vm_scheme)"
  by (induction "is" arbitrary: s) simp_all

lemma pc_fold_regs: "program_counter (fold (\<lambda>i t. set_reg i (f i t) t) is s) = program_counter s"
  by (induction "is" arbitrary: s) simp_all

lemma restore_step:
  assumes "clock_ok v"
  shows "carries n H_restore_registers v (restore_registers (refetch v)) (program_counter v + 2)"
proof -
  have "calm n v (refetch v)" "clock_ok (refetch v)" "program_counter (refetch v) = program_counter v"
    using assms by (simp_all add: refetch_def)
  then show ?thesis
    by (simp add: carries_def jit_restore_registers_def restore_registers_def Let_def del: upt_Suc)
      (rule conjI, simp add: calm_fold_regs del: upt_Suc,
       rule lands_STEP, simp_all add: clock_ok_fold_regs pc_fold_regs pc_same del: upt_Suc)
qed

lemma clearscreen_step:
  assumes "clock_ok v"
  shows "carries n H_clearscreen_io v (clearscreen BENCH (v\<lparr>program_counter := a, opcode := opc\<rparr>)) (a + 2)"
  using assms
  by (simp add: carries_def clearscreen_def clearscreen_io_bench_def lands_STEP)
    (rule lands_STEP, simp_all, simp add: agree_def)

lemma frame_sync_BENCH [simp]: "frame_sync BENCH s = Some s"
  by (simp add: frame_sync_def)

lemma draw_step:
  assumes "clock_ok v"
  shows "carries n H_draw v (draw BENCH (refetch v)) (program_counter v + 2)"
proof (rule carries_rel)
  let ?c = "check_interrupt BENCH (refetch v)"
  show "rel_outcome agree (draw BENCH (refetch v)) (draw BENCH ?c)"
    by (rule ag.rel_draw) (simp add: agree_check_interrupt assms refetch_def)
  have c: "calm n v ?c" "clock_ok ?c" "program_counter ?c = program_counter v"
    using assms by (simp_all add: calm_check_interrupt refetch_def)
  show "carries n H_draw v (draw BENCH ?c) (program_counter v + 2)"
    using c
    by (simp add: carries_def jit_draw_def draw_def Let_def interrupted draw_io_bench_def split_beta
        del: interrupt.simps)
      (rule lands_STEP, simp_all add: pc_same)
qed

section \<open>Helpers that write memory\<close>

lemma agree_note_store [simp]: "agree s (note_store a k t) = agree s t"
  by (simp add: note_store_def)

lemma note_store_frame [simp]:
  "memory (note_store a k t) = memory t" "regs (note_store a k t) = regs t" "addr (note_store a k t) = addr t"
  "opcode (note_store a k t) = opcode t" "program_counter (note_store a k t) = program_counter t"
  by (simp_all add: note_store_def)

lemma clock_ok_note_store [simp]: "clock_ok (note_store a k t) = clock_ok t"
  by (simp add: note_store_def clock_ok_def key_tick_def bench_now_def)

text \<open>Writing the bytes that were announced keeps the books.\<close>

lemma stays_note_store:
  assumes "length (f (memory v)) = length (memory v)" "\<And>i. (\<forall>j<k. i \<noteq> mem_index (a + of_nat j)) \<Longrightarrow> f (memory v) ! i = memory v ! i"
  shows "stays n v (memory_update f (note_store a k v))"
proof -
  have "smc_pending (note_store a k v)" if "code_bytes v ! mem_index (a + of_nat j)" "j < k" for j
    using that by (auto simp: note_store_def list_ex_iff)
  moreover have "\<exists>j<k. i = mem_index (a + of_nat j)" if "f (memory v) ! i \<noteq> memory v ! i" for i
    using assms(2) that by blast
  ultimately have "f (memory v) ! i = memory v ! i \<or> smc_pending (note_store a k v)" if "code_bytes v ! i" for i
    using that by metis
  then show ?thesis
    using assms(1) by (simp add: stays_def kept_def due_def bench_done_def bench_now_def) (simp add: note_store_def)
qed

lemma serves_store_bcd:
  assumes "clock_ok v"
  shows "serves n H_store_bcd v (store_bcd (refetch v))"
proof (rule serves_rel)
  let ?s = "note_store (addr v) 3 (refetch v)"
  let ?f = "\<lambda>h t z m. m[mem_index (addr v + 0) := h, mem_index (addr v + 1) := t, mem_index (addr v + 2) := z]"
  have s: "clock_ok (refetch v)" using assms by (simp add: refetch_def)
  show "rel_outcome agree (store_bcd (refetch v)) (store_bcd ?s)"
    by (rule ag.rel_plain) (simp add: s)
  have "stays n (refetch v) (memory_update (?f h t z) ?s)" for h t z
    by (rule stays_note_store) (simp_all add: numeral_3_eq_3 less_Suc_eq all_conj_distrib)
  then have "stays n v (memory_update (?f h t z) ?s)" for h t z by (simp add: refetch_def)
  then show "serves n H_store_bcd v (store_bcd ?s)"
    using s by (simp add: serves_def jit_store_bcd_def store_bcd_def STEP_def Let_def o_def
        del: One_nat_def) (simp add: refetch_def)
qed

lemma serves_save:
  assumes "clock_ok v" "length (memory v) = 4096"
  shows "serves n H_save_registers v (save_registers (refetch v))"
proof (rule serves_rel)
  let ?x = "op_x (opcode (refetch v)) + 1"
  let ?s = "note_store (addr v) ?x (refetch v)"
  have s: "clock_ok (refetch v)" using assms by (simp add: refetch_def)
  show "rel_outcome agree (save_registers (refetch v)) (save_registers ?s)"
    by (rule ag.rel_block_moves) (simp add: s)
  have x: "?x \<le> 16" using op_x_less [of "opcode (refetch v)"] by linarith
  obtain m where m: "fold (\<lambda>i t. mem_set (addr t + of_nat i) (regs t ! i) t) [0..<?x] ?s = ?s\<lparr>memory := m\<rparr>"
    "length m = 4096" "\<forall>idx. (\<forall>i<?x. idx \<noteq> mem_index (addr v + of_nat i)) \<longrightarrow> m ! idx = memory v ! idx"
    using fold_save [of ?s ?x] x assms(2) by (auto simp: refetch_def)
  have "stays n (refetch v) (memory_update (\<lambda>_. m) ?s)"
    using m(2,3) assms(2) by (intro stays_note_store) (auto simp: refetch_def)
  then have "stays n v (?s\<lparr>memory := m\<rparr>)" by (simp add: refetch_def)
  then show "serves n H_save_registers v (save_registers ?s)"
    using s m(1) by (simp add: serves_def jit_save_registers_def save_registers_def STEP_def Let_def del: upt_Suc)
      (simp add: refetch_def)
qed

section \<open>Helpers that read keys\<close>

lemma calm_keys [simp]:
  "calm n v (u\<lparr>bench_cleared := c, bench_cleared_tick := i\<rparr>) = calm n v u"
  by (simp add: calm_def kept_def due_def bench_done_def bench_now_def)

lemma calm_keys_now [simp]: "calm n v (snd (bench_keys_now u)) = calm n v u"
  by (simp add: keys_now_eq)

lemma calm_clear_key [simp]: "calm n v (bench_clear_key k u) = calm n v u"
  by (simp add: clear_key_eq)

lemma clock_ok_keys [simp]:
  fixes u :: "'a vm_scheme"
  assumes "clock_ok u"
  shows "clock_ok (snd (bench_keys_now u))" "clock_ok (bench_clear_key k u)"
  using assms agree_keys_now(2) [of u u] agree_clear_key [of u u k] by simp_all

lemma serves_skip_key:
  assumes "clock_ok v"
  shows "serves n (if up then H_skip_key_x_up else H_skip_key_x_down) v (skip_key_x BENCH up (refetch v))"
proof -
  have c: "clock_ok (snd (bench_keys_now (refetch v)))" "calm n v (snd (bench_keys_now (refetch v)))"
    using assms by (simp_all add: refetch_def)
  have "serves n f v (skip_key_x BENCH up (refetch v))" if "host_call BENCH f v = Some (jit_skip_key_x BENCH up v)" for f
    unfolding serves_def that jit_skip_key_x_def skip_key_x_def Let_def
    using c calm_stays [of n v] by (simp add: split_beta STEP_def)
  then show ?thesis by simp
qed

text \<open>The wait of the JIT is the interpreter's, but for the note that the run is over.\<close>

lemma jit_poll_loop_BENCH:
  "jit_poll_loop BENCH s =
    map_option (\<lambda>(keys, s1). (keys, if bench_done s1 then s1\<lparr>program_over := True\<rparr> else s1)) (poll_loop BENCH s)"
proof (induction "bench_clock_cap s - bench_now s" arbitrary: s rule: less_induct)
  case less
  obtain keys s1 where k: "bench_poll_keys s = (keys, s1)" by fastforce
  note clock = poll_keys_clock [OF k]
  show ?case
  proof (cases "bench_done s1 \<or> keys \<noteq> 0")
    case True
    then show ?thesis by (subst jit_poll_loop.simps, subst poll_loop.simps) (auto simp: k)
  next
    case False
    then have "bench_now s1 < bench_clock_cap s1" by (simp add: bench_done_def)
    then have "bench_clock_cap s1 - bench_now s1 < bench_clock_cap s - bench_now s"
      using clock by (simp add: bench_now_def bench_frame_def)
    from less [OF this] show ?thesis
      using False by (subst jit_poll_loop.simps, subst poll_loop.simps) (simp add: k)
  qed
qed

lemma stays_over: "stays n v u \<Longrightarrow> bench_done u \<Longrightarrow> stays n v (u\<lparr>program_over := True\<rparr>)"
  by (simp add: stays_def kept_def due_def bench_done_def bench_now_def)

lemma stays_forward: "stays n v u \<Longrightarrow> stays n v (forward 0 p u)"
  by (simp add: stays_def kept_def due_def forward_def bench_done_def bench_now_def) auto

lemma stays_trans: "stays n t u \<Longrightarrow> stays n u v \<Longrightarrow> stays n t v"
  by (auto simp: stays_def intro: kept_trans)

lemma stays_poll_loop:
  "poll_loop BENCH s = Some (keys, s') \<Longrightarrow> stays n s s'"
proof (induction "bench_clock_cap s - bench_now s" arbitrary: s rule: less_induct)
  case less
  obtain keys1 s1 where k: "bench_poll_keys s = (keys1, s1)" by fastforce
  note clock = poll_keys_clock [OF k]
  have here: "stays n s s1"
    using arg_cong [OF k, of snd] by (auto simp: poll_keys_forward keys_now_eq stays_forward)
  show ?case
  proof (cases "bench_done s1 \<or> keys1 \<noteq> 0")
    case True
    then show ?thesis using less.prems here by (subst (asm) poll_loop.simps) (auto simp: k split: if_splits)
  next
    case False
    then have "bench_now s1 < bench_clock_cap s1" by (simp add: bench_done_def)
    then have "bench_clock_cap s1 - bench_now s1 < bench_clock_cap s - bench_now s"
      using clock by (simp add: bench_now_def bench_frame_def)
    moreover have "poll_loop BENCH s1 = Some (keys, s')"
      using False less.prems by (subst (asm) poll_loop.simps) (simp add: k)
    ultimately show ?thesis using less.hyps [of s1] here stays_trans by blast
  qed
qed

lemma stays_fold_take_key: "stays n v s \<Longrightarrow> stays n v (fold (take_key BENCH x keys) is s)"
  by (induction "is" arbitrary: s) (simp_all add: take_key_def Let_def clear_key_eq)

lemma serves_load_on_key:
  assumes "clock_ok v" "poll_ok v" "opcode (refetch v) \<noteq> 0"
  shows "serves n H_load_on_key v (load_on_key BENCH (refetch v))"
proof -
  let ?v = "refetch v"
  obtain keys s1 where p: "poll_loop BENCH ?v = Some (keys, s1)" using poll_loop_BENCH [of ?v] by blast
  let ?s = "if bench_done s1 then s1\<lparr>program_over := True\<rparr> else s1"
  let ?f = "fold (take_key BENCH (op_x (opcode ?v)) keys) [0..<16]"
  have "poll_ok ?v" "agree ?v ?v" using assms by (simp_all add: refetch_def poll_ok_def bench_now_def)
  from agree_poll_loop [OF this(2,1)] have s1: "agree s1 s1" by (simp add: p)
  then have ag: "agree (?f s1) (?f ?s)" by (intro ag.R_fold_take_key) simp
  have "stays n ?v s1" by (rule stays_poll_loop [OF p])
  then have "stays n ?v ?s" by (simp add: stays_over)
  then have "stays n ?v (?f ?s)" by (rule stays_fold_take_key)
  then have k: "stays n v (?f ?s)" by (simp add: refetch_def)
  have o: "opcode (?f s1) \<noteq> 0" using opcode_poll_loop [OF p] assms(3) by simp
  have q: "keys AND QUIT = 0" by (rule poll_loop_no_quit [OF p])
  have pc: "program_counter (?f s1) = program_counter (?f ?s)" using ag by (simp add: agree_def)
  have "load_on_key BENCH ?v = Done 0 (?f s1\<lparr>program_counter := program_counter (?f ?s) + 2\<rparr>)"
    unfolding load_on_key_def p option.case prod.case Let_def STEP_def pc using q by simp
  moreover have "jit_load_on_key BENCH v = Some (Returns (?f ?s\<lparr>program_counter := program_counter (?f ?s) + 2\<rparr>))"
    using q by (simp add: jit_load_on_key_def jit_poll_loop_BENCH p Let_def del: fold_simps upt_rec_numeral)
  ultimately show ?thesis
    using ag.R_pc [OF ag, of "\<lambda>_. program_counter (?f ?s) + 2"] k
    by (simp add: serves_def del: fold_simps upt_rec_numeral)
qed

section \<open>Code that falls through\<close>

text \<open>
  Code \<open>f\<close> emitted in front of what follows: from \<open>t\<close> it runs into what follows, having done the
  work of an instruction with outcome \<open>out\<close> that goes to address \<open>a\<close>.
\<close>

definition flows :: "nat \<Rightarrow> (block \<Rightarrow> block) \<Rightarrow> 'c jit_scheme \<Rightarrow> 'a vm_scheme outcome \<Rightarrow> u16 \<Rightarrow> bool" where
  "flows n f t out a \<longleftrightarrow>
     (\<exists>t'. calm n t t' \<and> lands out t' a \<and>
        (\<forall>bs k l. \<exists>l'. run_block BENCH bs (f k) l t = run_block BENCH bs k l' t'))"

lemma flowsI:
  "calm n t t' \<Longrightarrow> lands out t' a \<Longrightarrow> (\<And>bs k l. \<exists>l'. run_block BENCH bs (f k) l t = run_block BENCH bs k l' t') \<Longrightarrow>
   flows n f t out a"
  by (auto simp: flows_def)

lemma flows_plain:
  "(\<And>bs k l. run_block BENCH bs (f k) l t = run_block BENCH bs k l t') \<Longrightarrow> calm n t t' \<Longrightarrow> lands out t' a \<Longrightarrow>
   flows n f t out a"
  by (auto simp: flows_def)

lemma flows_host:
  assumes "carries n h (t\<lparr>program_counter := a\<rparr>) out b"
  shows "flows n (CALL_HOST_OP h a) t out b"
proof -
  obtain w where w: "host_call BENCH h (t\<lparr>program_counter := a\<rparr>) = Some (Returns w)"
    "calm n (t\<lparr>program_counter := a\<rparr>) w" "lands out w b"
    using assms by (auto simp: carries_def)
  have "calm n (t\<lparr>program_counter := a\<rparr>) w = calm n t w"
    by (simp add: calm_def kept_def due_def bench_done_def bench_now_def)
  then have "calm n t w" using w(2) by simp
  then show ?thesis
    using w by (intro flows_plain [of _ t w]) (simp_all add: CALL_HOST_OP_def CALL_HOST_def run_eval)
qed

lemma refetch_at:
  "opcode_at t a = opc \<Longrightarrow> refetch (t\<lparr>program_counter := a\<rparr>) = t\<lparr>program_counter := a, opcode := opc\<rparr>"
  by (simp add: refetch_def opcode_at_def mem_at_def)

lemma u8_eqI: "unat w = m mod 256 \<Longrightarrow> word_of_nat m = (w :: u8)"
  by (simp add: word_eq_iff_unsigned [where ?'a = nat] unsigned_of_nat take_bit_eq_mod)

lemma u8_lt [simp]: "unat (w :: u8) mod 256 = unat w"
  using unat_u8_less [of w] by simp

lemma u16_lt [simp]: "unat (w :: u16) mod 65536 = unat w"
  using unsigned_less [of w, where ?'a = nat] by simp

text \<open>The instructions that are assignments. \<open>at\<close> is the state in which the interpreter runs its handler.\<close>

abbreviation at :: "'c jit_scheme \<Rightarrow> u16 \<Rightarrow> u16 \<Rightarrow> 'c jit_scheme" where
  "at t a opc \<equiv> t\<lparr>program_counter := a, opcode := opc\<rparr>"

lemma lands_fields:
  assumes "clock_ok t"
  shows "lands (STEP (regs_update r (at t a opc))) (regs_update r t) (a + 2)"
    "lands (STEP (addr_update r' (at t a opc))) (addr_update r' t) (a + 2)"
    "lands (STEP (regs_update r2 (regs_update r1 (at t a opc)))) (regs_update r2 (regs_update r1 t)) (a + 2)"
  using assms by (auto intro!: lands_STEP [where p = a] simp: opcode_out pc_out)

lemma flow_assign:
  assumes "clock_ok t"
  shows "flows n (Stmt (Add_assignment (Reg (op_x opc)) (From_int U8 (unat (imm8 opc))))) t (load_immediate (at t a opc)) (a + 2)"
    "flows n (Stmt (Add_assignment_op (Reg (op_x opc)) PLUS (From_int U8 (unat (imm8 opc))))) t (add_immediate (at t a opc)) (a + 2)"
    "flows n (Stmt (Add_assignment Addr (From_int U16 (unat (imm12 opc))))) t (load_addr_immediate (at t a opc)) (a + 2)"
    "flows n (Stmt (Add_assignment (Reg (op_x opc)) (As_rvalue (Reg (op_y opc))))) t (move (at t a opc)) (a + 2)"
proof -
  note l = lands_fields [OF assms]
  have add: "word_of_nat ((unat x + unat y) mod 256) = x + (y :: u8)" for x y
    by (rule u8_eqI) (simp add: unat_word_ariths)
  show "flows n (Stmt (Add_assignment (Reg (op_x opc)) (From_int U8 (unat (imm8 opc))))) t (load_immediate (at t a opc)) (a + 2)"
    unfolding load_immediate_def
    by (rule flows_plain [OF _ _ l(1)]) (simp_all add: run_assignment)
  show "flows n (Stmt (Add_assignment_op (Reg (op_x opc)) PLUS (From_int U8 (unat (imm8 opc))))) t (add_immediate (at t a opc)) (a + 2)"
    unfolding add_immediate_def Let_def
    by (rule flows_plain [OF _ _ l(1)]) (simp_all add: run_assignment_op add)
  show "flows n (Stmt (Add_assignment Addr (From_int U16 (unat (imm12 opc))))) t (load_addr_immediate (at t a opc)) (a + 2)"
    unfolding load_addr_immediate_def
    by (rule flows_plain [OF _ _ l(2)]) (simp_all add: run_assignment)
  show "flows n (Stmt (Add_assignment (Reg (op_x opc)) (As_rvalue (Reg (op_y opc))))) t (move (at t a opc)) (a + 2)"
    unfolding move_def
    by (rule flows_plain [OF _ _ l(1)]) (simp_all add: run_assignment)
qed

lemma flow_logic:
  assumes "clock_ok t"
  shows "flows n (Stmt (Add_assignment_op (Reg (op_x opc)) BITWISE_OR (As_rvalue (Reg (op_y opc))))) t (or_register (at t a opc)) (a + 2)"
    "flows n (Stmt (Add_assignment_op (Reg (op_x opc)) BITWISE_AND (As_rvalue (Reg (op_y opc))))) t (and_register (at t a opc)) (a + 2)"
    "flows n (Stmt (Add_assignment_op (Reg (op_x opc)) BITWISE_XOR (As_rvalue (Reg (op_y opc))))) t (xor_register (at t a opc)) (a + 2)"
proof -
  note l = lands_fields [OF assms]
  have bits: "word_of_nat (unat x OR unat y) = x OR (y :: u8)" "word_of_nat (unat x AND unat y) = x AND (y :: u8)"
    "word_of_nat (unat x XOR unat y) = x XOR (y :: u8)" for x y
    by (simp_all add: u8_eqI unsigned_or_eq unsigned_and_eq unsigned_xor_eq flip: unsigned_or_eq unsigned_and_eq unsigned_xor_eq)
  show "flows n (Stmt (Add_assignment_op (Reg (op_x opc)) BITWISE_OR (As_rvalue (Reg (op_y opc))))) t (or_register (at t a opc)) (a + 2)"
    unfolding or_register_def Let_def
    by (rule flows_plain [OF _ _ l(1)]) (simp_all add: run_assignment_op bits)
  show "flows n (Stmt (Add_assignment_op (Reg (op_x opc)) BITWISE_AND (As_rvalue (Reg (op_y opc))))) t (and_register (at t a opc)) (a + 2)"
    unfolding and_register_def Let_def
    by (rule flows_plain [OF _ _ l(1)]) (simp_all add: run_assignment_op bits)
  show "flows n (Stmt (Add_assignment_op (Reg (op_x opc)) BITWISE_XOR (As_rvalue (Reg (op_y opc))))) t (xor_register (at t a opc)) (a + 2)"
    unfolding xor_register_def Let_def
    by (rule flows_plain [OF _ _ l(1)]) (simp_all add: run_assignment_op bits)
qed

lemma flow_addr:
  assumes "clock_ok t"
  shows "flows n (Stmt (Add_assignment_op Addr PLUS (Cast (As_rvalue (Reg (op_x opc))) U16))) t (add_addr (at t a opc)) (a + 2)"
    "flows n (Stmt (Add_assignment Addr (Binary MULT U16 (Binary BITWISE_AND U16 (Cast (As_rvalue (Reg (op_x opc))) U16)
       (From_int U16 0x0f)) (From_int U16 5)))) t (load_sprite_addr (at t a opc)) (a + 2)"
proof -
  note l = lands_fields [OF assms]
  have [simp]: "unat (x :: u8) mod 65536 = unat x" for x using unat_u8_less [of x] by simp
  have add: "word_of_nat ((unat x + unat y) mod 65536) = x + ucast (y :: u8)" for x :: u16 and y
    by (simp add: word_eq_iff_unsigned [where ?'a = nat] unsigned_of_nat take_bit_eq_mod unat_word_ariths)
  have mult: "word_of_nat ((unat x AND 15) * 5 mod 65536) = ucast (x AND 0x0f :: u8) * (5 :: u16)" for x
    by (simp add: word_eq_iff_unsigned [where ?'a = nat] unsigned_of_nat take_bit_eq_mod unat_word_ariths unsigned_and_eq)
  show "flows n (Stmt (Add_assignment_op Addr PLUS (Cast (As_rvalue (Reg (op_x opc))) U16))) t (add_addr (at t a opc)) (a + 2)"
    unfolding add_addr_def Let_def
    by (rule flows_plain [OF _ _ l(2)]) (simp_all add: run_assignment_op add)
  show "flows n (Stmt (Add_assignment Addr (Binary MULT U16 (Binary BITWISE_AND U16 (Cast (As_rvalue (Reg (op_x opc))) U16)
       (From_int U16 0x0f)) (From_int U16 5)))) t (load_sprite_addr (at t a opc)) (a + 2)"
    unfolding load_sprite_addr_def Let_def
    by (rule flows_plain [OF _ _ l(2)]) (simp_all add: run_assignment mult)
qed

text \<open>The arithmetic that keeps its operands in locals.\<close>

definition set2 :: "u16 \<Rightarrow> rvalue \<Rightarrow> rvalue \<Rightarrow> block \<Rightarrow> block" where
  "set2 opc res flag k = Stmt (Add_assignment (Reg (op_x opc)) res) (Stmt (Add_assignment (Reg 15) flag) k)"

definition snap2 :: "nat \<Rightarrow> u16 \<Rightarrow> block \<Rightarrow> block" where
  "snap2 lid opc k = Stmt (Add_assignment (Snap lid) (As_rvalue (Reg (op_x opc))))
     (Stmt (Add_assignment (Snap (lid + 1)) (As_rvalue (Reg (op_y opc)))) k)"

definition snap1 :: "nat \<Rightarrow> u16 \<Rightarrow> block \<Rightarrow> block" where
  "snap1 lid opc k = Stmt (Add_assignment (Snap lid) (As_rvalue (Reg (op_x opc)))) k"

lemma flows_arith:
  assumes "clock_ok t" "out = STEP (set_reg 15 f (set_reg (op_x opc) v (at t a opc)))"
    and "\<And>l s. l lid = regs t ! op_x opc \<Longrightarrow> eval l (s :: 'c jit_scheme) res = unat v \<and> eval l s flag = unat f"
  shows "flows n (\<lambda>k. snap1 lid opc (set2 opc res flag k)) (t :: 'c jit_scheme) out (a + 2)"
proof (unfold assms(2), rule flowsI [OF _ lands_fields(3) [OF assms(1)]])
  fix bs k l
  show "\<exists>l'. run_block BENCH bs (snap1 lid opc (set2 opc res flag k)) l t =
      run_block BENCH bs k l' (set_reg 15 f (set_reg (op_x opc) v t))"
    by (rule exI [of _ "l(lid := regs t ! op_x opc)"]) (simp add: snap1_def set2_def run_assignment assms(3))
qed simp

lemma flows_arith2:
  assumes "clock_ok t" "out = STEP (set_reg 15 f (set_reg (op_x opc) v (at t a opc)))"
    and "\<And>l s. l lid = regs t ! op_x opc \<Longrightarrow> l (lid + 1) = regs t ! op_y opc \<Longrightarrow>
      eval l (s :: 'c jit_scheme) res = unat v \<and> eval l s flag = unat f"
  shows "flows n (\<lambda>k. snap2 lid opc (set2 opc res flag k)) (t :: 'c jit_scheme) out (a + 2)"
proof (unfold assms(2), rule flowsI [OF _ lands_fields(3) [OF assms(1)]])
  fix bs k l
  show "\<exists>l'. run_block BENCH bs (snap2 lid opc (set2 opc res flag k)) l t =
      run_block BENCH bs k l' (set_reg 15 f (set_reg (op_x opc) v t))"
    by (rule exI [of _ "l(lid := regs t ! op_x opc, lid + 1 := regs t ! op_y opc)"])
      (simp add: snap2_def set2_def run_assignment assms(3))
qed simp

lemma unat_if1: "unat (if P then 1 else 0 :: u8) = of_bool P"
  by simp

lemma flow_arith:
  fixes lid :: nat
  assumes "clock_ok t"
  defines "vx \<equiv> As_rvalue (Snap lid)" and "vy \<equiv> As_rvalue (Snap (lid + 1))"
  defines "sum16 \<equiv> Binary PLUS U16 (Cast vx U16) (Cast vy U16)"
  shows "flows n (\<lambda>k. snap2 lid opc (set2 opc (Cast sum16 U8) (Cast (Comparison Greater sum16 (From_int U16 0xff)) U8) k)) t
      (add_register (at t a opc)) (a + 2)"
    "flows n (\<lambda>k. snap2 lid opc (set2 opc (Binary MINUS U8 vx vy) (Cast (Comparison Greater_equal vx vy) U8) k)) t
      (sub_register (at t a opc)) (a + 2)"
    "flows n (\<lambda>k. snap2 lid opc (set2 opc (Binary MINUS U8 vy vx) (Cast (Comparison Greater_equal vy vx) U8) k)) t
      (subn_register (at t a opc)) (a + 2)"
    "flows n (\<lambda>k. snap1 lid opc (set2 opc (Binary RSHIFT U8 vx (From_int U8 1)) (Binary BITWISE_AND U8 vx (From_int U8 1)) k)) t
      (shift_right (at t a opc)) (a + 2)"
    "flows n (\<lambda>k. snap1 lid opc (set2 opc (Binary LSHIFT U8 vx (From_int U8 1))
        (Binary RSHIFT U8 (Binary BITWISE_AND U8 vx (From_int U8 0x80)) (From_int U8 7)) k)) t
      (shift_left (at t a opc)) (a + 2)"
proof -
  have [simp]: "unat (x :: u8) mod 65536 = unat x" for x using unat_u8_less [of x] by simp
  have [simp]: "(unat (x :: u8) + unat y) mod 65536 = unat x + unat (y :: u8)" for x y
    using unat_u8_less [of x] unat_u8_less [of y] by simp
  have diff: "unat (x :: u8) + (256 - unat y) = unat x + 256 - unat (y :: u8)" for x y
    using unat_u8_less [of y] by simp
  have high: "(unat (x :: u8) AND 128) div 128 = of_bool (x AND 0x80 \<noteq> 0)" for x
  proof -
    have "unat x AND 128 = unat (x AND 0x80)" by (simp add: unsigned_and_eq)
    also have "\<dots> = (if x AND 0x80 \<noteq> 0 then 128 else 0)"
    proof -
      have "x AND push_bit m 1 = push_bit m (of_bool (bit x m))" for m
        by (rule bit_word_eqI) (auto simp: bit_simps)
      from this [of 7] show ?thesis by (cases "bit x 7") simp_all
    qed
    finally show ?thesis by simp
  qed
  show "flows n (\<lambda>k. snap2 lid opc (set2 opc (Cast sum16 U8) (Cast (Comparison Greater sum16 (From_int U16 0xff)) U8) k)) t
      (add_register (at t a opc)) (a + 2)"
    by (rule flows_arith2 [OF assms(1)], simp add: add_register_def Let_def)
      (simp add: vx_def vy_def sum16_def byte_add unat_if1 del: of_bool_eq)
  show "flows n (\<lambda>k. snap2 lid opc (set2 opc (Binary MINUS U8 vx vy) (Cast (Comparison Greater_equal vx vy) U8) k)) t
      (sub_register (at t a opc)) (a + 2)"
    by (rule flows_arith2 [OF assms(1)], simp add: sub_register_def Let_def)
      (simp add: vx_def vy_def byte_sub diff unat_if1 word_le_nat_alt)
  show "flows n (\<lambda>k. snap2 lid opc (set2 opc (Binary MINUS U8 vy vx) (Cast (Comparison Greater_equal vy vx) U8) k)) t
      (subn_register (at t a opc)) (a + 2)"
    by (rule flows_arith2 [OF assms(1)], simp add: subn_register_def Let_def)
      (simp add: vx_def vy_def byte_sub diff unat_if1 word_le_nat_alt)
  show "flows n (\<lambda>k. snap1 lid opc (set2 opc (Binary RSHIFT U8 vx (From_int U8 1)) (Binary BITWISE_AND U8 vx (From_int U8 1)) k)) t
      (shift_right (at t a opc)) (a + 2)"
    by (rule flows_arith [OF assms(1)], simp add: shift_right_def Let_def)
      (simp add: vx_def byte_shift and_one_eq unat_mod_distrib)
  show "flows n (\<lambda>k. snap1 lid opc (set2 opc (Binary LSHIFT U8 vx (From_int U8 1))
        (Binary RSHIFT U8 (Binary BITWISE_AND U8 vx (From_int U8 0x80)) (From_int U8 7)) k)) t
      (shift_left (at t a opc)) (a + 2)"
    by (rule flows_arith [OF assms(1)], simp add: shift_left_def Let_def)
      (simp add: vx_def byte_shift high unat_if1 unat_word_ariths)
qed

text \<open>The timers, caught up first.\<close>

lemma flow_timer:
  assumes "clock_ok t"
  shows "flows n (\<lambda>k. sync_call BENCH (Stmt (Add_assignment (Reg (op_x opc)) (As_rvalue Delay_timer)) k)) t
      (get_delay_timer BENCH (at t a opc)) (a + 2)"
    "flows n (\<lambda>k. sync_call BENCH (Stmt (Add_assignment Delay_timer (As_rvalue (Reg (op_x opc)))) k)) t
      (set_delay_timer BENCH (at t a opc)) (a + 2)"
    "flows n (\<lambda>k. sync_call BENCH (Stmt (Add_assignment Sound_timer (As_rvalue (Reg (op_x opc)))) k)) t
      (set_sound_timer BENCH (at t a opc)) (a + 2)"
proof -
  let ?s = "sync_timers t"
  have at: "sync_timers (at t a opc) = at ?s a opc"
    by (simp add: sync_timers_def Let_def bench_tick_def bench_now_def)
  have ok: "clock_ok ?s" using assms by (simp add: sync_other)
  have b: "behind ?s = 0" by (rule synced)
  have same: "agree ?s ?s" using ok by simp
  note set = agree_set_timer [OF same b b]
  show "flows n (\<lambda>k. sync_call BENCH (Stmt (Add_assignment (Reg (op_x opc)) (As_rvalue Delay_timer)) k)) t
      (get_delay_timer BENCH (at t a opc)) (a + 2)"
    unfolding get_delay_timer_def timer_access_def Let_def
    by (simp add: at) (rule flows_plain [OF _ _ lands_fields(1) [OF ok]],
      simp add: sync_call_def CALL_HOST_def run_eval run_assignment, simp)
  show "flows n (\<lambda>k. sync_call BENCH (Stmt (Add_assignment Delay_timer (As_rvalue (Reg (op_x opc)))) k)) t
      (set_delay_timer BENCH (at t a opc)) (a + 2)"
    unfolding set_delay_timer_def timer_access_def Let_def
    by (simp add: at)
      (rule flows_plain [where t' = "?s\<lparr>delay_timer := regs t ! op_x opc\<rparr>"],
       simp add: sync_call_def CALL_HOST_def run_eval run_assignment, simp,
       rule lands_STEP [where p = a], use set in \<open>simp_all add: opcode_out pc_out\<close>)
  show "flows n (\<lambda>k. sync_call BENCH (Stmt (Add_assignment Sound_timer (As_rvalue (Reg (op_x opc)))) k)) t
      (set_sound_timer BENCH (at t a opc)) (a + 2)"
    unfolding set_sound_timer_def timer_access_def Let_def
    by (simp add: at)
      (rule flows_plain [where t' = "?s\<lparr>sound_timer := regs t ! op_x opc\<rparr>"],
       simp add: sync_call_def CALL_HOST_def run_eval run_assignment, simp,
       rule lands_STEP [where p = a], use set in \<open>simp_all add: opcode_out pc_out\<close>)
qed

end
