(* ===== verification/C8_Jit_Step.thy ===== *)
theory C8_Jit_Step
  imports C8_Jit_Emit
begin

text \<open>
  What the code of one instruction does: it flows into the code of the next, leaves the trace,
  or loops back to code of the trace; always with the work of the interpreter done.
\<close>

section \<open>Ways out of a trace\<close>

definition leaves :: "nat \<Rightarrow> (u16 \<times> block) list \<Rightarrow> block \<Rightarrow> (nat \<Rightarrow> u8) \<Rightarrow> 'c jit_scheme \<Rightarrow> 'a vm_scheme outcome \<Rightarrow> bool" where
  "leaves n bs c l t out \<longleftrightarrow>
     (\<exists>p. run_block BENCH bs c l t = Some p \<and> matches out p \<and> (\<forall>w. p = Returns w \<longrightarrow> stays n t w))"

definition loops ::
  "nat \<Rightarrow> u16 set \<Rightarrow> (u16 \<times> block) list \<Rightarrow> block \<Rightarrow> (nat \<Rightarrow> u8) \<Rightarrow> 'c jit_scheme \<Rightarrow> 'a vm_scheme outcome \<Rightarrow> bool" where
  "loops n seen bs c l t out \<longleftrightarrow>
     (\<exists>a l' t'. a \<in> seen \<and> run_block BENCH bs c l t = run_block BENCH bs (End_with_jump a) l' t' \<and>
        calm n t t' \<and> lands out t' a \<and> bench_retired t < n)"

definition ready :: "nat \<Rightarrow> 'c jit_scheme \<Rightarrow> bool" where
  "ready n t \<longleftrightarrow> clock_ok t \<and> poll_ok t \<and> length (memory t) = 4096 \<and> due n t \<and>
     bench_budget t + BENCH_SAFEPOINT_INTERVAL \<le> n"

lemma lands_pc [simp]: "lands out (t\<lparr>program_counter := b\<rparr>) a = lands out t a"
  by (simp add: lands_def)

lemma lands_safepoint [simp]: "lands out (safepoint t) a = lands out t a"
  by (simp add: lands_def agree_safepoint_pc)

lemma lands_matches: "lands out t a \<Longrightarrow> program_counter t = a \<Longrightarrow> matches out (Returns t)"
  by (auto simp: lands_def pc_same)

lemma bounces:
  assumes "ready n t" "lands out t a"
  shows "leaves n bs (SAFEPOINT BENCH (set_pc a End_with_void_return)) l t out"
proof -
  have "calm n t (safepoint t)" using assms(1) by (intro safepoint_spec) (simp_all add: ready_def)
  moreover have "matches out (Returns (safepoint t\<lparr>program_counter := a\<rparr>))"
    using assms(2) by (intro lands_matches [of _ _ a]) simp_all
  ultimately show ?thesis by (simp add: leaves_def calm_stays)
qed

lemma closes:
  assumes "ready n t" "lands out t a" "a \<in> seen"
  shows "leaves n bs (SAFEPOINT BENCH (set_pc a (MAYBE_IDLE_WAIT BENCH g a (CLOSE_BACKEDGE a)))) l t out \<or>
    loops n seen bs (SAFEPOINT BENCH (set_pc a (MAYBE_IDLE_WAIT BENCH g a (CLOSE_BACKEDGE a)))) l t out"
proof -
  have s: "calm n t (safepoint t)" "program_over (safepoint t) \<or> bench_retired t < n"
    using safepoint_spec [of t n] assms(1) by (simp_all add: ready_def)
  let ?t = "safepoint t\<lparr>program_counter := a\<rparr>"
  have run: "run_block BENCH bs (SAFEPOINT BENCH (set_pc a (MAYBE_IDLE_WAIT BENCH g a (CLOSE_BACKEDGE a)))) l t =
      (if program_over (safepoint t) then Some (Returns ?t) else run_block BENCH bs (End_with_jump a) l ?t)"
    by (simp add: MAYBE_IDLE_WAIT_def CLOSE_BACKEDGE_def run_conditional)
  show ?thesis
  proof (cases "program_over (safepoint t)")
    case True
    have "matches out (Returns ?t)" using assms(2) by (intro lands_matches [of _ _ a]) simp_all
    then show ?thesis using True s(1) by (simp add: leaves_def run calm_stays del: run_safepoint)
  next
    case False
    then have "loops n seen bs (SAFEPOINT BENCH (set_pc a (MAYBE_IDLE_WAIT BENCH g a (CLOSE_BACKEDGE a)))) l t out"
      unfolding loops_def run using s assms(2,3)
      by (intro exI [of _ a] exI [of _ l] exI [of _ ?t]) simp
    then show ?thesis ..
  qed
qed

lemma serves_leaves:
  assumes "serves n f (t\<lparr>program_counter := a\<rparr>) out"
  shows "leaves n bs (CALL_HOST_OP f a End_with_void_return) l t out"
proof -
  have "stays n (t\<lparr>program_counter := a\<rparr>) w = stays n t w" for w by (simp add: stays_def kept_def due_def bench_done_def bench_now_def)
  then show ?thesis
    using assms by (auto simp: serves_def leaves_def CALL_HOST_OP_def CALL_HOST_def run_eval split: run.split)
qed

section \<open>Jumps\<close>

lemma lands_jump: "clock_ok t \<Longrightarrow> lands (jump BENCH (at t a opc)) t (imm12 opc)"
proof -
  assume c: "clock_ok t"
  have "sync_timers (at t a opc)\<lparr>program_counter := imm12 opc\<rparr> = at (sync_timers t) (imm12 opc) opc"
    by (simp add: sync_timers_def Let_def bench_tick_def bench_now_def)
  moreover have "agree (sync_timers t\<lparr>program_counter := imm12 opc\<rparr>) (t\<lparr>program_counter := imm12 opc\<rparr>)"
    unfolding sync_pc [symmetric] agree_sync using c by simp
  ultimately show ?thesis by (simp add: lands_def jump_def Let_def)
qed

lemma flow_jump:
  assumes "ready n t"
  shows "flows n (\<lambda>k. SAFEPOINT BENCH (set_pc (imm12 opc) k)) t (jump BENCH (at t a opc)) (imm12 opc)"
proof (rule flows_plain [where t' = "safepoint t\<lparr>program_counter := imm12 opc\<rparr>"])
  show "calm n t (safepoint t\<lparr>program_counter := imm12 opc\<rparr>)"
    using safepoint_spec(1) [of t n] assms by (simp add: ready_def)
qed (use assms lands_jump [of t opc a] in \<open>simp_all add: ready_def\<close>)

section \<open>Instructions that go on\<close>

lemma not_fixed:
  assumes "unat (drop_bit 12 ((opc :: u16) AND 0xf000)) \<noteq> 0"
  shows "opc \<noteq> 0x00e0" "opc \<noteq> 0x00ee" "opc \<noteq> 0"
  using assms by auto

lemma emit_8_flows:
  assumes "emit_8 a lid opc = Goes_on marks lid1 a1 f" "clock_ok t"
  shows "flows n f t (op_8 (at t a opc)) a1"
  using assms(1) flow_assign(4) [OF assms(2), of n opc a] flow_logic [OF assms(2), of n opc a]
    flow_arith [OF assms(2), where n = n and lid = lid and opc = opc and a = a]
  unfolding emit_8_def op_8_def Let_def
  by (simp add: snap1_def set2_def snap2_def split: if_splits)

lemma emit_f_flows:
  assumes "emit_f BENCH a lid opc = Goes_on marks lid1 a1 f" "clock_ok t" "opcode_at t a = opc"
  shows "flows n f t (op_f BENCH (at t a opc)) a1"
proof -
  have "flows n (CALL_HOST_OP H_restore_registers a) t (restore_registers (at t a opc)) (a + 2)"
    using restore_step [of "t\<lparr>program_counter := a\<rparr>" n] assms(2)
    by (intro flows_host) (simp add: refetch_at [OF assms(3)])
  then show ?thesis
    using assms(1) flow_timer [OF assms(2), of n opc a] flow_addr [OF assms(2), of n opc a]
    unfolding emit_f_def op_f_def Let_def by (simp split: if_splits)
qed

text \<open>The opcode groups of the conditional skips.\<close>

definition skips :: "u16 \<Rightarrow> bool" where
  "skips opc \<longleftrightarrow> unat (drop_bit 12 (opc AND 0xf000)) \<in> {3, 4, 5, 9}"

lemma emit_flows:
  assumes "emit BENCH g a cnt lid seen = Goes_on marks lid1 a1 f" "opcode_at g a = opc" "opcode_at t a = opc"
    "ready n t" "\<not> skips opc"
  shows "flows n f t (dispatch BENCH (at t a opc)) a1"
proof -
  let ?k = "unat (drop_bit 12 (opc AND 0xf000))"
  have c: "clock_ok t" using assms(4) by (simp add: ready_def)
  have host: "flows n (CALL_HOST_OP H_draw a) t (draw BENCH (at t a opc)) (a + 2)"
    "flows n (CALL_HOST_OP H_random_byte a) t (random_byte (at t a opc)) (a + 2)"
    using draw_step [of "t\<lparr>program_counter := a\<rparr>" n] random_step [of "t\<lparr>program_counter := a\<rparr>" n] c
    by (auto intro!: flows_host simp: refetch_at [OF assms(3)])
  show ?thesis
  proof (cases "opc = 0xe0 \<or> opc = 0xee")
    case True
    have "flows n (CALL_HOST H_clearscreen_io) t (clearscreen BENCH (at t a opc)) (a + 2)"
      using clearscreen_step [OF c, of n opc a]
      by (auto simp: carries_def intro!: flows_plain simp: CALL_HOST_def run_eval)
    then show ?thesis using True assms(1) by (auto simp: emit_def dispatch_def assms(2))
  next
    case False
    have jump: "flows n f t (jump BENCH (at t a opc)) a1" if "emit_jump BENCH g cnt lid seen opc = Goes_on marks lid1 a1 f"
      using that flow_jump [OF assms(4), of opc a] by (auto simp: emit_jump_def Let_def split: if_splits)
    note rules = jump host flow_assign(1-3) [OF c, of n opc a] emit_8_flows [OF _ c, where a = a and lid = lid and opc = opc and n = n]
      emit_f_flows [OF _ c assms(3), where n = n]
    have "?k < 16" by (rule high_nibble_less)
    then show ?thesis
      using False assms(1,5) rules unfolding emit_def dispatch_def assms(2) Let_def skips_def
      by (cases rule: less_16_cases) (simp_all add: emit_e_def Let_def split: if_splits)
  qed
qed

section \<open>Instructions that end the trace\<close>

lemma emit_jump_stops:
  assumes "emit_jump BENCH g cnt lid seen opc = Stops marks c" "ready n t"
  shows "leaves n bs c l t (jump BENCH (at t a opc)) \<or> loops n (set seen) bs c l t (jump BENCH (at t a opc))"
proof -
  have "lands (jump BENCH (at t a opc)) t (imm12 opc)" using assms(2) by (simp add: lands_jump ready_def)
  from closes [OF assms(2) this, of "set seen" bs g l] bounces [OF assms(2) this, of bs l] assms(1) show ?thesis
    unfolding emit_jump_def Let_def by (auto split: if_splits)
qed

lemma leaves_branch:
  assumes "clock_ok t"
  shows "leaves n bs (Stmt (Add_assignment Pc (Binary PLUS U16 (From_int U16 (unat (imm12 opc)))
      (Cast (As_rvalue (Reg 0)) U16))) End_with_void_return) l t (branch (at t a opc))"
proof -
  have [simp]: "unat (x :: u8) mod 65536 = unat x" for x using unat_u8_less [of x] by simp
  have add: "word_of_nat ((unat x + unat y) mod 65536) = x + ucast (y :: u8)" for x :: u16 and y
    by (simp add: word_eq_iff_unsigned [where ?'a = nat] unsigned_of_nat take_bit_eq_mod unat_word_ariths)
  show ?thesis
    using assms by (simp add: leaves_def run_assignment branch_def add) (simp add: opcode_out)
qed

lemma emit_stops:
  assumes "emit BENCH g a cnt lid seen = Stops marks c" "opcode_at g a = opc" "opcode_at t a = opc" "ready n t"
  shows "leaves n bs c l t (dispatch BENCH (at t a opc)) \<or> loops n (set seen) bs c l t (dispatch BENCH (at t a opc))"
proof -
  let ?v = "t\<lparr>program_counter := a\<rparr>"
  let ?k = "unat (drop_bit 12 (opc AND 0xf000))"
  have c: "clock_ok t" "clock_ok ?v" "poll_ok ?v" "length (memory ?v) = 4096"
    using assms(4) by (simp_all add: ready_def) (simp add: poll_ok_def bench_now_def)
  note r = refetch_at [OF assms(3)]
  show ?thesis
  proof (cases "opc = 0xe0 \<or> opc = 0xee")
    case True
    have "leaves n bs (CALL_HOST H_retern End_with_void_return) l t (retern BENCH (at t a opc))" if "opc = 0xee"
      using serves_retern [OF c(1), of opc n a] that
      by (auto simp: serves_def leaves_def CALL_HOST_def run_eval split: run.split)
    then show ?thesis using True assms(1) by (auto simp: emit_def dispatch_def assms(2))
  next
    case False
    have *: "leaves n bs (CALL_HOST_OP h a End_with_void_return) l t out" if "serves n h ?v out" for h out
      by (rule serves_leaves [OF that])
    have skip: "leaves n bs (CALL_HOST_OP H_skip_key_x_down a End_with_void_return) l t (skip_key_x BENCH False (at t a opc))"
      "leaves n bs (CALL_HOST_OP H_skip_key_x_up a End_with_void_return) l t (skip_key_x BENCH True (at t a opc))"
      using * [OF serves_skip_key [OF c(2), of n False, unfolded if_False]]
        * [OF serves_skip_key [OF c(2), of n True, unfolded if_True]] by (simp_all add: r)
    have host: "leaves n bs (CALL_HOST_OP H_call a End_with_void_return) l t (call BENCH (at t a opc))"
      "leaves n bs (CALL_HOST_OP H_load_on_key a End_with_void_return) l t (load_on_key BENCH (at t a opc))"
      "leaves n bs (CALL_HOST_OP H_store_bcd a End_with_void_return) l t (store_bcd (at t a opc))"
      "leaves n bs (CALL_HOST_OP H_save_registers a End_with_void_return) l t (save_registers (at t a opc))" if "?k \<noteq> 0"
      using * [OF serves_call [OF c(2), of n]] * [OF serves_load_on_key [OF c(2,3), of n]] * [OF serves_store_bcd [OF c(2), of n]]
        * [OF serves_save [OF c(2,4), of n]] not_fixed(3) [OF that] by (simp_all add: r)
    note rules = skip host leaves_branch [OF c(1), where n = n and bs = bs and opc = opc and l = l and a = a]
      emit_jump_stops [OF _ assms(4), where bs = bs and l = l and a = a]
    have "?k < 16" by (rule high_nibble_less)
    then show ?thesis
      using False assms(1) rules unfolding emit_def dispatch_def assms(2) Let_def
      by (cases rule: less_16_cases)
        (simp_all add: emit_e_def emit_8_def emit_f_def emit_skip_def op_e_def op_f_def Let_def split: if_splits)
  qed
qed

text \<open>A wait for a key ends the trace.\<close>

lemma key_wait_f: "key_wait opc \<Longrightarrow> opc \<noteq> 0x00e0 \<and> opc \<noteq> 0x00ee \<and> opc \<noteq> 0"
  by (auto simp: key_wait_def)

lemma emit_wait:
  assumes "opcode_at g a = opc" "key_wait opc"
  shows "emit BENCH g a cnt lid seen = Stops [] (CALL_HOST_OP H_load_on_key a End_with_void_return)"
  using key_wait_f [OF assms(2)] assms by (simp add: emit_def Let_def key_wait_def emit_f_def)

lemma emit_wait_stops:
  "emit BENCH g a cnt lid seen = Stops marks c \<Longrightarrow> opcode_at g a = opc \<Longrightarrow> opcode_at t a = opc \<Longrightarrow> ready n t \<Longrightarrow>
    key_wait opc \<Longrightarrow> leaves n bs c l t (dispatch BENCH (at t a opc))"
  "emit BENCH g a cnt lid seen = Goes_on marks' lid1 a1 f \<Longrightarrow> opcode_at g a = opc \<Longrightarrow> \<not> key_wait opc"
proof -
  assume e: "emit BENCH g a cnt lid seen = Stops marks c" "opcode_at g a = opc" "opcode_at t a = opc" "ready n t" "key_wait opc"
  have c: "clock_ok (t\<lparr>program_counter := a\<rparr>)" "poll_ok (t\<lparr>program_counter := a\<rparr>)"
    using e(4) by (simp_all add: ready_def) (simp add: poll_ok_def bench_now_def)
  have "dispatch BENCH (at t a opc) = load_on_key BENCH (at t a opc)"
    using key_wait_f [OF e(5)] e(5) by (simp add: dispatch_def Let_def key_wait_def op_f_def)
  moreover have "c = CALL_HOST_OP H_load_on_key a End_with_void_return" using e(1) emit_wait [OF e(2,5)] by simp
  ultimately show "leaves n bs c l t (dispatch BENCH (at t a opc))"
    using serves_leaves [OF serves_load_on_key [OF c, of n]] key_wait_f [OF e(5)] e(5) by (simp add: refetch_at [OF e(3)])
next
  assume "emit BENCH g a cnt lid seen = Goes_on marks' lid1 a1 f" "opcode_at g a = opc"
  then show "\<not> key_wait opc" using emit_wait by fastforce
qed

section \<open>Conditional skips\<close>

lemma dispatch_jump:
  assumes "opc AND 0xf000 = 0x1000"
  shows "dispatch BENCH (at t a opc) = jump BENCH (at t a opc)"
proof -
  have "unat (drop_bit 12 (opc AND 0xf000)) = 1" using high_nibble_eq [of 1 opc] assms by simp
  then show ?thesis using not_fixed [of opc] by (simp add: dispatch_def)
qed

text \<open>The edge of a skip that is not taken, a jump folded in.\<close>

definition fused_code :: "u16 list \<Rightarrow> u16 \<Rightarrow> block" where
  "fused_code seen a = SAFEPOINT BENCH (set_pc a (if a \<in> set seen then CLOSE_BACKEDGE a else End_with_void_return))"

lemma no_idle_wait [simp]: "MAYBE_IDLE_WAIT BENCH g a k = k"
  by (simp add: MAYBE_IDLE_WAIT_def)

lemma fused_edge:
  assumes "ready n t" "fop AND 0xf000 = 0x1000"
  shows "leaves n bs (fused_code seen (imm12 fop)) l t (dispatch BENCH (at t b fop)) \<or>
    loops n (set seen) bs (fused_code seen (imm12 fop)) l t (dispatch BENCH (at t b fop))"
proof -
  have "lands (dispatch BENCH (at t b fop)) t (imm12 fop)"
    using assms(1) by (simp add: dispatch_jump [OF assms(2)] lands_jump ready_def)
  from closes [OF assms(1) this, of "set seen" bs _ l] bounces [OF assms(1) this, of bs l]
  show ?thesis by (simp add: fused_code_def)
qed

lemma lands_skip:
  assumes "clock_ok t"
  shows "lands (skip_when q (at t a opc)) t (if q then a + 4 else a + 2)"
  using assms by (auto simp: lands_def skip_when_def STEP_def opcode_out add.commute)

lemma unat_eq: "unat x = unat y \<longleftrightarrow> x = (y :: u8)"
  by (simp add: word_eq_iff_unsigned [where ?'a = nat])

lemma skip_condition:
  assumes "emit_skip BENCH g a lid seen opc = Goes_on marks lid1 a1 f" "skips opc"
  obtains q no_skip where "dispatch BENCH (at t a opc) = skip_when q (at t a opc)" "a1 = a + 4" "marks = [a + 2]"
    "\<And>bs k l. run_block BENCH bs (f k) l t = run_block BENCH bs (if q then set_pc (a + 4) k else no_skip) l t"
    "no_skip = (let fop = opcode_at g (a + 2) in
       if fop AND 0xf000 = 0x1000
       then RETIRE BENCH 1 (fused_code seen (imm12 fop))
       else set_pc (a + 2) End_with_void_return)"
proof -
  let ?k = "unat (drop_bit 12 (opc AND 0xf000))"
  let ?vx = "regs t ! op_x opc"
  let ?rhs = "if ?k = 3 \<or> ?k = 4 then imm8 opc else regs t ! op_y opc"
  let ?q = "(?vx = ?rhs) = (?k = 3 \<or> ?k = 5)"
  have k: "?k = 3 \<or> ?k = 4 \<or> ?k = 5 \<or> ?k = 9" using assms(2) by (simp add: skips_def)
  then have "?k \<noteq> 0" by auto
  note fixed = not_fixed [OF this]
  show thesis
  proof (rule that [of ?q])
    show "dispatch BENCH (at t a opc) = skip_when ?q (at t a opc)"
      using k fixed by (auto simp: dispatch_def skip_eq_immediate_def skip_neq_immediate_def skip_eq_register_def
          skip_neq_register_def)
    show "a1 = a + 4" "marks = [a + 2]"
      using assms(1) by (simp_all add: emit_skip_def Let_def)
  qed (use assms(1) k in \<open>auto simp: emit_skip_def Let_def run_conditional imm12_def fused_code_def unat_eq\<close>)
qed

end
