(* ===== verification/C8_Jit_Sim.thy ===== *)
theory C8_Jit_Sim
  imports C8_Jit_Step
begin

text \<open>
  A whole trace against the interpreter: executing a trace generated from the memory the machine
  still has ends, and does what the interpreter does in one or more instructions.
\<close>

section \<open>The interpreter, instruction by instruction\<close>

text \<open>
  What one pass of the interpreter's loop does to the machine in the \<^verbatim>\<open>BENCH\<close> build, its stop
  tests left out, and a number of such passes.
\<close>

definition interp_instr :: "'a vm_scheme \<Rightarrow> 'a vm_scheme outcome" where
  "interp_instr s = (let s1 = snd (all_keys_down BENCH s) in basic_block BENCH (s1\<lparr>bench_retired := bench_retired s1 + 1\<rparr>))"

fun interp_run :: "nat \<Rightarrow> 'a vm_scheme \<Rightarrow> 'a vm_scheme outcome" where
  "interp_run 0 s = Done 0 s"
| "interp_run (Suc k) s =
     (case interp_instr s of Done r s1 \<Rightarrow> if r = 0 then interp_run k s1 else Done r s1 | out \<Rightarrow> out)"

lemma interp_pass_instr:
  "interp_pass BENCH e s c =
    (case interp_instr s of
       Hangs \<Rightarrow> Stuck
     | UB \<Rightarrow> Undefined
     | Done r s1 \<Rightarrow> if r \<noteq> 0 then Stop s1 c else if bench_done s1 then Stop s1 (c + 1) else Next s1 (c + 1))"
  using bench_keys_no_quit [of s]
  by (simp add: interp_pass_def interp_instr_def execute_def split_beta Let_def split: outcome.split)

lemma interp_run_one: "interp_run 1 s = interp_instr s"
  by (simp split: outcome.split)

lemma agree_keys_snd:
  assumes "agree s t"
  shows "agree (snd (bench_keys_now s)) t"
proof -
  have "agree s s" "clock_ok s" using assms by (simp_all add: agree_def)
  then have "agree (s\<lparr>bench_cleared := cleared_view s, bench_cleared_tick := int (key_tick s)\<rparr>) s"
    by (simp add: agree_defs)
  from agree_trans [OF this assms] show ?thesis by (simp add: keys_now_eq)
qed

lemma pc_retired:
  "t\<lparr>program_counter := a, bench_retired := i\<rparr> = t\<lparr>bench_retired := i, program_counter := a\<rparr>"
  "t\<lparr>program_counter := a, bench_retired := i, opcode := v\<rparr> = (t :: 'a vm_scheme)\<lparr>bench_retired := i, program_counter := a, opcode := v\<rparr>"
  by simp_all

lemma instr_agree:
  assumes "agree s (t\<lparr>program_counter := a\<rparr>)" "bench_now t + 2 < CLOCK_LIMIT" "bench_clock_cap t < CLOCK_LIMIT"
  shows "rel_outcome agree (interp_instr s) (dispatch BENCH (at (t\<lparr>bench_retired := bench_retired t + 1\<rparr>) a (opcode_at t a)))"
proof -
  let ?s = "snd (bench_keys_now s)" and ?t = "t\<lparr>program_counter := a\<rparr>"
  have a: "agree ?s ?t" by (rule agree_keys_snd [OF assms(1)])
  have now: "bench_now ?s = bench_now t" "bench_clock_cap ?s = bench_clock_cap t"
    using agree_fields(1) [OF a] a by (simp_all add: bench_now_def agree_def)
  have f: "agree (forward 1 0 ?s) (forward 1 0 ?t)"
    by (rule agree_forward [OF a]) (use now assms(2) in simp)
  have p: "poll_ok (forward 1 0 ?s)"
    using now assms(2,3) by (simp add: poll_ok_def) (simp add: forward_def)
  have "rel_outcome agree (basic_block BENCH (forward 1 0 ?s)) (basic_block BENCH (forward 1 0 ?t))"
    using ag.rel_basic_block [OF f] p by blast
  moreover have "basic_block BENCH (forward 1 0 ?t) =
      dispatch BENCH (at (t\<lparr>bench_retired := bench_retired t + 1\<rparr>) a (opcode_at t a))"
    by (simp add: basic_block_def forward_def opcode_at_def mem_at_def pc_retired)
  ultimately show ?thesis by (simp add: interp_instr_def Let_def forward_def)
qed

section \<open>The shape of generated code\<close>

lemma gen_entry:
  assumes "gen b g a cnt lid seen = (m, opc, Generated c bs)"
  obtains "a \<in> set seen" "c = fall_back b g a" "bs = []" "m = [a]"
  | marks k where "a \<notin> set seen" "c = End_with_jump a" "emit b g a cnt lid (a # seen) = Stops marks k"
      "bs = [(a, block_head b cnt k)]" "m = a # marks"
  | marks lid1 a1 f m1 opc1 c1 bs1 where "a \<notin> set seen" "c = End_with_jump a"
      "emit b g a cnt lid (a # seen) = Goes_on marks lid1 a1 f"
      "gen b g a1 (cnt + 1) lid1 (a # seen) = (m1, opc1, Generated c1 bs1)"
      "bs = (a, block_head b cnt (f c1)) # bs1" "m = a # marks @ m1"
proof (cases "a \<in> set seen \<or> unat a \<ge> MEMORY_SIZE")
  case True
  then show ?thesis using assms that(1) by (subst (asm) gen.simps) (auto simp: Let_def split: if_splits)
next
  case False
  then have un: "gen b g a cnt lid seen =
      (case emit b g a cnt lid (a # seen) of
         Bail_errer \<Rightarrow> ([a], opcode_at g a, Failed)
       | Stops marks k \<Rightarrow> (a # marks, opcode_at g a, Generated (End_with_jump a) [(a, block_head b cnt k)])
       | Goes_on marks lid1 pc1 f \<Rightarrow>
           (let (marks1, opc1, g1) = gen b g pc1 (cnt + 1) lid1 (a # seen)
            in (a # marks @ marks1, opc1, add_block a (\<lambda>k. block_head b cnt (f k)) g1)))"
    by (subst gen.simps) (simp add: Let_def)
  show ?thesis
  proof (cases "emit b g a cnt lid (a # seen)")
    case Bail_errer
    then show ?thesis using assms by (simp add: un)
  next
    case (Stops marks k)
    then show ?thesis using assms False that(2) by (simp add: un)
  next
    case (Goes_on marks lid1 a1 f)
    obtain m1 opc1 g1 where r: "gen b g a1 (cnt + 1) lid1 (a # seen) = (m1, opc1, g1)" by (metis prod_cases3)
    then show ?thesis using assms False that(3) Goes_on by (cases g1) (simp_all add: un)
  qed
qed

lemma gen_distinct:
  "gen b g a cnt lid seen = (m, opc, Generated c bs) \<Longrightarrow> distinct (map fst bs) \<and> fst ` set bs \<inter> set seen = {}"
proof (induction bs arbitrary: a cnt lid seen m opc c)
  case (Cons p bs)
  from Cons.prems show ?case
  proof (cases rule: gen_entry)
    case (3 marks lid1 a1 f m1 opc1 c1 bs1)
    then have "distinct (map fst bs) \<and> fst ` set bs \<inter> set (a # seen) = {}"
      using Cons.IH [of a1 "cnt + 1" lid1 "a # seen" m1 opc1 c1] by simp
    then show ?thesis using 3 by (auto simp: image_iff)
  qed auto
qed simp

text \<open>Every block is the first of a generation of its own, from there on.\<close>

lemma gen_suffix:
  assumes "gen b g a cnt lid seen = (m, opc, Generated c bs)" "x \<in> fst ` set bs"
  obtains cnt' lid' seen' m' opc' bs' where "gen b g x cnt' lid' seen' = (m', opc', Generated (End_with_jump x) bs')"
    "set bs' \<subseteq> set bs" "set m' \<subseteq> set m" "set seen' \<subseteq> set seen \<union> fst ` set bs" "length bs' \<le> length bs"
  using assms
proof (induction bs arbitrary: a cnt lid seen m opc c thesis)
  case (Cons p bs)
  note goal = Cons.prems(1)
  show ?case
  proof (cases "x = a")
    case True
    from Cons.prems(2) have "c = End_with_jump a" by (cases rule: gen_entry) auto
    then show ?thesis using Cons.prems(2) True by (intro goal [of cnt lid seen m opc "p # bs"]) auto
  next
    case False
    from Cons.prems(2) show ?thesis
    proof (cases rule: gen_entry)
      case (3 marks lid1 a1 f m1 opc1 c1 bs1)
      then have x: "x \<in> fst ` set bs" using Cons.prems(3) False by auto
      from 3 have g: "gen b g a1 (cnt + 1) lid1 (a # seen) = (m1, opc1, Generated c1 bs)" by simp
      show ?thesis
      proof (rule Cons.IH [OF _ g x])
        fix cnt' lid' seen' m' opc' bs'
        assume "gen b g x cnt' lid' seen' = (m', opc', Generated (End_with_jump x) bs')" "set bs' \<subseteq> set bs"
          "set m' \<subseteq> set m1" "set seen' \<subseteq> set (a # seen) \<union> fst ` set bs" "length bs' \<le> length bs"
        then show thesis using 3 by (intro goal [of cnt' lid' seen' m' opc' bs']) auto
      qed
    qed (use Cons.prems(3) False in auto)
  qed
qed simp

lemma gen_addresses:
  "gen b g a cnt lid seen = (m, opc, Generated c bs) \<Longrightarrow> fst ` set bs \<subseteq> {x. unat x < MEMORY_SIZE}"
proof (induction bs arbitrary: a cnt lid seen m opc c)
  case (Cons p bs)
  have "unat a < MEMORY_SIZE"
    using Cons.prems by (rule_tac ccontr) (subst (asm) gen.simps, simp add: Let_def)
  from Cons.prems this show ?case
    by (cases rule: gen_entry) (use Cons.IH in fastforce)+
qed simp

lemma gen_length:
  assumes "gen b g a cnt lid seen = (m, opc, Generated c bs)"
  shows "length bs \<le> MEMORY_SIZE"
proof -
  have "length bs = card (fst ` set bs)"
    using gen_distinct [OF assms] by (metis distinct_card length_map set_map)
  also have "\<dots> = card (unat ` fst ` set bs)" by (rule card_image [symmetric]) (simp add: inj_on_def word_eq_iff_unsigned [where ?'a = nat])
  also have "\<dots> \<le> card {..<MEMORY_SIZE}" using gen_addresses [OF assms] by (intro card_mono) auto
  finally show ?thesis by simp
qed

section \<open>Running\<close>

lemma lands_Done: "lands out w a \<Longrightarrow> \<exists>u. out = Done 0 u \<and> agree u (w\<lparr>program_counter := a\<rparr>)"
  by (simp add: lands_def)

text \<open>None of the next instructions waits for a key.\<close>

definition unwaiting :: "nat \<Rightarrow> 'a vm_scheme \<Rightarrow> bool" where
  "unwaiting k s \<longleftrightarrow> (\<forall>i<k. \<forall>s1. interp_run i s = Done 0 s1 \<longrightarrow> \<not> waits s1)"

lemma unwaiting_Suc:
  assumes "interp_instr s = Done 0 u" "\<not> waits s" "unwaiting k u"
  shows "unwaiting (Suc k) s"
  unfolding unwaiting_def
proof (intro allI impI)
  fix i s1 assume "i < Suc k" "interp_run i s = Done 0 s1"
  then show "\<not> waits s1" using assms by (cases i) (auto simp: unwaiting_def)
qed

text \<open>
  \<open>sound n bs c l t s\<close>: the code \<open>c\<close> ends when run from \<open>t\<close>, with what the interpreter reaches from
  \<open>s\<close> in one or more instructions, of which only the last may wait for a key.
\<close>

definition sound :: "nat \<Rightarrow> (u16 \<times> block) list \<Rightarrow> block \<Rightarrow> (nat \<Rightarrow> u8) \<Rightarrow> 'c jit_scheme \<Rightarrow> 'a vm_scheme \<Rightarrow> bool" where
  "sound n bs c l t s \<longleftrightarrow>
     (\<exists>k p. run_block BENCH bs c l t = Some p \<and> matches (interp_run (Suc k) s) p \<and> unwaiting k s \<and>
        (\<forall>w. p = Returns w \<longrightarrow> kept n t w \<and> bench_retired w \<le> n + length bs + 1))"

lemma leaves_sound:
  assumes "leaves n bs c l t o2" "rel_outcome agree (interp_instr s) o2" "bench_retired t \<le> n + length bs + 1"
  shows "sound n bs c l t s"
proof -
  obtain p where p: "run_block BENCH bs c l t = Some p" "matches (interp_instr s) p" "\<forall>w. p = Returns w \<longrightarrow> stays n t w"
    using assms(1,2) unfolding leaves_def using rel_outcome_matches by blast
  with assms(3) show ?thesis
    unfolding sound_def stays_def by (intro exI [of _ 0] exI [of _ p]) (auto simp: unwaiting_def interp_run_one [unfolded One_nat_def] simp del: interp_run.simps)
qed

lemma sound_step:
  assumes "run_block BENCH bs c l t = run_block BENCH bs c' l' t'" "kept n t t'" "sound n bs c' l' t' u"
    "interp_instr s = Done 0 u" "\<not> waits s"
  shows "sound n bs c l t s"
proof -
  obtain k p where "run_block BENCH bs c' l' t' = Some p" "matches (interp_run (Suc k) u) p" "unwaiting k u"
    "\<forall>w. p = Returns w \<longrightarrow> kept n t' w \<and> bench_retired w \<le> n + length bs + 1" using assms(3) by (auto simp: sound_def)
  then show ?thesis
    unfolding sound_def using assms(1,2) kept_trans [of n t t']
    by (intro exI [of _ "Suc k"] exI [of _ p]) (auto simp: assms(4) interp_run.simps(2) [of "Suc k"] unwaiting_Suc [OF assms(4,5)] simp del: interp_run.simps)
qed

lemma sound_same:
  assumes "run_block BENCH bs c l t = run_block BENCH bs c' l' t'" "kept n t t'" "sound n bs c' l' t' s"
  shows "sound n bs c l t s"
  using assms kept_trans [of n t t'] unfolding sound_def by metis

text \<open>
  What a trace needs of the state it runs in: the words it was generated from (at \<open>ms\<close>, in state
  \<open>g\<close>) are still there, and \<open>d\<close> more ticks of the clock fit.
\<close>

definition runs_in :: "nat \<Rightarrow> nat \<Rightarrow> u16 list \<Rightarrow> 'd jit_scheme \<Rightarrow> 'c jit_scheme \<Rightarrow> bool" where
  "runs_in n d ms g t \<longleftrightarrow> (\<forall>x\<in>set ms. opcode_at t x = opcode_at g x) \<and> length (memory t) = 4096 \<and> due n t \<and>
     bench_budget t + BENCH_SAFEPOINT_INTERVAL \<le> n \<and> bench_clock_cap t < CLOCK_LIMIT \<and>
     bench_poll_clock t + n + d < CLOCK_LIMIT"

lemma runs_in_calm: "runs_in n d ms g t \<Longrightarrow> calm n t u \<Longrightarrow> runs_in n d ms g u"
  by (simp add: runs_in_def calm_def kept_def opcode_at_frame [of u t])

lemma runs_in_retire [simp]: "runs_in n d ms g (t\<lparr>bench_retired := i\<rparr>) = runs_in n d ms g t"
  by (simp add: runs_in_def due_def opcode_at_frame [of "t\<lparr>bench_retired := i\<rparr>" t])

lemma kept_retire: "kept n t u \<Longrightarrow> bench_retired u \<le> i \<Longrightarrow> kept n t (u\<lparr>bench_retired := i\<rparr>)"
  by (simp add: kept_def due_def bench_done_def bench_now_def) auto

lemma runs_in_ready:
  assumes "runs_in n d ms g t" "clock_ok t" "bench_retired t + 2 \<le> n + d"
  shows "ready n t"
  using assms by (simp add: runs_in_def ready_def poll_ok_def bench_now_def)

lemma runs_in_now:
  assumes "runs_in n d ms g t" "bench_retired t + 2 \<le> n + d"
  shows "bench_now t + 2 < CLOCK_LIMIT" "bench_clock_cap t < CLOCK_LIMIT"
  using assms by (simp_all add: runs_in_def bench_now_def)

lemma clock_ok_retire:
  assumes "clock_ok t" "bench_now t + 1 < CLOCK_LIMIT"
  shows "clock_ok (t\<lparr>bench_retired := bench_retired t + 1\<rparr> :: 'a vm_scheme)"
  using agree_forward [of t t 1 0] assms by (simp add: forward_def)

lemma emit_skips:
  assumes "emit b g a cnt lid seen = e" "skips (opcode_at g a)"
  shows "e = emit_skip b g a lid seen (opcode_at g a)"
proof -
  have "unat (drop_bit 12 (opcode_at g a AND 0xf000)) \<noteq> 0" using assms(2) by (auto simp: skips_def)
  from not_fixed [OF this] assms show ?thesis by (auto simp: emit_def Let_def skips_def)
qed

lemma gen_first:
  assumes "gen b g a cnt lid seen = (m, opc, Generated (End_with_jump a) bs)"
  shows "a \<in> fst ` set bs"
  using assms by (cases rule: gen_entry) (simp_all add: fall_back_def SAFEPOINT_def split: if_splits)

lemma run_head:
  assumes "gen BENCH g a0 0 0 [] = (m0, o0, Generated c0 bs0)" "(a, block_head BENCH cnt B) \<in> set bs" "set bs \<subseteq> set bs0"
    "t1 = (let sp = if cnt \<noteq> 0 \<and> cnt mod SAFEPOINT_INTERVAL = 0 then safepoint t else t
           in sp\<lparr>bench_retired := bench_retired sp + 1\<rparr>)"
  shows "run_block BENCH bs0 (End_with_jump a) l t = run_block BENCH bs0 B l t1"
proof -
  have "map_of bs0 a = Some (block_head BENCH cnt B)"
    using gen_distinct [OF assms(1)] assms(2,3) by (intro map_of_is_SomeI) auto
  then show ?thesis by (simp add: run_jump block_head_def assms(4) Let_def)
qed

text \<open>The state behind the head of a block, and the interpreter's instruction there.\<close>

lemma block_start:
  fixes cnt :: nat
  assumes "runs_in n d ms g t" "agree s (t\<lparr>program_counter := a\<rparr>)" "bench_retired t + 3 \<le> n + d" "a \<in> set ms"
  defines "sp \<equiv> if cnt \<noteq> 0 \<and> cnt mod SAFEPOINT_INTERVAL = 0 then safepoint t else t"
  defines "t1 \<equiv> sp\<lparr>bench_retired := bench_retired sp + 1\<rparr>"
  shows "kept n t t1" "runs_in n d ms g t1" "bench_retired t1 = bench_retired t + 1" "clock_ok t1"
    "rel_outcome agree (interp_instr s) (dispatch BENCH (at t1 a (opcode_at g a)))"
proof -
  have calm_sp: "calm n t sp" using assms(1) by (simp add: sp_def runs_in_def safepoint_spec(1))
  have ag_sp: "agree s (sp\<lparr>program_counter := a\<rparr>)" using assms(2) by (simp add: sp_def agree_safepoint_pc)
  have runs_sp: "runs_in n d ms g sp" by (rule runs_in_calm [OF assms(1) calm_sp])
  have r: "bench_retired sp = bench_retired t" using calm_sp by (simp add: calm_def)
  show "kept n t t1" "runs_in n d ms g t1" "bench_retired t1 = bench_retired t + 1"
    using calm_sp runs_sp r by (simp_all add: t1_def calm_kept kept_retire)
  have now: "bench_now sp + 2 < CLOCK_LIMIT" "bench_clock_cap sp < CLOCK_LIMIT"
    using runs_in_now [OF runs_sp] r assms(3) by simp_all
  have "clock_ok sp" using ag_sp by (simp add: agree_def)
  then show "clock_ok t1" using clock_ok_retire [of sp] now(1) by (simp add: t1_def)
  have "opcode_at sp a = opcode_at g a" using runs_sp assms(4) by (simp add: runs_in_def)
  then show "rel_outcome agree (interp_instr s) (dispatch BENCH (at t1 a (opcode_at g a)))"
    using instr_agree [OF ag_sp now] by (simp add: t1_def)
qed

text \<open>Looping back is sound if the code is from there on.\<close>

lemma sound_ways:
  fixes t :: "'c jit_scheme" and s :: "'a vm_scheme"
  assumes "leaves n bs c l t o2 \<or> loops n S bs c l t o2 \<and> \<not> waits s" "rel_outcome agree (interp_instr s) o2"
    "runs_in n d ms g t" "bench_retired t \<le> n + length bs + 1"
    and later: "\<And>x l' t' u. x \<in> S \<Longrightarrow> runs_in n d ms g (t' :: 'c jit_scheme) \<Longrightarrow> agree (u :: 'a vm_scheme) (t'\<lparr>program_counter := x\<rparr>) \<Longrightarrow>
      bench_retired t' = bench_retired t \<Longrightarrow> bench_retired t' \<le> n \<Longrightarrow> sound n bs (End_with_jump x) l' t' u"
  shows "sound n bs c l t s"
  using assms(1)
proof
  assume "leaves n bs c l t o2"
  then show ?thesis by (rule leaves_sound [OF _ assms(2,4)])
next
  assume a: "loops n S bs c l t o2 \<and> \<not> waits s"
  then obtain x l2 t2 where x: "x \<in> S" "run_block BENCH bs c l t = run_block BENCH bs (End_with_jump x) l2 t2"
    "calm n t t2" "lands o2 t2 x" "bench_retired t < n" unfolding loops_def by blast
  obtain u where u: "interp_instr s = Done 0 u" "agree u (t2\<lparr>program_counter := x\<rparr>)"
    using lands_Done [OF lands_rel [OF assms(2) x(4)]] by blast
  have "bench_retired t2 = bench_retired t" using x(3) by (simp add: calm_def)
  then have "sound n bs (End_with_jump x) l2 t2 u"
    using x(5) by (intro later [OF x(1) runs_in_calm [OF assms(3) x(3)] u(2)]) simp_all
  then show ?thesis by (rule sound_step [OF x(2) calm_kept [OF x(3)] _ u(1) a [THEN conjunct2]])
qed

text \<open>Flowing on is sound if what follows is, and what follows is the next block or a way back.\<close>

lemma sound_flows:
  fixes t :: "'c jit_scheme" and s :: "'a vm_scheme"
  assumes "flows n f t o2 a" "rel_outcome agree (interp_instr s) o2" "\<not> waits s" "runs_in n d ms g t" "bench_retired t + 2 \<le> n + d"
    "c = End_with_jump a \<or> a \<in> S \<and> c = fall_back BENCH g a" "bench_retired t \<le> n + length bs + 1"
    and on: "\<And>l' t' u. c = End_with_jump a \<Longrightarrow> runs_in n d ms g (t' :: 'c jit_scheme) \<Longrightarrow> agree (u :: 'a vm_scheme) (t'\<lparr>program_counter := a\<rparr>) \<Longrightarrow>
      bench_retired t' = bench_retired t \<Longrightarrow> sound n bs (End_with_jump a) l' t' u"
    and again: "\<And>x l' t' u. x \<in> S \<Longrightarrow> runs_in n d ms g (t' :: 'c jit_scheme) \<Longrightarrow> agree (u :: 'a vm_scheme) (t'\<lparr>program_counter := x\<rparr>) \<Longrightarrow>
      bench_retired t' = bench_retired t \<Longrightarrow> bench_retired t' \<le> n \<Longrightarrow> sound n bs (End_with_jump x) l' t' u"
  shows "sound n bs (f c) l t s"
proof -
  obtain t' l' where t': "calm n t t'" "lands o2 t' a" "run_block BENCH bs (f c) l t = run_block BENCH bs c l' t'"
    using assms(1) unfolding flows_def by blast
  have runs': "runs_in n d ms g t'" by (rule runs_in_calm [OF assms(4) t'(1)])
  have r': "bench_retired t' = bench_retired t" using t'(1) by (simp add: calm_def)
  obtain u where u: "interp_instr s = Done 0 u" "agree u (t'\<lparr>program_counter := a\<rparr>)"
    using lands_Done [OF lands_rel [OF assms(2) t'(2)]] by blast
  have "sound n bs c l' t' s"
    using assms(6)
  proof
    assume "c = End_with_jump a"
    then show ?thesis using on [OF _ runs' u(2) r'] by (intro sound_step [OF _ _ _ u(1) assms(3)]) auto
  next
    assume c: "a \<in> S \<and> c = fall_back BENCH g a"
    have "clock_ok t'" using u(2) by (simp add: agree_def)
    then have "ready n t'" by (rule runs_in_ready [OF runs']) (use assms(5) r' in simp)
    from closes [OF this t'(2), of S bs g l'] c
    have "leaves n bs c l' t' o2 \<or> loops n S bs c l' t' o2 \<and> \<not> waits s"
      using assms(3) by (simp add: fall_back_def del: run_safepoint)
    then show ?thesis by (rule sound_ways [OF _ assms(2) runs']) (use assms(7) in \<open>simp_all add: again r'\<close>)
  qed
  then show ?thesis by (rule sound_same [OF t'(3) calm_kept [OF t'(1)]])
qed

text \<open>A skip flows on, or bounces to the dispatcher, or takes the jump folded into it.\<close>

lemma sound_skip:
  fixes t :: "'c jit_scheme" and s :: "'a vm_scheme"
  assumes "emit_skip BENCH g a lid seen opc = Goes_on marks lid1 a1 f" "skips opc" "set marks \<subseteq> set ms"
    "rel_outcome agree (interp_instr s) (dispatch BENCH (at t a opc))" "\<not> waits s" "runs_in n d ms g t" "clock_ok t" "bench_retired t + 3 \<le> n + d"
    "bench_retired t \<le> n + length bs"
    and onward: "flows n f t (dispatch BENCH (at t a opc)) a1 \<Longrightarrow> sound n bs (f c) l t s"
    and again: "\<And>x l' t' u. x \<in> set seen \<Longrightarrow> runs_in n d ms g (t' :: 'c jit_scheme) \<Longrightarrow> agree (u :: 'a vm_scheme) (t'\<lparr>program_counter := x\<rparr>) \<Longrightarrow>
      bench_retired t' = bench_retired t + 1 \<Longrightarrow> bench_retired t' \<le> n \<Longrightarrow> sound n bs (End_with_jump x) l' t' u"
  shows "sound n bs (f c) l t s"
proof -
  let ?fop = "opcode_at g (a + 2)"
  obtain q no_skip where q: "dispatch BENCH (at t a opc) = skip_when q (at t a opc)" "a1 = a + 4" "marks = [a + 2]"
    "\<And>bs k l. run_block BENCH bs (f k) l t = run_block BENCH bs (if q then set_pc (a + 4) k else no_skip) l t"
    "no_skip = (let fop = ?fop in if fop AND 0xf000 = 0x1000 then RETIRE BENCH 1 (fused_code seen (imm12 fop))
       else set_pc (a + 2) End_with_void_return)"
    by (rule skip_condition [OF assms(1,2), of t]) blast
  have lands: "lands (dispatch BENCH (at t a opc)) t (if q then a + 4 else a + 2)"
    unfolding q(1) by (rule lands_skip [OF assms(7)])
  show ?thesis
  proof (cases "q \<or> ?fop AND 0xf000 \<noteq> 0x1000")
    case True
    show ?thesis
    proof (cases q)
      case True
      then show ?thesis using lands
        by (intro onward flows_plain [where t' = "t\<lparr>program_counter := a + 4\<rparr>"]) (simp_all add: q(2,4))
    next
      case False
      then have "matches (dispatch BENCH (at t a opc)) (Returns (t\<lparr>program_counter := a + 2\<rparr>))"
        using lands by (intro lands_matches [of _ _ "a + 2"]) simp_all
      then have "leaves n bs (f c) l t (dispatch BENCH (at t a opc))"
        using \<open>q \<or> _\<close> False by (simp add: leaves_def q(4,5))
      then show ?thesis by (rule leaves_sound [OF _ assms(4)]) (use assms(9) in simp)
    qed
  next
    case False
    let ?t = "t\<lparr>bench_retired := bench_retired t + 1\<rparr>"
    have run: "run_block BENCH bs (f c) l t = run_block BENCH bs (fused_code seen (imm12 ?fop)) l ?t"
      using False by (simp add: q(4,5))
    have fop: "opcode_at t (a + 2) = ?fop" using assms(3,6) q(3) by (simp add: runs_in_def)
    obtain u where u: "interp_instr s = Done 0 u" "agree u (t\<lparr>program_counter := a + 2\<rparr>)"
      using lands_Done [OF lands_rel [OF assms(4) lands]] False by auto
    have now: "bench_now t + 2 < CLOCK_LIMIT" "bench_clock_cap t < CLOCK_LIMIT"
      using runs_in_now [OF assms(6)] assms(8) by simp_all
    have clock: "clock_ok ?t" using clock_ok_retire [OF assms(7)] now(1) by simp
    have runs: "runs_in n d ms g ?t" using assms(6) by simp
    have "ready n ?t" by (rule runs_in_ready [OF runs clock]) (use assms(8) in simp)
    moreover have "rel_outcome agree (interp_instr u) (dispatch BENCH (at ?t (a + 2) ?fop))"
      using instr_agree [OF u(2) now] by (simp add: fop)
    moreover have "opcode_at u (program_counter u) = ?fop"
      using u(2) fop by (simp add: agree_def opcode_at_def mem_at_def)
    then have "\<not> waits u" using False high_nibble_eq [of 15 ?fop] by (auto simp: waits_def key_wait_def)
    ultimately have "sound n bs (fused_code seen (imm12 ?fop)) l ?t u"
      using False fused_edge [where n = n and t = ?t and fop = ?fop and b = "a + 2" and bs = bs and seen = seen and l = l] by (intro sound_ways [OF _ _ runs]) (use assms(9) in \<open>auto intro: again\<close>)
    then show ?thesis by (rule sound_step [OF run _ _ u(1) assms(5), rotated]) (simp add: kept_retire)
  qed
qed

text \<open>
  The block of any address of a trace: by induction on the instructions that can still retire,
  since the trace loops back only before the bound \<open>n\<close> and each block retires at least one.
\<close>

lemma sound_block:
  fixes t :: "'c jit_scheme" and s :: "'a vm_scheme"
  assumes T: "gen BENCH g a0 0 0 [] = (ms, o0, Generated c0 bs0)" and d: "d = length bs0 + 4"
  shows "gen BENCH g a cnt lid seen = (m, opc, Generated (End_with_jump a) bs) \<Longrightarrow> set bs \<subseteq> set bs0 \<Longrightarrow>
    set m \<subseteq> set ms \<Longrightarrow> set seen \<subseteq> fst ` set bs0 \<Longrightarrow> runs_in n d ms g t \<Longrightarrow> agree s (t\<lparr>program_counter := a\<rparr>) \<Longrightarrow>
    bench_retired t + length bs \<le> n + length bs0 \<Longrightarrow> sound n bs0 (End_with_jump a) l t s"
proof (induction "n + length bs0 - bench_retired t" arbitrary: a cnt lid seen m opc bs t s l rule: less_induct)
  case less
  note gen = less.prems(1) and sub = less.prems(2-4) and runs = less.prems(5)
  have ne: "bs \<noteq> []" "a \<in> set m" "a \<in> fst ` set bs0"
    using gen_first [OF gen] gen sub(1) by (auto elim: gen_entry)
  then have len: "bench_retired t + 1 \<le> n + length bs0" using less.prems(7) by (cases bs) simp_all
  define t1 where "t1 = (let sp = if cnt \<noteq> 0 \<and> cnt mod SAFEPOINT_INTERVAL = 0 then safepoint t else t
    in sp\<lparr>bench_retired := bench_retired sp + 1\<rparr>)"
  note start = block_start [OF runs less.prems(6), of cnt, folded t1_def [unfolded Let_def]]
  have st: "kept n t t1" "runs_in n d ms g t1" "bench_retired t1 = bench_retired t + 1" "clock_ok t1"
    "rel_outcome agree (interp_instr s) (dispatch BENCH (at t1 a (opcode_at g a)))"
    using start ne(2) sub(2) len d by (auto simp: t1_def Let_def)
  have opc: "opcode_at t1 a = opcode_at g a" using st(2) ne(2) sub(2) by (auto simp: runs_in_def)
  have w: "waits s \<longleftrightarrow> key_wait (opcode_at g a)"
    using less.prems(6) runs ne(2) sub(2) by (auto simp: waits_def agree_def runs_in_def opcode_at_def mem_at_def)
  have again: "sound n bs0 (End_with_jump x) l' t' u"
    if "x \<in> set (a # seen)" "runs_in n d ms g (t' :: 'c jit_scheme)" "agree u (t'\<lparr>program_counter := x\<rparr>)" "bench_retired t < bench_retired t'"
      "bench_retired t' \<le> n" for x l' t' and u :: "'a vm_scheme"
  proof -
    have "x \<in> fst ` set bs0" using that(1) sub(3) ne(3) by auto
    then obtain cnt' lid' seen' m' opc' bs' where
      "gen BENCH g x cnt' lid' seen' = (m', opc', Generated (End_with_jump x) bs')" "set bs' \<subseteq> set bs0"
      "set m' \<subseteq> set ms" "set seen' \<subseteq> fst ` set bs0" "length bs' \<le> length bs0"
      by (rule gen_suffix [OF T]) auto
    then show ?thesis
      using that len by (intro less.hyps [where t = t' and s = u]) auto
  qed
  from gen show ?case
  proof (cases rule: gen_entry)
    case 1
    then show ?thesis by (simp add: fall_back_def SAFEPOINT_def)
  next
    case (2 marks c)
    have run: "run_block BENCH bs0 (End_with_jump a) l t = run_block BENCH bs0 c l t1"
      by (rule run_head [OF T _ sub(1) t1_def]) (simp add: 2)
    have "ready n t1" by (rule runs_in_ready [OF st(2,4)]) (use len d st(3) in simp)
    from emit_stops [OF 2(3) refl opc this] emit_wait_stops(1) [OF 2(3) refl opc this] w
    have "leaves n bs0 c l t1 (dispatch BENCH (at t1 a (opcode_at g a))) \<or>
        loops n (set (a # seen)) bs0 c l t1 (dispatch BENCH (at t1 a (opcode_at g a))) \<and> \<not> waits s" by blast
    then have "sound n bs0 c l t1 s"
      by (rule sound_ways [OF _ st(5,2)]) (use len st(3) in \<open>auto intro: again\<close>)
    then show ?thesis by (rule sound_same [OF run st(1)])
  next
    case (3 marks lid1 a1 f m1 opc1 c1 bs1)
    have run: "run_block BENCH bs0 (End_with_jump a) l t = run_block BENCH bs0 (f c1) l t1"
      by (rule run_head [OF T _ sub(1) t1_def]) (simp add: 3)
    have c1: "c1 = End_with_jump a1 \<or> a1 \<in> set (a # seen) \<and> c1 = fall_back BENCH g a1"
      using 3(4) by (auto elim: gen_entry)
    have now: "\<not> waits s" unfolding w using emit_wait_stops(2) [OF 3(3) refl] by blast
    have onward: "sound n bs0 (f c1) l t1 s"
      if "flows n f t1 (dispatch BENCH (at t1 a (opcode_at g a))) a1"
    proof (rule sound_flows [OF that st(5) now st(2) _ c1 _])
      fix l' t' u
      assume "c1 = End_with_jump a1" "runs_in n d ms g t'" "agree (u :: 'a vm_scheme) (t'\<lparr>program_counter := a1\<rparr>)"
        "bench_retired (t' :: 'c jit_scheme) = bench_retired t1"
      then show "sound n bs0 (End_with_jump a1) l' t' u"
        using 3(4-6) sub ne(3) less.prems(7) st(3) len
        by (intro less.hyps [where t = t' and s = u and bs = bs1 and m = m1 and seen = "a # seen" and cnt = "cnt + 1"]) auto
    qed (use len d st(3) again in auto)
    have "sound n bs0 (f c1) l t1 s"
    proof (cases "skips (opcode_at g a)")
      case False
      have "ready n t1" by (rule runs_in_ready [OF st(2,4)]) (use len d st(3) in simp)
      from onward [OF emit_flows [OF 3(3) refl opc this False]] show ?thesis .
    next
      case True
      show ?thesis
        by (rule sound_skip [where f = f and c = c1 and seen = "a # seen", OF emit_skips [OF 3(3) True, symmetric] True _ st(5) now st(2,4)])
          (use 3(6) sub(2) len d st(3) in \<open>auto intro: onward again\<close>)
    qed
    then show ?thesis by (rule sound_same [OF run st(1)])
  qed
qed

end
