(* ===== verification/C8_Jit_Main.thy ===== *)
theory C8_Jit_Main
  imports C8_Jit_Sim
begin

text \<open>
  The dispatch loop of the JIT against the interpreter, in the \<^verbatim>\<open>BENCH\<close> build: every cached
  trace is the one the code generator would make of the present memory, a pass over a cached trace
  is a number of interpreter instructions, and the loop ends.
\<close>

section \<open>What code generation depends on\<close>

lemma emit_marks: "emit_skip b g a lid seen opc = Goes_on marks lid1 a1 f \<Longrightarrow> marks = [a + 2]"
  by (simp add: emit_skip_def Let_def)

lemma emit_cong:
  assumes "opcode_at h a = opcode_at g a"
    "\<And>marks lid1 a1 f. emit BENCH g a cnt lid seen = Goes_on marks lid1 a1 f \<Longrightarrow> \<forall>x\<in>set marks. opcode_at h x = opcode_at g x"
  shows "emit BENCH h a cnt lid seen = emit BENCH g a cnt lid seen"
proof -
  have jump: "emit_jump BENCH h cnt lid seen opc = emit_jump BENCH g cnt lid seen opc" for opc
    by (simp add: emit_jump_def Let_def)
  have "emit_skip BENCH h a lid seen (opcode_at g a) = emit_skip BENCH g a lid seen (opcode_at g a)" if "skips (opcode_at g a)"
  proof -
    obtain marks lid1 a1 f where e: "emit_skip BENCH g a lid seen (opcode_at g a) = Goes_on marks lid1 a1 f"
      by (simp add: emit_skip_def Let_def)
    moreover have "emit BENCH g a cnt lid seen = emit_skip BENCH g a lid seen (opcode_at g a)"
      by (rule emit_skips [OF refl that])
    ultimately have "opcode_at h (a + 2) = opcode_at g (a + 2)" using assms(2) emit_marks [OF e] by simp
    then show ?thesis by (simp add: emit_skip_def Let_def)
  qed
  then show ?thesis using assms(1) jump by (simp add: emit_def Let_def skips_def)
qed

lemma gen_marks: "gen b g a cnt lid seen = (ms, opc, r) \<Longrightarrow> a \<in> set ms"
  by (subst (asm) gen.simps) (auto simp: Let_def split: if_splits emitted.splits prod.splits)

lemma gen_cong:
  "gen b g a cnt lid seen = (ms, opc, r) \<Longrightarrow> b = BENCH \<Longrightarrow> \<forall>x\<in>set ms. opcode_at h x = opcode_at g x \<Longrightarrow>
   gen BENCH h a cnt lid seen = (ms, opc, r)"
proof (induction b g a cnt lid seen arbitrary: ms opc r rule: gen.induct)
  case (1 b g a cnt lid seen)
  note b [simp] = 1(3) and same = 1(4)
  have a: "opcode_at h a = opcode_at g a" using gen_marks [OF 1(2)] same by blast
  show ?case
  proof (cases "unat a \<ge> MEMORY_SIZE \<or> a \<in> set seen")
    case True
    then show ?thesis
      using 1(2) a by (subst gen.simps, subst (asm) (2) gen.simps) (auto simp: Let_def fall_back_def)
  next
    case False
    have g: "gen BENCH g a cnt lid seen = (case emit BENCH g a cnt lid (a # seen) of
         Bail_errer \<Rightarrow> ([a], opcode_at g a, Failed)
       | Stops marks k \<Rightarrow> (a # marks, opcode_at g a, Generated (End_with_jump a) [(a, block_head BENCH cnt k)])
       | Goes_on marks lid1 pc1 f \<Rightarrow>
           (let (marks1, opc1, g1) = gen BENCH g pc1 (cnt + 1) lid1 (a # seen)
            in (a # marks @ marks1, opc1, add_block a (\<lambda>k. block_head BENCH cnt (f k)) g1)))" for g
      using False by (subst gen.simps) (simp add: Let_def)
    have e: "emit BENCH h a cnt lid (a # seen) = emit BENCH g a cnt lid (a # seen)"
      using 1(2) same by (intro emit_cong a) (auto simp: g split: prod.splits)
    show ?thesis
    proof (cases "emit BENCH g a cnt lid (a # seen)")
      case (Goes_on marks lid1 a1 f)
      obtain m1 opc1 g1 where r: "gen BENCH g a1 (cnt + 1) lid1 (a # seen) = (m1, opc1, g1)" by (metis prod_cases3)
      then have "gen BENCH h a1 (cnt + 1) lid1 (a # seen) = (m1, opc1, g1)"
        using 1(2) same False Goes_on by (intro 1(1) [OF refl]) (auto simp: g)
      then show ?thesis using 1(2) r Goes_on by (simp add: g e)
    qed (use 1(2) a in \<open>simp_all add: g e\<close>)
  qed
qed

section \<open>The trace cache\<close>

text \<open>
  The compiler under the trace compiler: whatever it compiles does what the trace says. And the
  invariant of the cache: a cached trace is compiled, is what the code generator would make of the
  memory as it is, and every byte it was made from is marked as code.
\<close>

definition gcc_ok :: "(trace \<Rightarrow> ('a jit_scheme \<Rightarrow> 'a jit_scheme run option) option) \<Rightarrow> bool" where
  "gcc_ok gcc \<longleftrightarrow> (\<forall>T f. gcc T = Some f \<longrightarrow> f = run_trace BENCH T)"

definition marked :: "bool list \<Rightarrow> u16 \<Rightarrow> bool" where
  "marked c x \<longleftrightarrow> c ! mem_index x \<and> c ! mem_index (x + 1)"

definition fresh :: "'a jit_scheme \<Rightarrow> u16 \<Rightarrow> trace \<Rightarrow> bool" where
  "fresh t a T \<longleftrightarrow> (\<exists>ms opc. gen BENCH t a 0 0 [] = (ms, opc, Generated (fst T) (snd T)) \<and> (\<forall>x\<in>set ms. marked (code_bytes t) x))"

definition cached :: "(trace \<Rightarrow> ('a jit_scheme \<Rightarrow> 'a jit_scheme run option) option) \<Rightarrow> 'a jit_scheme \<Rightarrow> bool" where
  "cached gcc t \<longleftrightarrow> (\<forall>a T. trace_cache t a = Some T \<longrightarrow> gcc T \<noteq> None \<and> fresh t a T)"

text \<open>Freshness survives whatever leaves the marked bytes alone.\<close>

lemma fresh_mono:
  assumes "fresh t a T" "\<And>i. code_bytes t ! i \<Longrightarrow> code_bytes u ! i \<and> memory u ! i = memory t ! i"
  shows "fresh u a T"
proof -
  obtain ms opc where g: "gen BENCH t a 0 0 [] = (ms, opc, Generated (fst T) (snd T))" "\<forall>x\<in>set ms. marked (code_bytes t) x"
    using assms(1) by (auto simp: fresh_def)
  have "\<forall>x\<in>set ms. opcode_at u x = opcode_at t x" "\<forall>x\<in>set ms. marked (code_bytes u) x"
    using g(2) assms(2) by (auto simp: marked_def opcode_at_def mem_at_def)
  then show ?thesis using gen_cong [OF g(1) refl, of u] by (auto simp: fresh_def)
qed

lemma cached_mono:
  assumes "cached gcc t" "trace_cache u = trace_cache t"
    "\<And>i. code_bytes t ! i \<Longrightarrow> code_bytes u ! i \<and> memory u ! i = memory t ! i"
  shows "cached gcc u"
  using assms fresh_mono [of t _ _ u] by (auto simp: cached_def)

lemma cached_kept: "cached gcc t \<Longrightarrow> kept n t u \<Longrightarrow> \<not> smc_pending u \<Longrightarrow> cached gcc u"
  by (rule cached_mono) (auto simp: kept_def)

lemma cached_empty: "trace_cache t = (\<lambda>_. None) \<Longrightarrow> cached gcc t"
  by (simp add: cached_def)

section \<open>Marking\<close>

lemma mark_code_2:
  "jit_mark_code x 2 t = t\<lparr>code_bytes := (code_bytes t)[mem_index x := True, mem_index (x + 1) := True]\<rparr>"
  by (simp add: jit_mark_code_def numeral_2_eq_2)

lemma mark_all:
  "\<exists>c. fold (\<lambda>a. jit_mark_code a 2) ms t = t\<lparr>code_bytes := c\<rparr> \<and> length c = length (code_bytes t) \<and>
     (\<forall>i. code_bytes t ! i \<longrightarrow> c ! i) \<and> (length (code_bytes t) = 4096 \<longrightarrow> (\<forall>x\<in>set ms. marked c x))"
proof (induction ms arbitrary: t)
  case Nil
  show ?case by (rule exI [of _ "code_bytes t"]) simp
next
  case (Cons x ms)
  let ?c = "(code_bytes t)[mem_index x := True, mem_index (x + 1) := True]"
  obtain c where c: "fold (\<lambda>a. jit_mark_code a 2) ms (t\<lparr>code_bytes := ?c\<rparr>) = t\<lparr>code_bytes := c\<rparr>"
    "length c = length (code_bytes t)" "\<forall>i. ?c ! i \<longrightarrow> c ! i" "length (code_bytes t) = 4096 \<longrightarrow> (\<forall>x\<in>set ms. marked c x)"
    using Cons [of "t\<lparr>code_bytes := ?c\<rparr>"] by auto
  have mono: "xs[i := True] ! j" if "xs ! j" for xs :: "bool list" and i j
    using that by (cases "i < length xs") (simp_all add: nth_list_update list_update_beyond)
  have "\<forall>i. code_bytes t ! i \<longrightarrow> c ! i" using c(3) mono by blast
  moreover have "marked c x" if "length (code_bytes t) = 4096"
    using c(3) that mem_index_less by (auto simp: marked_def nth_list_update)
  ultimately show ?case using c by (intro exI [of _ c]) (simp add: mark_code_2 [of x t])
qed

section \<open>The invariant of the loop\<close>

definition engine_ok :: "(trace \<Rightarrow> ('a jit_scheme \<Rightarrow> 'a jit_scheme run option) option) \<Rightarrow> 'a jit_scheme \<Rightarrow> bool" where
  "engine_ok gcc t \<longleftrightarrow> cached gcc t \<and> \<not> smc_pending t \<and> length (code_bytes t) = 4096 \<and> length (memory t) = 4096 \<and>
     \<not> program_over t \<and> \<not> bench_done t \<and> bench_next_safepoint t \<le> bench_budget t + BENCH_SAFEPOINT_INTERVAL \<and>
     bench_clock_cap t + bench_budget t + 8192 < CLOCK_LIMIT"

text \<open>A trace is compiled and cached.\<close>

lemma codegen_spec:
  assumes "length (code_bytes t) = 4096" "codegen BENCH t = (g, t1)"
  obtains c opc where "t1 = t\<lparr>code_bytes := c, opcode := opc\<rparr>" "length c = 4096" "\<And>i. code_bytes t ! i \<Longrightarrow> c ! i"
    "fst (codegen BENCH t1) = g" "\<And>k bs. g = Generated k bs \<Longrightarrow> fresh t1 (program_counter t) (k, bs)"
proof -
  obtain ms opc where gen: "gen BENCH t (program_counter t) 0 0 [] = (ms, opc, g)" and t1: "t1 = fold (\<lambda>a. jit_mark_code a 2) ms t\<lparr>opcode := opc\<rparr>"
    using assms(2) by (auto simp: codegen_def split: prod.splits)
  obtain c where c: "fold (\<lambda>a. jit_mark_code a 2) ms t = t\<lparr>code_bytes := c\<rparr>" "length c = 4096"
    "\<forall>i. code_bytes t ! i \<longrightarrow> c ! i" "\<forall>x\<in>set ms. marked c x"
    using mark_all [of ms t] assms(1) by auto
  have "\<forall>x\<in>set ms. opcode_at t1 x = opcode_at t x" by (simp add: t1 c opcode_at_def mem_at_def)
  note gen1 = gen_cong [OF gen refl this]
  have "fst (codegen BENCH t1) = g" using gen1 by (simp add: codegen_def t1 c(1))
  moreover from gen1 have "fresh t1 (program_counter t) (k, bs)" if "g = Generated k bs" for k bs
    using that c(4) by (auto simp: fresh_def t1 c(1))
  ultimately show thesis using that [of opc c] c by (simp add: t1)
qed

section \<open>One pass\<close>

lemma trace_pass:
  assumes "engine_ok gcc t" "trace_cache t (program_counter t) = Some T" "agree s t"
  shows "\<exists>k p. run_trace BENCH T t = Some p \<and> matches (interp_run (Suc k) s) p \<and> unwaiting k s \<and>
    (\<forall>w. p = Returns w \<longrightarrow> kept (bench_budget t + 64) t w \<and> bench_retired w \<le> bench_budget t + 64 + 4097)"
proof -
  let ?n = "bench_budget t + 64"
  obtain ms opc where gen: "gen BENCH t (program_counter t) 0 0 [] = (ms, opc, Generated (fst T) (snd T))"
    using assms(1,2) unfolding engine_ok_def cached_def fresh_def by blast
  then have e: "fst T = End_with_jump (program_counter t)" by (auto elim: gen_entry)
  have len: "length (snd T) \<le> 4096" using gen_length [OF gen] by (simp add: MEMORY_SIZE_def)
  have now: "\<not> bench_done t" using assms(1) by (simp add: engine_ok_def)
  have "runs_in ?n (length (snd T) + 4) ms t t"
    using assms(1) now len
    by (auto simp: engine_ok_def runs_in_def due_def bench_done_def bench_now_def BENCH_SAFEPOINT_INTERVAL_def)
  from sound_block [OF gen refl gen [unfolded e] order_refl order_refl _ this, of s "\<lambda>_. 0"]
  have "sound ?n (snd T) (fst T) (\<lambda>_. 0) t s"
    using assms(3) now by (simp add: pc_same e bench_done_def)
  then show ?thesis
    using len unfolding sound_def run_trace_def by (fastforce simp del: interp_run.simps)
qed

lemma interp_instr_frame:
  assumes "interp_instr s = Done r s'"
  shows "bench_retired s' = bench_retired s + 1" "bench_budget s' = bench_budget s" "bench_clock_cap s' = bench_clock_cap s"
proof -
  have "bench_frame (snd (bench_keys_now s)) = bench_frame s" by (simp add: keys_now_eq bench_frame_def)
  then show "bench_retired s' = bench_retired s + 1" "bench_budget s' = bench_budget s" "bench_clock_cap s' = bench_clock_cap s"
    using basic_block_frame(1) [OF assms [unfolded interp_instr_def Let_def]] by (simp_all add: bench_frame_def)
qed

lemma interp_run_retired: "interp_run k s = Done 0 s' \<Longrightarrow> bench_retired s' = bench_retired s + k"
  by (induction k arbitrary: s)
    (auto split: outcome.splits if_splits dest: interp_instr_frame(1))

lemma interp_run_add: "interp_run k s = Done 0 s' \<Longrightarrow> interp_run (k + j) s = interp_run j s'"
  by (induction k arbitrary: s) (auto split: outcome.splits if_splits)

text \<open>No wait for a key among the next instructions is cut short by the end of the run.\<close>

definition uncut :: "nat \<Rightarrow> 'a vm_scheme \<Rightarrow> bool" where
  "uncut k s \<longleftrightarrow>
     (\<forall>i<k. \<forall>s1 s2. interp_run i s = Done 0 s1 \<longrightarrow> waits s1 \<longrightarrow> interp_instr s1 = Done 0 s2 \<longrightarrow> \<not> bench_done s2)"

lemma uncutI:
  "(\<And>i s1 s2. i < k \<Longrightarrow> interp_run i s = Done 0 s1 \<Longrightarrow> waits s1 \<Longrightarrow> interp_instr s1 = Done 0 s2 \<Longrightarrow> \<not> bench_done s2) \<Longrightarrow> uncut k s"
  by (simp add: uncut_def)

lemma uncutD:
  "uncut k s \<Longrightarrow> i < k \<Longrightarrow> interp_run i s = Done 0 s1 \<Longrightarrow> waits s1 \<Longrightarrow> interp_instr s1 = Done 0 s2 \<Longrightarrow> \<not> bench_done s2"
  by (simp add: uncut_def)

lemma unwaitingD: "unwaiting k s \<Longrightarrow> i < k \<Longrightarrow> interp_run i s = Done 0 s1 \<Longrightarrow> \<not> waits s1"
  by (simp add: unwaiting_def)

lemma uncut_0 [simp]: "uncut 0 s"
  by (rule uncutI) simp

lemma uncut_less: "uncut k s \<Longrightarrow> j \<le> k \<Longrightarrow> uncut j s"
  by (rule uncutI, rule uncutD [of k s]) simp_all

lemma unwaiting_uncut: "unwaiting k s \<Longrightarrow> uncut k s"
  by (rule uncutI) (blast dest: unwaitingD)

lemma uncut_last:
  assumes "unwaiting k s" "interp_run (Suc k) s = Done 0 s'" "\<not> bench_done s'"
  shows "uncut (Suc k) s"
proof (rule uncutI)
  fix i s1 s2 assume i: "i < Suc k" "interp_run i s = Done 0 s1" "waits s1" "interp_instr s1 = Done 0 s2"
  then have "i = k" using unwaitingD [OF assms(1) _ i(2)] by (cases "i < k") simp_all
  then have "interp_run (Suc k) s = Done 0 s2" using interp_run_add [OF i(2), of 1] i(4) by simp
  with assms(2,3) show "\<not> bench_done s2" by simp
qed

lemma uncut_add:
  assumes "uncut k s" "interp_run k s = Done 0 s'" "uncut j s'"
  shows "uncut (k + j) s"
proof (rule uncutI)
  fix i s1 s2 assume i: "i < k + j" "interp_run i s = Done 0 s1" "waits s1" "interp_instr s1 = Done 0 s2"
  show "\<not> bench_done s2"
  proof (cases "i < k")
    case True
    from uncutD [OF assms(1) True i(2-4)] show ?thesis .
  next
    case False
    then have "interp_run (i - k) s' = Done 0 s1" using interp_run_add [OF assms(2), of "i - k"] i(2) by simp
    from uncutD [OF assms(3) _ this i(3,4)] show ?thesis using False i(1) by simp
  qed
qed

lemma agree_keys_snd_right: "agree s t \<Longrightarrow> agree s (snd (bench_keys_now t))"
  using agree_keys_snd [of t s] agree_sym [of s t] agree_sym [of "snd (bench_keys_now t)" s] by blast

lemma agree_flush [simp]: "agree s (flush b t) = agree s t"
  by (simp add: flush_def)

text \<open>Behind a trace that returned: the loop goes on with its invariant, or the run is over.\<close>

lemma after_trace_spec:
  assumes "engine_ok gcc t" "kept (bench_budget t + 64) t w" "agree s w"
  obtains u where "agree s u" "bench_done u" "after_trace BENCH w c = Report u c"
  | u where "agree s u" "engine_ok gcc u" "after_trace BENCH w c = Go_on u (c + 1)"
proof -
  let ?c = "check_interrupt BENCH w"
  let ?f = "flush BENCH ?c"
  let ?u = "snd (bench_keys_now ?f)"
  have run: "after_trace BENCH w c = (if program_over ?u then Report ?u c else Go_on ?u (c + 1))"
    using bench_keys_no_quit [of ?f] by (simp add: after_trace_def Let_def split_beta)
  have ag: "agree s ?u" by (intro agree_keys_snd_right) (simp add: agree_check_interrupt assms(3))
  have kept: "kept (bench_budget t + 64) t ?c"
    using kept_trans [OF assms(2) calm_kept [OF calm_check_interrupt [OF calm_refl]]] .
  have c: "program_over ?c \<longleftrightarrow> program_over w \<or> bench_done w" "bench_done ?c = bench_done w"
    by (simp_all add: check_interrupt_BENCH) (simp_all add: bench_done_def bench_now_def sync_timers_def Let_def)
  have u: "program_over ?u = program_over ?c" "bench_done ?u = bench_done ?c" "memory ?u = memory ?c" "\<not> smc_pending ?u"
    "bench_budget ?u = bench_budget ?c" "bench_clock_cap ?u = bench_clock_cap ?c" "bench_next_safepoint ?u = bench_next_safepoint ?c"
    "code_bytes ?u = code_bytes ?f" "trace_cache ?u = trace_cache ?f"
    by (simp_all add: keys_now_eq flush_def bench_done_def bench_now_def)
  have over: "program_over ?c \<Longrightarrow> bench_done ?c" using assms(1) kept by (auto simp: engine_ok_def kept_def)
  show thesis
  proof (cases "program_over ?u")
    case True
    then show ?thesis using that(1) [OF ag] over u run by simp
  next
    case False
    have "cached gcc ?f"
    proof (cases "smc_pending ?c")
      case True
      then show ?thesis by (intro cached_empty) (simp add: flush_def)
    next
      case False
      then show ?thesis using cached_kept [OF _ kept] assms(1) by (simp add: flush_def engine_ok_def)
    qed
    then have "cached gcc ?u" by (rule cached_mono) (simp_all add: u, simp add: flush_def)
    moreover have "length (code_bytes ?u) = 4096"
      unfolding u(8) using assms(1) kept by (simp add: flush_def engine_ok_def kept_def MEMORY_SIZE_def)
    ultimately have "engine_ok gcc ?u"
      using False assms(1) kept c u(4) unfolding engine_ok_def u by (auto simp: kept_def due_def BENCH_SAFEPOINT_INTERVAL_def)
    then show ?thesis using that(2) [OF ag] False run by simp
  qed
qed

section \<open>The loop\<close>

text \<open>
  How the interpreter accounts for an end of the JIT's run: after some instructions, none of them
  but the last a wait for a key that was cut short, it is in the reported state, and the run is over or what comes next cannot be compiled; or it has the error
  the helper exits with; or it meets the undefined shift, or a trace that leaves the 4 KiB.
\<close>

definition uncompilable :: "(trace \<Rightarrow> ('a jit_scheme \<Rightarrow> 'a jit_scheme run option) option) \<Rightarrow> 'a jit_scheme \<Rightarrow> bool" where
  "uncompilable gcc t \<longleftrightarrow>
     (case fst (codegen BENCH t) of Generated k bs \<Rightarrow> gcc (k, bs) = None | Failed \<Rightarrow> True | Out_of_bounds \<Rightarrow> False)"

fun explains :: "(trace \<Rightarrow> ('c jit_scheme \<Rightarrow> 'c jit_scheme run option) option) \<Rightarrow> 'a vm_scheme \<Rightarrow> 'c jit_scheme jit_pass \<Rightarrow> bool" where
  "explains gcc s (Report u c) \<longleftrightarrow>
     (\<exists>k s'. interp_run k s = Done 0 s' \<and> uncut (k - 1) s \<and> agree s' u \<and> (bench_done u \<or> uncompilable gcc u) \<and>
        bench_retired u \<le> bench_budget u + BENCH_SAFEPOINT_INTERVAL + MEMORY_SIZE + 1)"
| "explains gcc s (Exit_error u) \<longleftrightarrow>
     (\<exists>k r s'. interp_run k s = Done r s' \<and> r \<noteq> 0 \<and> agree s' (u\<lparr>program_counter := program_counter s'\<rparr>))"
| "explains gcc s Undefined_run \<longleftrightarrow>
     (\<exists>k. interp_run k s = UB \<or>
       (\<exists>s' u. interp_run k s = Done 0 s' \<and> agree s' (u :: 'c jit_scheme) \<and> fst (codegen BENCH u) = Out_of_bounds))"
| "explains gcc s (Go_on u c) \<longleftrightarrow> False"
| "explains gcc s Never \<longleftrightarrow> False"

lemma explains_later:
  assumes "interp_run k s = Done 0 s'" "uncut k s" "explains gcc s' p"
  shows "explains gcc s p"
proof -
  have run: "interp_run (k + j) s = interp_run j s'" for j by (rule interp_run_add [OF assms(1)])
  show ?thesis
  proof (cases p)
    case (Report u c)
    then obtain j s2 where j: "interp_run j s' = Done 0 s2" "uncut (j - 1) s'" "agree s2 u" "bench_done u \<or> uncompilable gcc u"
      "bench_retired u \<le> bench_budget u + BENCH_SAFEPOINT_INTERVAL + MEMORY_SIZE + 1" using assms(3) by auto
    have "uncut (k + j - 1) s"
      using uncut_add [OF assms(2,1) j(2)] uncut_less [OF assms(2), of "k - 1"] by (cases j) simp_all
    with j show ?thesis unfolding Report explains.simps by (metis run)
  qed (use assms(3) run in \<open>simp; metis\<close>)+
qed

definition passes_left :: "'a jit_scheme \<Rightarrow> nat" where
  "passes_left t = 2 * (bench_budget t - bench_retired t) + (if trace_cache t (program_counter t) = None then 1 else 0)"

lemma compile_pass_spec:
  assumes "engine_ok gcc t" "agree s t" "trace_cache t (program_counter t) = None"
  obtains u where "jit_pass gcc BENCH t c = Go_on u c" "agree s u" "engine_ok gcc u" "passes_left u < passes_left t"
  | "explains gcc s (jit_pass gcc BENCH t c)"
proof -
  obtain g t1 where cg: "codegen BENCH t = (g, t1)" by fastforce
  have l: "length (code_bytes t) = 4096" using assms(1) by (simp add: engine_ok_def)
  obtain m opc where t1: "t1 = t\<lparr>code_bytes := m, opcode := opc\<rparr>" "length m = 4096"
    "\<And>i. code_bytes t ! i \<Longrightarrow> m ! i" "fst (codegen BENCH t1) = g"
    "\<And>k bs. g = Generated k bs \<Longrightarrow> fresh t1 (program_counter t) (k, bs)"
    by (rule codegen_spec [OF l cg]) blast
  have ag: "agree s t1" by (simp add: t1 assms(2))
  have lt: "bench_retired t < bench_budget t" using assms(1) by (simp add: engine_ok_def bench_done_def)
  have fail: "explains gcc s (Report t1 c)" if "uncompilable gcc t1"
    using that ag lt by (auto intro!: exI [of _ 0] exI [of _ s] simp: t1)
  show thesis
  proof (cases g)
    case Failed
    then have "jit_pass gcc BENCH t c = Report t1 c" using cg assms(3) by (simp add: jit_pass_def compile_pass_def)
    then show thesis using that(2) fail t1(4) Failed by (simp add: uncompilable_def)
  next
    case Out_of_bounds
    then have "jit_pass gcc BENCH t c = Undefined_run" using cg assms(3) by (simp add: jit_pass_def compile_pass_def)
    moreover have "explains gcc s Undefined_run"
      unfolding explains.simps using ag t1(4) Out_of_bounds
      by (intro exI [of _ 0] disjI2 exI [of _ s] exI [of _ t1]) simp
    ultimately show thesis using that(2) by simp
  next
    case (Generated k bs)
    show thesis
    proof (cases "gcc (k, bs)")
      case None
      then have "jit_pass gcc BENCH t c = Report t1 c" using cg assms(3) Generated by (simp add: jit_pass_def compile_pass_def)
      then show thesis using that(2) fail t1(4) Generated None by (simp add: uncompilable_def)
    next
      case (Some f)
      let ?u = "t1\<lparr>trace_cache := (trace_cache t1)(program_counter t \<mapsto> (k, bs)), bench_compiled := bench_compiled t1 + 1\<rparr>"
      have pass: "jit_pass gcc BENCH t c = Go_on ?u c"
        using cg assms(3) Generated Some by (simp add: jit_pass_def compile_pass_def t1(1))
      have frame: "\<And>i. code_bytes t ! i \<Longrightarrow> code_bytes t1 ! i \<and> memory t1 ! i = memory t ! i" by (simp add: t1(1,3))
      have "cached gcc t1" using assms(1) by (intro cached_mono [OF _ _ frame]) (simp_all add: engine_ok_def t1(1))
      moreover have "fresh ?u a T" if "fresh t1 a T" for a T by (rule fresh_mono [OF that]) simp
      ultimately have "cached gcc ?u" using t1(5) [OF Generated] Some by (auto simp: cached_def)
      then have "engine_ok gcc ?u" using assms(1) t1(2) by (simp add: engine_ok_def t1(1) bench_done_def bench_now_def)
      moreover have "agree s ?u" using ag by simp
      moreover have "passes_left ?u < passes_left t" by (simp add: passes_left_def assms(3) t1(1))
      ultimately show thesis using that(1) pass by blast
    qed
  qed
qed

lemma trace_pass_spec:
  assumes "engine_ok gcc t" "gcc_ok gcc" "agree s t" "trace_cache t (program_counter t) = Some T"
  obtains k s' u where "jit_pass gcc BENCH t c = Go_on u (c + 1)" "interp_run k s = Done 0 s'" "uncut k s" "agree s' u" "engine_ok gcc u"
      "passes_left u < passes_left t"
  | "explains gcc s (jit_pass gcc BENCH t c)"
proof -
  have "gcc T \<noteq> None" using assms(1,4) unfolding engine_ok_def cached_def by blast
  then have gcc: "gcc T = Some (run_trace BENCH T)" using assms(2) unfolding gcc_ok_def by blast
  obtain k p where p: "run_trace BENCH T t = Some p" "matches (interp_run (Suc k) s) p" "unwaiting k s"
    "\<forall>w. p = Returns w \<longrightarrow> kept (bench_budget t + 64) t w \<and> bench_retired w \<le> bench_budget t + 64 + 4097"
    using trace_pass [OF assms(1,4,3)] by blast
  show thesis
  proof (cases p)
    case (Exits w)
    then obtain r s' where "interp_run (Suc k) s = Done r s'" "r \<noteq> 0" "agree s' (w\<lparr>program_counter := program_counter s'\<rparr>)"
      using p(2) by (cases "interp_run (Suc k) s") auto
    then have "explains gcc s (Exit_error w)" by (simp del: interp_run.simps) blast
    then show thesis using that(2) Exits p(1) gcc assms(4) by (simp add: jit_pass_def)
  next
    case Undef
    then have "interp_run (Suc k) s = UB" using p(2) by (cases "interp_run (Suc k) s") auto
    then have "explains gcc s (Undefined_run)" by (simp del: interp_run.simps) blast
    then show thesis using that(2) Undef p(1) gcc assms(4) by (simp add: jit_pass_def)
  next
    case (Returns w)
    then obtain s' where s': "interp_run (Suc k) s = Done 0 s'" "agree s' w"
      using p(2) by (cases "interp_run (Suc k) s") auto
    have w: "kept (bench_budget t + 64) t w" "bench_retired w \<le> bench_budget t + 64 + 4097" using p(4) Returns by auto
    have pass: "jit_pass gcc BENCH t c = after_trace BENCH w c" using Returns p(1) gcc assms(4) by (simp add: jit_pass_def)
    have ret: "bench_retired s' = bench_retired t + Suc k" using interp_run_retired [OF s'(1)] assms(3) by (simp add: agree_def)
    have bud: "bench_budget w = bench_budget t" using w(1) by (simp add: kept_def)
    from after_trace_spec [OF assms(1) w(1) s'(2), of c] show thesis
    proof cases
      case (1 u)
      have "bench_retired u = bench_retired w" "bench_budget u = bench_budget w" using s'(2) 1(1) by (simp_all add: agree_def)
      then have "explains gcc s (Report u c)"
        using 1 s'(1) w(2) bud unwaiting_uncut [OF p(3)] by (auto intro!: exI [of _ "Suc k"] simp: BENCH_SAFEPOINT_INTERVAL_def MEMORY_SIZE_def simp del: interp_run.simps)
      then show thesis using that(2) pass 1(3) by simp
    next
      case (2 u)
      have r: "bench_retired u = bench_retired t + Suc k" "bench_budget u = bench_budget t"
        using s'(2) 2(1) ret bud by (simp_all add: agree_def)
      have "bench_retired t < bench_budget t" using assms(1) by (simp add: engine_ok_def bench_done_def)
      then have "bench_budget u - bench_retired u < bench_budget t - bench_retired t" using r by linarith
      then have "passes_left u < passes_left t" using assms(4) by (simp add: passes_left_def)
      moreover have "\<not> bench_done s'" using 2(2) agree_done [OF 2(1)] by (simp add: engine_ok_def)
      then have "uncut (Suc k) s" by (rule uncut_last [OF p(3) s'(1)])
      ultimately show thesis using that(1) pass 2 s'(1) by metis
    qed
  qed
qed

text \<open>The loop ends, and the interpreter explains how.\<close>

lemma loop_explained:
  assumes "gcc_ok gcc"
  shows "engine_ok gcc t \<Longrightarrow> agree s t \<Longrightarrow> \<exists>p. jit_loop gcc BENCH t c = Some p \<and> explains gcc s p"
proof (induction "passes_left t" arbitrary: s t c rule: less_induct)
  case less
  have stop: "\<exists>p. jit_loop gcc BENCH t c = Some p \<and> explains gcc s p" if "explains gcc s (jit_pass gcc BENCH t c)"
    using that by (subst jit_loop.simps) (cases "jit_pass gcc BENCH t c"; simp)
  have on: "\<exists>p. jit_loop gcc BENCH t c = Some p \<and> explains gcc s p"
    if "jit_pass gcc BENCH t c = Go_on u c'" "interp_run k s = Done 0 s'" "uncut k s" "agree s' u" "engine_ok gcc u" "passes_left u < passes_left t"
    for u c' k s'
    using less.hyps [OF that(6,5,4), of c'] explains_later [OF that(2,3)] that(1) by (subst jit_loop.simps) auto
  show ?case
  proof (cases "trace_cache t (program_counter t)")
    case None
    from compile_pass_spec [OF less.prems None, of c] show ?thesis
      by cases (auto intro: on [where k = 0 and s' = s] stop)
  next
    case (Some T)
    from trace_pass_spec [OF less.prems(1) assms less.prems(2) Some, of c] show ?thesis
      by cases (auto intro: on stop)
  qed
qed

end
