(* ===== verification/C8_Jit_Thms.thy ===== *)
theory C8_Jit_Thms
  imports C8_Jit_Main C8_Report
begin

text \<open>
  The properties of the JIT: what the code generator makes, that a trace executes instructions of
  the interpreter, that its cache stays coherent with memory, and that a whole run is a run of the
  interpreter, up to the report it prints.
\<close>

section \<open>A run from the start\<close>

lemma jit_start_simps [simp]:
  "stack (jit_start al e s) = stack s" "memory (jit_start al e s) = memory s" "regs (jit_start al e s) = regs s"
  "stack_pointer (jit_start al e s) = stack_pointer s" "addr (jit_start al e s) = addr s"
  "program_counter (jit_start al e s) = program_counter s"
  "rand_seq (jit_start al e s) = rand_seq s" "rand_pos (jit_start al e s) = rand_pos s"
  "display (jit_start al e s) = display s" "width (jit_start al e s) = width s" "height (jit_start al e s) = height s"
  "bench_retired (jit_start al e s) = bench_retired s" "bench_poll_clock (jit_start al e s) = bench_poll_clock s"
  "bench_budget (jit_start al e s) = bench_budget s" "bench_clock_cap (jit_start al e s) = bench_clock_cap s"
  "bench_next_safepoint (jit_start al e s) = bench_next_safepoint s" "bench_key_mode (jit_start al e s) = bench_key_mode s"
  "bench_cleared (jit_start al e s) = bench_cleared s" "bench_cleared_tick (jit_start al e s) = bench_cleared_tick s"
  "delay_timer (jit_start al e s) = delay_timer s" "sound_timer (jit_start al e s) = sound_timer s"
  "last_tick (jit_start al e s) = last_tick s"
  by (simp_all add: jit_start_def vm.defs)

lemma jit_start_engine [simp]:
  "program_over (jit_start al e s) = False" "smc_pending (jit_start al e s) = False"
  "code_bytes (jit_start al e s) = replicate MEMORY_SIZE False" "trace_cache (jit_start al e s) = (\<lambda>_. None)"
  by (simp_all add: jit_start_def vm.defs)

lemma jit_booted:
  fixes rnd :: "nat \<Rightarrow> u32" and clk :: "nat \<Rightarrow> nat" and polls :: "nat \<Rightarrow> int list" and km :: key_mode
  assumes "0 < budget" "65 * budget + 8192 < CLOCK_LIMIT"
  defines "s0 \<equiv> initial_vm rnd clk polls budget km"
  shows "engine_ok gcc (boot BENCH rom (jit_start al e s0))" "agree (boot BENCH rom s0) (boot BENCH rom (jit_start al e s0))"
proof -
  have "CLOCK_LIMIT > 8192" by (simp add: CLOCK_LIMIT_def BENCH_INSTR_PER_TICK_def)
  then have "clock_ok (boot BENCH rom s0)" "clock_ok (boot BENCH rom (jit_start al e s0))"
    by (simp_all add: clock_ok_def key_tick_def bench_now_def boot_BENCH s0_def) (simp_all add: initial_vm_def)
  then show "agree (boot BENCH rom s0) (boot BENCH rom (jit_start al e s0))"
    by (simp add: agree_def boot_BENCH timer_view_def behind_def cleared_view_def key_tick_def bench_tick_def bench_now_def)
  show "engine_ok gcc (boot BENCH rom (jit_start al e s0))"
    using assms(1,2)
    by (simp add: engine_ok_def boot_BENCH cached_def bench_done_def bench_now_def s0_def)
      (simp add: initial_vm_def MEMORY_SIZE_def BENCH_CLOCK_CAP_FACTOR_def BENCH_SAFEPOINT_INTERVAL_def)
qed

section \<open>What is generated\<close>

text \<open>
  C37: Code generation always ends, in either build, and the trace it makes has one block for each
  of its addresses, all of them in the 4 KiB of memory. A trace starting beyond, where \<^verbatim>\<open>Bnnn\<close> or
  running off the end of memory can lead, indexes \<^verbatim>\<open>pc_block\<close> out of its bounds.
\<close>

theorem codegen_bounds:
  "(fst (codegen b t) = Generated c bs \<longrightarrow>
      distinct (map fst bs) \<and> (\<forall>x\<in>fst ` set bs. unat x < MEMORY_SIZE) \<and> length bs \<le> MEMORY_SIZE \<and>
      c = End_with_jump (program_counter t) \<and> program_counter t \<in> fst ` set bs) \<and>
   (MEMORY_SIZE \<le> unat (program_counter t) \<longrightarrow> fst (codegen b t) = Out_of_bounds)"
proof (intro conjI impI)
  show "fst (codegen b t) = Out_of_bounds" if "MEMORY_SIZE \<le> unat (program_counter t)"
    using that by (simp add: codegen_def split_beta) (subst gen.simps, simp add: Let_def)
next
  assume "fst (codegen b t) = Generated c bs"
  then obtain ms opc where g: "gen b t (program_counter t) 0 0 [] = (ms, opc, Generated c bs)"
    by (auto simp: codegen_def split: prod.splits)
  then show c: "c = End_with_jump (program_counter t)" by (auto elim: gen_entry)
  show "distinct (map fst bs)" "\<forall>x\<in>fst ` set bs. unat x < MEMORY_SIZE" "length bs \<le> MEMORY_SIZE"
      "program_counter t \<in> fst ` set bs"
    using gen_distinct [OF g] gen_addresses [OF g] gen_length [OF g] gen_first [OF g [unfolded c]] by auto
qed

text \<open>The trace of a program that is one jump to itself.\<close>

definition spin :: jit where "spin = jit_start (\<lambda>_. False) False (demo_vm [0x12, 0x00])"

definition spin_trace :: trace where
  "spin_trace = (End_with_jump 0x200, [(0x200, RETIRE BENCH 1 (SAFEPOINT BENCH (set_pc 0x200 (CLOSE_BACKEDGE 0x200))))])"

lemma spin_generated: "fst (codegen BENCH spin) = Generated (fst spin_trace) (snd spin_trace)"
proof -
  have pc: "program_counter spin = 0x200" by (simp add: spin_def)
  have opc: "opcode_at spin 0x200 = 0x1200"
    using demo_opcode [of spin "0x12" "0x00" "[]"] by (simp add: spin_def)
  have "emit BENCH spin 0x200 0 0 [0x200] = Stops [] (SAFEPOINT BENCH (set_pc 0x200 (CLOSE_BACKEDGE 0x200)))"
    by (simp add: emit_def opc emit_jump_def imm12_def Let_def)
  then have "gen BENCH spin 0x200 0 0 [] = ([0x200], 0x1200, Generated (fst spin_trace) (snd spin_trace))"
    by (subst gen.simps) (simp add: opc Let_def MEMORY_SIZE_def spin_trace_def block_head_def)
  then show ?thesis by (simp add: codegen_def pc)
qed

lemma codegen_bounds_witness:
  "program_counter spin \<in> fst ` set (snd spin_trace) \<and>
   fst (codegen BENCH (spin\<lparr>program_counter := 0x1000\<rparr>)) = Out_of_bounds"
  using codegen_bounds [of BENCH spin "fst spin_trace" "snd spin_trace"] spin_generated
    codegen_bounds [of BENCH "spin\<lparr>program_counter := 0x1000\<rparr>"]
  by (simp add: MEMORY_SIZE_def)

section \<open>A trace\<close>

text \<open>
  C6: Executing a trace generated from the memory the machine has ends, and amounts to one or more
  instructions of the interpreter: it returns in the state they lead to, exits with the error they
  stop at, or meets the undefined shift they meet. The count of instructions past the budget is
  bounded.
\<close>

theorem trace_executes_instructions:
  assumes "fst (codegen BENCH t) = Generated c bs" "agree s t" "length (memory t) = 4096" "\<not> bench_done t"
    "bench_next_safepoint t \<le> bench_budget t + BENCH_SAFEPOINT_INTERVAL"
    "bench_clock_cap t + bench_budget t + 8192 < CLOCK_LIMIT"
  shows "\<exists>k p. run_trace BENCH (c, bs) t = Some p \<and> matches (interp_run (Suc k) s) p \<and>
    (\<forall>w. p = Returns w \<longrightarrow> bench_retired w \<le> bench_budget t + BENCH_SAFEPOINT_INTERVAL + MEMORY_SIZE + 1)"
proof -
  obtain ms opc where g: "gen BENCH t (program_counter t) 0 0 [] = (ms, opc, Generated c bs)"
    using assms(1) by (auto simp: codegen_def split: prod.splits)
  then have c: "c = End_with_jump (program_counter t)" by (auto elim: gen_entry)
  let ?n = "bench_budget t + 64"
  have len: "length bs \<le> 4096" using gen_length [OF g] by (simp add: MEMORY_SIZE_def)
  have "runs_in ?n (length bs + 4) ms t t"
    using assms len by (auto simp: runs_in_def due_def bench_done_def bench_now_def BENCH_SAFEPOINT_INTERVAL_def)
  from sound_block [OF g refl g [unfolded c] order_refl order_refl _ this, of s "\<lambda>_. 0"]
  have "sound ?n bs c (\<lambda>_. 0) t s"
    using assms by (simp add: pc_same c bench_done_def)
  then show ?thesis
    using len unfolding sound_def run_trace_def
    by (fastforce simp: BENCH_SAFEPOINT_INTERVAL_def MEMORY_SIZE_def simp del: interp_run.simps)
qed

lemma spin_booted: "engine_ok gcc spin" "agree (demo_vm [0x12, 0x00]) spin"
proof -
  let ?i = "initial_vm (\<lambda>_. 0) (\<lambda>_. 0) (\<lambda>_. []) 100 BENCH_KEYS_NONE"
  have "spin = boot BENCH [0x12, 0x00] (jit_start (\<lambda>_. False) False ?i)"
    by (simp add: spin_def demo_vm_def boot_BENCH) (simp add: jit_start_def vm.defs bench_tick_def bench_now_def)
  then show "engine_ok gcc spin" "agree (demo_vm [0x12, 0x00]) spin"
    using jit_booted(1) [where budget = 100 and gcc = gcc and rom = "[0x12, 0x00]" and al = "\<lambda>_. False" and e = False
          and rnd = "\<lambda>_. 0" and clk = "\<lambda>_. 0" and polls = "\<lambda>_. []" and km = BENCH_KEYS_NONE]
      jit_booted(2) [where budget = 100 and rom = "[0x12, 0x00]" and al = "\<lambda>_. False" and e = False
          and rnd = "\<lambda>_. 0" and clk = "\<lambda>_. 0" and polls = "\<lambda>_. []" and km = BENCH_KEYS_NONE]
    by (simp_all add: demo_vm_def CLOCK_LIMIT_def BENCH_INSTR_PER_TICK_def)
qed

lemma trace_executes_instructions_witness:
  "\<exists>k p. run_trace BENCH spin_trace spin = Some p \<and> matches (interp_run (Suc k) (demo_vm [0x12, 0x00])) p"
  using trace_executes_instructions [OF spin_generated spin_booted(2)] spin_booted(1) [of "\<lambda>_. None"]
  unfolding engine_ok_def by auto

section \<open>The cache\<close>

text \<open>
  C15: The cache is coherent: between two passes of the dispatch loop every cached trace is compiled
  and is the trace the code generator would make of the present memory, whatever the program wrote
  over its own code, and the bytes it was made from are marked.
\<close>

theorem cache_coherent:
  assumes "gcc_ok gcc" "engine_ok gcc t" "clock_ok t" "jit_pass gcc BENCH t c = Go_on u c1" "trace_cache u a = Some (k, bs)"
  shows "gcc (k, bs) \<noteq> None \<and> fst (codegen BENCH (u\<lparr>program_counter := a\<rparr>)) = Generated k bs \<and> engine_ok gcc u"
proof -
  have u: "engine_ok gcc u"
  proof (cases "trace_cache t (program_counter t)")
    case None
    from compile_pass_spec [OF assms(2) _ None, of t c] assms(3,4) show ?thesis by (cases; auto)
  next
    case (Some T)
    from trace_pass_spec [OF assms(2,1) _ Some, of t c] assms(3,4) show ?thesis by (cases; auto)
  qed
  then have "gcc (k, bs) \<noteq> None" "fresh u a (k, bs)" using assms(5) unfolding engine_ok_def cached_def by blast+
  then obtain ms opc where g: "gen BENCH u a 0 0 [] = (ms, opc, Generated k bs)" by (auto simp: fresh_def)
  have "\<forall>x\<in>set ms. opcode_at (u\<lparr>program_counter := a\<rparr>) x = opcode_at u x" by (simp add: opcode_at_def mem_at_def)
  from gen_cong [OF g refl this] have "fst (codegen BENCH (u\<lparr>program_counter := a\<rparr>)) = Generated k bs"
    by (simp add: codegen_def)
  with u \<open>gcc (k, bs) \<noteq> None\<close> show ?thesis by blast
qed

text \<open>The compiler that runs every trace as it is.\<close>

definition gcc_demo :: "trace \<Rightarrow> (jit \<Rightarrow> jit run option) option" where
  "gcc_demo T = Some (run_trace BENCH T)"

lemma gcc_demo_ok: "gcc_ok gcc_demo"
  by (simp add: gcc_ok_def gcc_demo_def)

lemma spin_pass: "\<exists>u. jit_pass gcc_demo BENCH spin 0 = Go_on u 0 \<and> trace_cache u 0x200 = Some spin_trace"
proof -
  obtain t1 where t1: "codegen BENCH spin = (Generated (fst spin_trace) (snd spin_trace), t1)"
    using spin_generated by (metis prod.collapse)
  have l: "length (code_bytes spin) = 4096" by (simp add: spin_def MEMORY_SIZE_def)
  obtain m opc where "t1 = spin\<lparr>code_bytes := m, opcode := opc\<rparr>" by (rule codegen_spec [OF l t1])
  then have "program_counter t1 = 0x200" by (simp add: spin_def)
  moreover have "trace_cache spin (program_counter spin) = None" by (simp add: spin_def)
  ultimately show ?thesis using t1 by (simp add: jit_pass_def compile_pass_def gcc_demo_def)
qed

lemma cache_coherent_witness:
  "\<exists>u. jit_pass gcc_demo BENCH spin 0 = Go_on u 0 \<and>
     fst (codegen BENCH (u\<lparr>program_counter := 0x200\<rparr>)) = Generated (fst spin_trace) (snd spin_trace)"
proof -
  have "clock_ok spin" using spin_booted(2) by (simp add: agree_def)
  obtain u where u: "jit_pass gcc_demo BENCH spin 0 = Go_on u 0" "trace_cache u 0x200 = Some (fst spin_trace, snd spin_trace)"
    using spin_pass by auto
  from cache_coherent [OF gcc_demo_ok spin_booted(1) \<open>clock_ok spin\<close> u] u(1) show ?thesis by blast
qed

section \<open>A run\<close>

lemma jit_explained:
  assumes "gcc_ok gcc" "rom \<noteq> []" "0 < budget" "65 * budget + 8192 < CLOCK_LIMIT"
  shows "\<exists>p. jit_main gcc BENCH rom (jit_start al e (initial_vm rnd clk polls budget km)) = Inr (Some p) \<and>
    explains gcc (boot BENCH rom (initial_vm rnd clk polls budget km)) p"
  using loop_explained [OF assms(1) jit_booted [OF assms(3,4)]] assms(2) by (simp add: jit_main_def)

text \<open>
  C2: A \<^verbatim>\<open>BENCH\<close> run of the JIT ends, for every ROM and every compiler that keeps to its
  interface, and the interpreter explains its end: a report is of a state the interpreter reaches,
  by a run in which no wait for a key was cut short before the last instruction,
  with the run over or an opcode that cannot be compiled next; an exit is an error of the
  interpreter; and the only undefined behaviour is that of the interpreter or of a trace that leaves
  the memory.
\<close>

theorem jit_run_explained:
  assumes "gcc_ok gcc" "rom \<noteq> []" "0 < budget" "65 * budget + 8192 < CLOCK_LIMIT"
  shows "\<exists>p. jit_main gcc BENCH rom (jit_start al e (initial_vm rnd clk polls budget km)) = Inr (Some p) \<and>
    explains gcc (boot BENCH rom (initial_vm rnd clk polls budget km)) p"
  by (rule jit_explained [OF assms])

lemma jit_run_explained_witness:
  "\<exists>p. jit_main gcc_demo BENCH [0x12, 0x00] (jit_start (\<lambda>_. False) False (initial_vm (\<lambda>_. 0) (\<lambda>_. 0) (\<lambda>_. []) 100 BENCH_KEYS_NONE)) =
      Inr (Some p) \<and> explains gcc_demo (demo_vm [0x12, 0x00]) p"
  unfolding demo_vm_def
  by (rule jit_run_explained [OF gcc_demo_ok]) (simp_all add: CLOCK_LIMIT_def BENCH_INSTR_PER_TICK_def)

section \<open>The report\<close>

lemma bench_report_agree:
  assumes "agree s u"
  shows "bench_report engine lab n seed i j s = bench_report engine lab n seed i j u"
proof -
  have v: "timer_view s = timer_view u" using assms by (simp add: agree_def)
  have timers: "delay_timer (sync_timers s) = delay_timer (sync_timers u)" "sound_timer (sync_timers s) = sound_timer (sync_timers u)"
    by (simp_all only: synced v)
  have "agree (sync_timers s) (sync_timers u)" using assms by (simp add: agree_sync agree_sync_right)
  then have "bench_display_hash (sync_timers s) = bench_display_hash (sync_timers u)"
    "bench_now (sync_timers s) = bench_now (sync_timers u)"
    by (simp_all add: bench_display_hash_def bench_now_def agree_def)
  moreover have "dump_chip8_state lab n (sync_timers s) = dump_chip8_state lab n (sync_timers u)"
    using assms by (simp add: dump_chip8_state_def timers agree_def)
  ultimately show ?thesis using \<open>agree (sync_timers s) (sync_timers u)\<close> by (simp add: bench_report_def Let_def agree_def)
qed

text \<open>
  C8: The check the benchmark scripts make of a JIT: the interpreter, run for as many instructions
  as the JIT's report says it retired, prints the same report, registers, stack, timers, clock and
  display hash, whatever is put for the engine's name and its counters.
\<close>

theorem jit_report_matches:
  assumes "gcc_ok gcc" "0 < budget" "65 * budget + 8192 < CLOCK_LIMIT"
    "jit_main gcc BENCH rom (jit_start al e (initial_vm rnd clk polls budget km)) = Inr (Some (Report u c))"
  shows "\<exists>s. interp_run (bench_retired u) (boot BENCH rom (initial_vm rnd clk polls budget km)) = Done 0 s \<and>
    bench_report engine lab n seed i j s = bench_report engine lab n seed i j u"
proof -
  let ?s = "boot BENCH rom (initial_vm rnd clk polls budget km)"
  have "rom \<noteq> []" using assms(4) by (auto simp: jit_main_def)
  from jit_explained [OF assms(1) this assms(2,3), of al e rnd clk polls km] assms(4)
  have "explains gcc ?s (Report u c)" by simp
  then obtain k s where s: "interp_run k ?s = Done 0 s" "agree s u" by auto
  have "bench_retired s = k" using interp_run_retired [OF s(1)] by (simp add: boot_BENCH initial_vm_def)
  then have "bench_retired u = k" using s(2) by (simp add: agree_def)
  then show ?thesis using s bench_report_agree [OF s(2)] by blast
qed

section \<open>Where the interpreter stops\<close>

definition stops_first :: "'a vm_scheme \<Rightarrow> 'a vm_scheme \<Rightarrow> bool" where
  "stops_first s s1 \<longleftrightarrow> (\<exists>j r. interp_run (Suc j) s = Done r s1 \<and>
     (\<forall>i\<le>j. 0 < i \<longrightarrow> (\<exists>s2. interp_run i s = Done 0 s2 \<and> \<not> bench_done s2)))"

lemma stops_first_later:
  assumes "interp_instr s = Done 0 s2" "\<not> bench_done s2" "stops_first s2 s1"
  shows "stops_first s s1"
proof -
  obtain j r where j: "interp_run (Suc j) s2 = Done r s1"
    "\<forall>i\<le>j. 0 < i \<longrightarrow> (\<exists>s3. interp_run i s2 = Done 0 s3 \<and> \<not> bench_done s3)"
    using assms(3) unfolding stops_first_def by blast
  have "\<exists>s3. interp_run i s = Done 0 s3 \<and> \<not> bench_done s3" if "i \<le> Suc j" "0 < i" for i
    using j(2) that assms(1,2) by (cases i; cases "i = 1") auto
  then show ?thesis unfolding stops_first_def using j(1) assms(1) by (intro exI [of _ "Suc j"] exI [of _ r]) simp
qed

lemma interp_loop_stops:
  assumes "interp_loop BENCH e s c = Some (Stop s1 c1)"
  shows "stops_first s s1"
proof -
  have "b = BENCH \<longrightarrow> p = Stop s1 c1 \<longrightarrow> stops_first s s1" if "interp_loop b e s c = Some p" for b e s c p
  proof (rule interp_loop.raw_induct [OF _ that])
    fix f b e s c p
    assume IH: "\<And>b e s c p. f b e s c = Some p \<Longrightarrow> b = BENCH \<longrightarrow> p = Stop s1 c1 \<longrightarrow> stops_first s s1"
      and eq: "(case interp_pass b e s c of Next s1 count1 \<Rightarrow> f b e s1 count1 | p \<Rightarrow> Some p) = Some p"
    show "b = BENCH \<longrightarrow> p = Stop s1 c1 \<longrightarrow> stops_first s s1"
    proof (intro impI)
      assume b: "b = BENCH" and p: "p = Stop s1 c1"
      show "stops_first s s1"
      proof (cases "interp_instr s")
        case (Done r s2)
        show ?thesis
        proof (cases "r \<noteq> 0 \<or> bench_done s2")
          case True
          then have "s1 = s2" using eq b p Done by (auto simp: interp_pass_instr split: if_splits)
          then show ?thesis unfolding stops_first_def using Done by (intro exI [of _ 0] exI [of _ r]) auto
        next
          case False
          then have "f b e s2 (c + 1) = Some p" using eq b p Done by (simp add: interp_pass_instr)
          then have "stops_first s2 s1" using IH b p by blast
          then show ?thesis using stops_first_later False Done by auto
        qed
      qed (use eq b p in \<open>auto simp: interp_pass_instr\<close>)
    qed
  qed
  with assms show ?thesis by blast
qed

lemma interp_run_error: "interp_run m s = Done r s1 \<Longrightarrow> r \<noteq> 0 \<Longrightarrow> interp_run (m + d) s = Done r s1"
  by (induction m arbitrary: s) (auto split: outcome.splits if_splits)

lemma interp_run_prefix:
  assumes "interp_run (m + d) s = Done 0 s'" "interp_run m s = Done r s1"
  shows "r = 0 \<and> interp_run d s1 = Done 0 s'"
  using assms interp_run_error [OF assms(2), of d] interp_run_add [of m s s1 d] by (cases "r = 0") auto

lemma interp_run_budget: "interp_run k s = Done r s' \<Longrightarrow> bench_budget s' = bench_budget s"
  by (induction k arbitrary: s) (auto split: outcome.splits if_splits dest: interp_instr_frame(2))

lemma interp_run_cap: "interp_run k s = Done r s' \<Longrightarrow> bench_clock_cap s' = bench_clock_cap s"
  by (induction k arbitrary: s) (auto split: outcome.splits if_splits dest: interp_instr_frame(3))


section \<open>The spinning program, to its end\<close>

definition spin_vm :: vm where
  "spin_vm = initial_vm (\<lambda>_. 0) (\<lambda>_. 0) (\<lambda>_. []) 1 BENCH_KEYS_NONE"

definition spinning :: "'a vm_scheme \<Rightarrow> bool" where
  "spinning s \<longleftrightarrow> memory s = memory (demo_vm [0x12, 0x00]) \<and> program_counter s = 0x200 \<and> bench_poll_clock s = 0"

lemma spinning_boot: "spinning (boot BENCH [0x12, 0x00] (initial_vm rnd clk polls budget km))"
  by (simp add: spinning_def demo_vm_def boot_BENCH) (simp add: initial_vm_def)

lemma spinning_instr:
  assumes "spinning s"
  obtains s' where "interp_instr s = Done 0 s'" "spinning s'"
proof -
  obtain q where q: "interp_instr s = basic_block BENCH q" "memory q = memory (demo_vm [0x12, 0x00])" "program_counter q = 0x200"
    "bench_poll_clock q = 0"
    using assms by (simp add: spinning_def interp_instr_def Let_def keys_now_eq)
  have "opcode_at q 0x200 = 0x1200" using demo_opcode [OF q(2)] by simp
  then have "basic_block BENCH q = jump BENCH (q\<lparr>opcode := 0x1200\<rparr>)"
    by (simp add: basic_block_def q(3) dispatch_def)
  then have "interp_instr s = Done 0 (sync_timers (q\<lparr>opcode := 0x1200\<rparr>)\<lparr>program_counter := 0x200\<rparr>)"
    by (simp add: q(1) jump_def imm12_def)
  moreover have "spinning (sync_timers (q\<lparr>opcode := 0x1200\<rparr>)\<lparr>program_counter := 0x200\<rparr>)"
    using q(2,4) by (simp add: spinning_def sync_timers_def Let_def)
  ultimately show thesis by (rule that)
qed

lemma spinning_run: "spinning s \<Longrightarrow> \<exists>s'. interp_run k s = Done 0 s' \<and> spinning s'"
proof (induction k arbitrary: s)
  case (Suc k)
  from spinning_instr [OF Suc.prems] obtain s' where s': "interp_instr s = Done 0 s'" "spinning s'" .
  from Suc.IH [OF s'(2)] show ?case by (simp add: s'(1))
qed simp

lemma spinning_codegen:
  assumes "spinning s" "agree s u"
  shows "fst (codegen BENCH u) = Generated (fst spin_trace) (snd spin_trace)"
proof -
  obtain ms opc where g: "gen BENCH spin 0x200 0 0 [] = (ms, opc, Generated (fst spin_trace) (snd spin_trace))"
    using spin_generated by (auto simp: codegen_def spin_def split: prod.splits)
  have "memory u = memory spin" "program_counter u = 0x200"
    using assms by (simp_all add: spinning_def agree_def spin_def)
  then show ?thesis using gen_cong [OF g refl, of u] by (simp add: codegen_def opcode_at_def mem_at_def)
qed

lemma spin_report:
  assumes "0 < budget" "65 * budget + 8192 < CLOCK_LIMIT"
  obtains u c where
    "jit_main gcc_demo BENCH [0x12, 0x00] (jit_start al e (initial_vm rnd clk polls budget km)) = Inr (Some (Report u c))"
    "bench_done u" "bench_poll_clock u = 0" "bench_budget u = budget" "bench_clock_cap u = budget * BENCH_CLOCK_CAP_FACTOR"
    "bench_retired u \<le> budget + BENCH_SAFEPOINT_INTERVAL + MEMORY_SIZE + 1"
proof -
  let ?s = "boot BENCH [0x12, 0x00] (initial_vm rnd clk polls budget km)"
  obtain p where p: "jit_main gcc_demo BENCH [0x12, 0x00] (jit_start al e (initial_vm rnd clk polls budget km)) = Inr (Some p)"
    "explains gcc_demo ?s p"
    using jit_explained [OF gcc_demo_ok _ assms, of "[0x12, 0x00]"] by blast
  have run: "\<exists>s'. interp_run k ?s = Done 0 s' \<and> spinning s'" for k by (rule spinning_run [OF spinning_boot])
  have code: "fst (codegen BENCH u) = Generated (fst spin_trace) (snd spin_trace)"
    if "interp_run k ?s = Done 0 s'" "agree s' u" for k s' and u :: jit
    using run [of k] that by (intro spinning_codegen [of s' u]) auto
  show thesis
  proof (cases p)
    case (Report u c)
    then obtain k s' where s': "interp_run k ?s = Done 0 s'" "agree s' u" "bench_done u \<or> uncompilable gcc_demo u"
      "bench_retired u \<le> bench_budget u + BENCH_SAFEPOINT_INTERVAL + MEMORY_SIZE + 1"
      using p(2) by auto
    have "bench_done u" using s'(3) code [OF s'(1,2)] by (auto simp: uncompilable_def gcc_demo_def)
    moreover have "bench_poll_clock s' = 0" using run [of k] s'(1) by (auto simp: spinning_def)
    moreover have "bench_budget s' = budget" "bench_clock_cap s' = budget * BENCH_CLOCK_CAP_FACTOR"
      using interp_run_budget [OF s'(1)] interp_run_cap [OF s'(1)] by (simp_all add: boot_BENCH initial_vm_def)
    moreover have "bench_poll_clock s' = bench_poll_clock u" "bench_budget s' = bench_budget u" "bench_clock_cap s' = bench_clock_cap u"
      using s'(2) by (simp_all add: agree_def)
    ultimately show thesis using that [OF p(1) [unfolded Report]] s'(4) by simp
  next
    case (Exit_error u)
    then obtain k r s' where "interp_run k ?s = Done r s'" "r \<noteq> 0" using p(2) by auto
    then show thesis using run [of k] by auto
  next
    case Undefined_run
    then obtain k where "interp_run k ?s = UB \<or>
        (\<exists>s' u. interp_run k ?s = Done 0 s' \<and> agree s' (u :: jit) \<and> fst (codegen BENCH u) = Out_of_bounds)"
      using p(2) by auto
    then show thesis using run [of k] code [of k] by auto
  qed (use p(2) in simp_all)
qed

lemma spin_jit:
  obtains u c where "jit_main gcc_demo BENCH [0x12, 0x00] (jit_start (\<lambda>_. False) False spin_vm) = Inr (Some (Report u c))"
    "bench_done u"
  by (rule spin_report [of 1, where al = "\<lambda>_. False" and e = False, folded spin_vm_def])
    (simp_all add: CLOCK_LIMIT_def BENCH_INSTR_PER_TICK_def spin_vm_def)

lemma jit_report_matches_witness:
  "\<exists>u c s. jit_main gcc_demo BENCH [0x12, 0x00] (jit_start (\<lambda>_. False) False spin_vm) = Inr (Some (Report u c)) \<and>
     interp_run (bench_retired u) (boot BENCH [0x12, 0x00] spin_vm) = Done 0 s \<and>
     bench_report ''x'' ''y'' 0 0 0 0 s = bench_report ''x'' ''y'' 0 0 0 0 u"
proof -
  obtain u c where u: "jit_main gcc_demo BENCH [0x12, 0x00] (jit_start (\<lambda>_. False) False spin_vm) = Inr (Some (Report u c))"
    by (rule spin_jit)
  then show ?thesis
    using jit_report_matches [OF gcc_demo_ok _ _ u [unfolded spin_vm_def], of "''x''" "''y''" 0 0 0 0]
    unfolding spin_vm_def by (auto simp: CLOCK_LIMIT_def BENCH_INSTR_PER_TICK_def)
qed

lemma spin_interp:
  obtains s1 where "interp_main BENCH False [0x12, 0x00] spin_vm = Inr (Some (Stop s1 1))"
proof -
  let ?s = "boot BENCH [0x12, 0x00] spin_vm"
  from spinning_instr [OF spinning_boot] obtain s1 where s1: "interp_instr ?s = Done 0 s1" unfolding spin_vm_def by metis
  have "bench_done s1"
    using interp_instr_frame [OF s1] by (simp add: bench_done_def boot_BENCH spin_vm_def initial_vm_def)
  then have "interp_loop BENCH False ?s 0 = Some (Stop s1 1)"
    by (subst interp_loop.simps) (simp add: interp_pass_instr s1)
  then show thesis by (intro that) (simp add: interp_main_def)
qed


end
