(* ===== verification/C8_Rerun.thy ===== *)
theory C8_Rerun
  imports C8_Jit_Thms
begin

text \<open>
  Runs under another budget. The interpreter looks at the budget only where it stops and where a
  wait for a key gives up, so a run that never gave up is the same run under any budget it does not
  exhaust: what the rerun of \<^verbatim>\<open>scripts/bench_diff.py\<close> rests on.
\<close>

section \<open>Another budget\<close>

definition rebudget :: "nat \<Rightarrow> nat \<Rightarrow> 'a vm_scheme \<Rightarrow> 'a vm_scheme" where
  "rebudget n m s = s\<lparr>bench_budget := n, bench_clock_cap := m\<rparr>"

lemma rebudget_simps [simp]:
  "bench_retired (rebudget n m s) = bench_retired s" "bench_now (rebudget n m s) = bench_now s"
  "memory (rebudget n m s) = memory s" "program_counter (rebudget n m s) = program_counter s"
  "bench_budget (rebudget n m s) = n" "bench_clock_cap (rebudget n m s) = m"
  "bench_done (rebudget n m s) \<longleftrightarrow> n \<le> bench_retired s \<or> m \<le> bench_now s"
  by (simp_all add: rebudget_def bench_now_def bench_done_def)

lemma rebudget_retire: "rebudget n m s\<lparr>bench_retired := i\<rparr> = rebudget n m (s\<lparr>bench_retired := i\<rparr>)"
  by (simp add: rebudget_def)

lemma rebudget_keys:
  "bench_keys_now (rebudget n m s) = map_prod id (rebudget n m) (bench_keys_now s)"
  by (simp add: rebudget_def bench_keys_now_def bench_roll_tick_def bench_now_def Let_def)

lemma rebudget_poll_keys:
  "bench_poll_keys (rebudget n m s) = map_prod id (rebudget n m) (bench_poll_keys s)"
  by (simp add: rebudget_def bench_poll_keys_def bench_keys_now_def bench_roll_tick_def bench_now_def Let_def)

lemma rebudget_sync: "sync_timers (rebudget n m s) = rebudget n m (sync_timers s)"
  by (simp add: rebudget_def sync_timers_def bench_tick_def bench_now_def Let_def)

text \<open>
  A wait for a key that both budgets judge alike: over for both at its first poll, or ended by a
  key with the run going on.
\<close>

definition same_wait :: "nat \<Rightarrow> nat \<Rightarrow> 'a vm_scheme \<Rightarrow> bool" where
  "same_wait n m s \<longleftrightarrow>
     (bench_budget s \<le> bench_retired s \<and> n \<le> bench_retired s) \<or>
     (bench_retired s < n \<and> bench_clock_cap s \<le> m \<and>
       (\<exists>keys s1. poll_loop BENCH (s\<lparr>opcode := 0\<rparr>) = Some (keys, s1) \<and> \<not> bench_done s1))"

lemma poll_loop_step:
  "bench_poll_keys u = (keys, u1) \<Longrightarrow>
    poll_loop BENCH u = (if bench_done u1 then Some (keys, u1) else if keys = 0 then poll_loop BENCH u1 else Some (keys, u1))"
  by (subst poll_loop.simps) simp

lemma poll_keys_opcode: "bench_poll_keys (s\<lparr>opcode := v\<rparr>) = map_prod id (\<lambda>u. u\<lparr>opcode := v\<rparr>) (bench_poll_keys s)"
  by (simp add: bench_poll_keys_def bench_keys_now_def bench_roll_tick_def bench_now_def Let_def)

lemma poll_loop_opcode:
  "poll_loop BENCH (s\<lparr>opcode := v\<rparr>) = map_option (map_prod id (\<lambda>u. u\<lparr>opcode := v\<rparr>)) (poll_loop BENCH s)"
proof (induction "bench_clock_cap s - bench_now s" arbitrary: s rule: less_induct)
  case less
  obtain keys s1 where k: "bench_poll_keys s = (keys, s1)" by fastforce
  then have kv: "bench_poll_keys (s\<lparr>opcode := v\<rparr>) = (keys, s1\<lparr>opcode := v\<rparr>)"
    by (simp add: poll_keys_opcode)
  have d: "bench_done (s1\<lparr>opcode := v\<rparr>) = bench_done s1" by (simp add: bench_done_def bench_now_def)
  show ?case
  proof (cases "bench_done s1 \<or> keys \<noteq> 0")
    case False
    then have "bench_clock_cap s1 - bench_now s1 < bench_clock_cap s - bench_now s"
      using poll_keys_clock [OF k] by (auto simp: bench_done_def bench_now_def bench_frame_def)
    from less [OF this] show ?thesis using False by (simp add: poll_loop_step [OF k] poll_loop_step [OF kv] d)
  qed (auto simp: poll_loop_step [OF k] poll_loop_step [OF kv] d)
qed

lemma rebudget_poll_loop:
  assumes "bench_retired s < n" "bench_clock_cap s \<le> m" "poll_loop BENCH s = Some (keys, s1)" "\<not> bench_done s1"
  shows "poll_loop BENCH (rebudget n m s) = Some (keys, rebudget n m s1)"
  using assms
proof (induction "bench_clock_cap s - bench_now s" arbitrary: s rule: less_induct)
  case less
  obtain k u where k: "bench_poll_keys s = (k, u)" by fastforce
  have kr: "bench_poll_keys (rebudget n m s) = (k, rebudget n m u)" using k by (simp add: rebudget_poll_keys)
  have fr: "bench_retired u = bench_retired s" "bench_clock_cap u = bench_clock_cap s" "bench_now u = Suc (bench_now s)"
    using poll_keys_clock [OF k] by (simp_all add: bench_now_def bench_frame_def)
  have nd: "\<not> bench_done u" using less.prems(3,4) by (auto simp: poll_loop_step [OF k] split: if_splits)
  then have nr: "\<not> bench_done (rebudget n m u)" using less.prems(1,2) fr by (simp add: bench_done_def)
  show ?case
  proof (cases "k = 0")
    case True
    then have "poll_loop BENCH u = Some (keys, s1)" using less.prems(3) nd by (simp add: poll_loop_step [OF k])
    moreover have "bench_clock_cap u - bench_now u < bench_clock_cap s - bench_now s" using nd fr unfolding bench_done_def by linarith
    ultimately have "poll_loop BENCH (rebudget n m u) = Some (keys, rebudget n m s1)"
      using less.prems(1,2,4) fr by (intro less.hyps) simp_all
    then show ?thesis using True nr by (simp add: poll_loop_step [OF kr])
  next
    case False
    then show ?thesis using less.prems(3) nd nr by (simp add: poll_loop_step [OF k] poll_loop_step [OF kr])
  qed
qed

lemma same_wait_poll:
  assumes "same_wait n m s"
  shows "poll_loop BENCH (rebudget n m s) = map_option (map_prod id (rebudget n m)) (poll_loop BENCH s)"
proof (cases "bench_budget s \<le> bench_retired s \<and> n \<le> bench_retired s")
  case True
  obtain k u where k: "bench_poll_keys s = (k, u)" by fastforce
  have kr: "bench_poll_keys (rebudget n m s) = (k, rebudget n m u)" using k by (simp add: rebudget_poll_keys)
  have "bench_retired u = bench_retired s" "bench_budget u = bench_budget s"
    using poll_keys_clock [OF k] by (simp_all add: bench_frame_def)
  with True have "bench_done u" "bench_done (rebudget n m u)" by (simp_all add: bench_done_def)
  then show ?thesis by (simp add: poll_loop_step [OF k] poll_loop_step [OF kr])
next
  case False
  then obtain keys s1 where s1: "bench_retired s < n" "bench_clock_cap s \<le> m"
    "poll_loop BENCH (s\<lparr>opcode := 0\<rparr>) = Some (keys, s1)" "\<not> bench_done s1" using assms by (auto simp: same_wait_def)
  have "s = s\<lparr>opcode := 0\<rparr>\<lparr>opcode := opcode s\<rparr>" by simp
  then have "poll_loop BENCH s = Some (keys, s1\<lparr>opcode := opcode s\<rparr>)"
    using poll_loop_opcode [where s = "s\<lparr>opcode := 0\<rparr>" and v = "opcode s"] s1(3) by simp
  with rebudget_poll_loop [OF s1(1,2) this] s1(4) show ?thesis by (simp add: bench_done_def bench_now_def)
qed

interpretation rb: vm_congruence BENCH "\<lambda>s t. t = rebudget n m s" "same_wait n m" for n m
proof (unfold_locales, goal_cases)
  case (9 s t)
  then show ?case by (simp add: rand_def rebudget_def)
next
  case (10 s t)
  then show ?case by (simp add: rebudget_sync)
next
  case (11 s t)
  then show ?case by (simp add: timer_access_def rebudget_sync, simp add: rebudget_def)
next
  case (12 s t d)
  then show ?case by (simp add: timer_access_def rebudget_sync, simp add: rebudget_def)
next
  case (13 s t d)
  then show ?case by (simp add: timer_access_def rebudget_sync, simp add: rebudget_def)
next
  case (14 s t)
  then show ?case by (simp add: rebudget_keys)
next
  case (15 s t key)
  then show ?case by (simp add: bench_clear_key_def rebudget_def bench_roll_tick_def bench_now_def Let_def)
next
  case (16 s t)
  then show ?case by (cases "poll_loop BENCH s") (auto simp: same_wait_poll)
next
  case (18 s t)
  then show ?case by (simp add: clearscreen_io_bench_def rebudget_def)
next
  case (19 s t x y n' mem)
  then show ?case by (simp add: draw_io_bench_def rebudget_def split: prod.splits)
next
  case (20 s t)
  then show ?case by (simp add: frame_sync_def)
qed (simp_all add: rebudget_def same_wait_def)

section \<open>An instruction\<close>

lemma done_fold_take_key: "bench_done (fold (take_key BENCH x keys) is s) = bench_done s"
  by (induction "is" arbitrary: s)
    (simp_all add: take_key_def Let_def bench_done_def bench_now_def bench_clear_key_def bench_roll_tick_def)

lemma load_on_key_uncut:
  assumes "load_on_key BENCH s = Done r s2" "\<not> bench_done s2"
  shows "\<exists>keys s1. poll_loop BENCH s = Some (keys, s1) \<and> \<not> bench_done s1"
proof -
  obtain keys s1 where p: "poll_loop BENCH s = Some (keys, s1)" using assms(1) by (auto simp: load_on_key_def split: option.splits)
  let ?u = "fold (take_key BENCH (op_x (opcode s)) keys) [0..<16] s1"
  have "bench_done s2 = bench_done ?u"
    using assms(1) p by (auto simp: load_on_key_def Let_def ERROR_def STEP_def bench_done_def bench_now_def simp del: fold_simps upt_rec_numeral split: if_splits)
  then show ?thesis using assms(2) p by (simp add: done_fold_take_key)
qed

lemma basic_block_wait:
  assumes "waits s"
  shows "basic_block b s = load_on_key b (s\<lparr>opcode := opcode_at s (program_counter s)\<rparr>)"
proof -
  let ?opc = "opcode_at s (program_counter s)"
  have "?opc \<noteq> 0xe0" "?opc \<noteq> 0xee" using assms by (auto simp: waits_def key_wait_def)
  then show ?thesis using assms by (simp add: basic_block_def dispatch_def Let_def waits_def key_wait_def op_f_def)
qed

lemma instr_rebudget:
  assumes "waits s \<Longrightarrow> bench_budget s \<le> bench_retired s + 1 \<and> n \<le> bench_retired s + 1 \<or>
      bench_retired s + 1 < n \<and> bench_clock_cap s \<le> m \<and> (\<exists>r s2. interp_instr s = Done r s2 \<and> \<not> bench_done s2)"
  shows "interp_instr (rebudget n m s) = outcome_map (rebudget n m) (interp_instr s)"
proof -
  let ?s1 = "snd (bench_keys_now s)"
  define u where "u = ?s1\<lparr>bench_retired := bench_retired ?s1 + 1\<rparr>"
  have u: "bench_retired u = bench_retired s + 1" "bench_budget u = bench_budget s" "bench_clock_cap u = bench_clock_cap s"
    "waits u = waits s"
    by (simp_all add: u_def keys_now_eq waits_def opcode_at_def mem_at_def)
  have eq: "interp_instr (rebudget n m s) = basic_block BENCH (rebudget n m u)" "interp_instr s = basic_block BENCH u"
    by (simp_all add: u_def interp_instr_def rebudget_keys rebudget_retire Let_def)
  have "same_wait n m u" if w: "waits u"
  proof -
    from assms w u consider "bench_budget s \<le> bench_retired s + 1" "n \<le> bench_retired s + 1"
      | r s2 where "bench_retired s + 1 < n" "bench_clock_cap s \<le> m" "interp_instr s = Done r s2" "\<not> bench_done s2" by blast
    then show ?thesis
    proof cases
      case 1
      then show ?thesis using u by (simp add: same_wait_def)
    next
      case 2
      let ?v = "opcode_at u (program_counter u)"
      obtain keys s3 where s3: "poll_loop BENCH (u\<lparr>opcode := ?v\<rparr>) = Some (keys, s3)" "\<not> bench_done s3"
        using load_on_key_uncut [of "u\<lparr>opcode := ?v\<rparr>" r s2] 2(3,4) unfolding eq basic_block_wait [OF w] by blast
      have "\<exists>k s4. poll_loop BENCH (u\<lparr>opcode := 0\<rparr>) = Some (k, s4) \<and> \<not> bench_done s4"
        using poll_loop_opcode [where s = "u\<lparr>opcode := ?v\<rparr>" and v = 0] s3 by (simp add: bench_done_def bench_now_def)
      then show ?thesis using 2(1,2) u by (simp add: same_wait_def)
    qed
  qed
  from rb.rel_basic_block [OF refl, of u n m] this show ?thesis
    unfolding eq by (cases "basic_block BENCH u"; cases "basic_block BENCH (rebudget n m u)") auto
qed

section \<open>A run\<close>

lemma instr_clock: "interp_instr s = Done r s' \<Longrightarrow> bench_now s < bench_now s'"
  using basic_block_frame(2) [of BENCH _ r s'] interp_instr_frame(1) [of s r s']
  by (fastforce simp: interp_instr_def Let_def keys_now_eq bench_now_def)

lemma run_clock: "interp_run k s = Done 0 s' \<Longrightarrow> bench_now s + k \<le> bench_now s'"
proof (induction k arbitrary: s)
  case (Suc k)
  then obtain s1 where s1: "interp_instr s = Done 0 s1" "interp_run k s1 = Done 0 s'"
    by (auto split: outcome.splits if_splits)
  from Suc.IH [OF s1(2)] instr_clock [OF s1(1)] show ?case by simp
qed simp

lemma uncut_tail: "interp_instr s = Done 0 s1 \<Longrightarrow> uncut (Suc k) s \<Longrightarrow> uncut k s1"
  by (rule uncutI, rule uncutD [of "Suc k" s "Suc i" for i]) auto

text \<open>
  A run of \<open>k\<close> instructions that reaches its own budget, with no wait cut short before the last, is
  the run under the budget \<open>k\<close>.
\<close>

lemma run_rebudget:
  assumes "interp_run k s = Done 0 s'" "uncut (k - 1) s" "bench_retired s + k = n" "bench_budget s \<le> n" "bench_clock_cap s \<le> m"
  shows "interp_run k (rebudget n m s) = Done 0 (rebudget n m s')"
  using assms
proof (induction k arbitrary: s)
  case (Suc k)
  then obtain s1 where s1: "interp_instr s = Done 0 s1" "interp_run k s1 = Done 0 s'"
    by (auto split: outcome.splits if_splits)
  have fr: "bench_retired s1 = bench_retired s + 1" "bench_budget s1 = bench_budget s" "bench_clock_cap s1 = bench_clock_cap s"
    using interp_instr_frame [OF s1(1)] by simp_all
  have "interp_instr (rebudget n m s) = outcome_map (rebudget n m) (interp_instr s)"
  proof (rule instr_rebudget)
    assume w: "waits s"
    show "bench_budget s \<le> bench_retired s + 1 \<and> n \<le> bench_retired s + 1 \<or>
      bench_retired s + 1 < n \<and> bench_clock_cap s \<le> m \<and> (\<exists>r s2. interp_instr s = Done r s2 \<and> \<not> bench_done s2)"
    proof (cases k)
      case 0
      then show ?thesis using Suc.prems(3,4) by simp
    next
      case (Suc j)
      then have "\<not> bench_done s1" using Suc.prems(2) w s1(1) by (intro uncutD [of "Suc j" s 0]) auto
      then show ?thesis using Suc Suc.prems(3,5) s1(1) by auto
    qed
  qed
  moreover have "uncut (k - 1) s1" using uncut_tail [OF s1(1), of "k - 1"] Suc.prems(2) by (cases k) simp_all
  ultimately show ?case using Suc.IH [OF s1(2)] Suc.prems(3-5) fr s1(1) by simp
qed simp

lemma loop_of_run:
  assumes "interp_run (Suc k) s = Done 0 s'" "bench_done s'"
    "\<And>i s1. 0 < i \<Longrightarrow> i \<le> k \<Longrightarrow> interp_run i s = Done 0 s1 \<Longrightarrow> \<not> bench_done s1"
  shows "interp_loop BENCH e s c = Some (Stop s' (c + Suc k))"
  using assms
proof (induction k arbitrary: s c)
  case 0
  then have "interp_instr s = Done 0 s'" by (auto split: outcome.splits if_splits)
  then show ?case using 0(2) by (subst interp_loop.simps) (simp add: interp_pass_instr)
next
  case (Suc k)
  obtain s1 where s1: "interp_instr s = Done 0 s1" "interp_run (Suc k) s1 = Done 0 s'"
    using Suc.prems(1) unfolding interp_run.simps(2) [of "Suc k"] by (auto split: outcome.splits if_splits simp del: interp_run.simps)
  have "\<not> bench_done s1" using Suc.prems(3) [of 1 s1] s1(1) by simp
  moreover have "interp_loop BENCH e s1 (c + 1) = Some (Stop s' (c + 1 + Suc k))"
    by (rule Suc.IH [OF s1(2) Suc.prems(2)]) (use Suc.prems(3) [of "Suc i" for i] s1(1) in auto)
  ultimately show ?case by (subst interp_loop.simps) (simp add: interp_pass_instr s1(1))
qed

lemma rerun:
  assumes "interp_run k s = Done 0 s'" "uncut (k - 1) s" "bench_retired s = 0" "0 < k" "bench_budget s \<le> k" "bench_clock_cap s \<le> m"
    "bench_now s' < m"
  shows "interp_loop BENCH e (rebudget k m s) 0 = Some (Stop (rebudget k m s') k)"
proof -
  obtain j where j: "k = Suc j" using assms(4) by (cases k) auto
  have run: "interp_run k (rebudget k m s) = Done 0 (rebudget k m s')" by (rule run_rebudget [OF assms(1,2)]) (use assms in auto)
  have "bench_retired s' = k" using interp_run_retired [OF assms(1)] assms(3) by simp
  moreover have "\<not> bench_done s1" if i: "0 < i" "i \<le> j" "interp_run i (rebudget k m s) = Done 0 s1" for i s1
  proof -
    have "interp_run (k - i) s1 = Done 0 (rebudget k m s')" using interp_run_add [OF i(3), of "k - i"] run i(2) j by simp
    from run_clock [OF this] assms(7) have now: "bench_now s1 < m" by simp
    have "bench_retired s1 = i" using interp_run_retired [OF i(3)] assms(3) by simp
    moreover have "bench_budget s1 = k" using interp_run_budget [OF i(3)] by simp
    moreover have "bench_clock_cap s1 = m"
      using i(3) interp_run_cap by fastforce
    ultimately show ?thesis using now i(2) j by (simp add: bench_done_def)
  qed
  ultimately show ?thesis using loop_of_run [of j "rebudget k m s" "rebudget k m s'" e 0] run j by simp
qed

end
