(* ===== verification/C8_Llvm_Twin.thy ===== *)
theory C8_Llvm_Twin
  imports C8_Llvm C8_Interp_Rel
begin

text \<open>
  The host helpers of the two trace compilers are the same program: from states that agree on
  everything but the form of the cached traces they come to such states.
\<close>

section \<open>States of the two engines\<close>

text \<open>The virtual machine but for the global \<^verbatim>\<open>op\<close>.\<close>

definition machine :: "'a vm_scheme \<Rightarrow> vm" where
  "machine s = (vm.truncate s)\<lparr>opcode := 0\<rparr>"

definition twin :: "(u16 \<Rightarrow> trace option) \<Rightarrow> (u16 \<Rightarrow> l_trace option) \<Rightarrow> 'a jit_scheme \<Rightarrow> 'c llvm_scheme \<Rightarrow> bool" where
  "twin G L s t \<longleftrightarrow> machine s = machine t \<and>
     alarm_seq s = l_alarm_seq t \<and> alarm_pos s = l_alarm_pos t \<and> interrupt_pending s = l_interrupt_pending t \<and>
     program_over s = l_program_over t \<and> smc_pending s = l_smc_pending t \<and> elide_idle s = l_elide_idle t \<and>
     code_bytes s = l_code_bytes t \<and> bench_compiled s = l_bench_compiled t \<and> bench_flushes s = l_bench_flushes t \<and>
     trace_cache s = G \<and> l_trace_cache t = L"

lemmas twin_unfold = twin_def machine_def vm.truncate_def

lemma twin_vm:
  assumes "twin G L s t"
  shows "regs s = regs t" "memory s = memory t" "stack s = stack t" "stack_pointer s = stack_pointer t" "addr s = addr t"
    "program_counter s = program_counter t" "opcode_at s a = opcode_at t a" "delay_timer s = delay_timer t" "sound_timer s = sound_timer t"
    "last_tick s = last_tick t" "bench_retired s = bench_retired t" "bench_next_safepoint s = bench_next_safepoint t"
    "bench_budget s = bench_budget t"
  using assms by (simp_all add: twin_unfold opcode_at_def mem_at_def)

lemma twin_engine:
  assumes "twin G L s t"
  shows "interrupt_pending s = l_interrupt_pending t" "program_over s = l_program_over t" "smc_pending s = l_smc_pending t"
    "elide_idle s = l_elide_idle t" "code_bytes s = l_code_bytes t" "alarm_seq s = l_alarm_seq t" "alarm_pos s = l_alarm_pos t"
    "bench_compiled s = l_bench_compiled t" "bench_flushes s = l_bench_flushes t" "trace_cache s = G" "l_trace_cache t = L"
  using assms by (simp_all add: twin_def)

lemma twin_upds:
  assumes "twin G L s t"
  shows "twin G L (s\<lparr>interrupt_pending := v\<rparr>) (t\<lparr>l_interrupt_pending := v\<rparr>)"
    "twin G L (s\<lparr>program_over := v\<rparr>) (t\<lparr>l_program_over := v\<rparr>)"
    "twin G L (s\<lparr>smc_pending := v\<rparr>) (t\<lparr>l_smc_pending := v\<rparr>)"
    "twin G L (s\<lparr>code_bytes := c\<rparr>) (t\<lparr>l_code_bytes := c\<rparr>)"
    "twin G L (s\<lparr>bench_retired := n\<rparr>) (t\<lparr>bench_retired := n\<rparr>)"
    "twin G L (s\<lparr>bench_next_safepoint := n\<rparr>) (t\<lparr>bench_next_safepoint := n\<rparr>)"
    "twin G L (s\<lparr>delay_timer := d\<rparr>) (t\<lparr>delay_timer := d\<rparr>)"
    "twin G L (s\<lparr>sound_timer := d\<rparr>) (t\<lparr>sound_timer := d\<rparr>)"
    "twin G L (s\<lparr>last_tick := i\<rparr>) (t\<lparr>last_tick := i\<rparr>)"
    "twin G L (s\<lparr>clock_pos := n\<rparr>) (t\<lparr>clock_pos := n\<rparr>)"
  using assms by (simp_all add: twin_unfold)

lemma twin_alarm: "twin G L s t \<Longrightarrow> twin G L (alarm s) (l_alarm t)"
  by (simp add: twin_unfold alarm_def l_alarm_def)

lemma twin_sync: "twin G L s t \<Longrightarrow> twin G L (sync_timers s) (sync_timers t)"
  by (simp add: twin_unfold sync_timers_def bench_tick_def bench_now_def Let_def)

lemma twin_done: "twin G L s t \<Longrightarrow> bench_done s = bench_done t"
  by (simp add: twin_unfold bench_done_def bench_now_def)

lemma twin_read_keys:
  "twin G L s t \<Longrightarrow> fst (read_keys_io b s) = fst (read_keys_io b t) \<and> twin G L (snd (read_keys_io b s)) (snd (read_keys_io b t))"
  by (cases b) (simp_all add: twin_unfold bench_poll_keys_def bench_keys_now_def bench_roll_tick_def bench_now_def
      read_keys_ncurses_def Let_def)

section \<open>Waiting\<close>

text \<open>A relation the clock respects carries over what the wait for a tick comes to.\<close>

lemma wait_tick_related:
  fixes s :: "'a vm_scheme" and t :: "'c vm_scheme"
  assumes step: "\<And>s t. Q s t \<Longrightarrow> last_tick (s :: 'a vm_scheme) = last_tick (t :: 'c vm_scheme) \<and>
      fst (tick INTERACTIVE s) = fst (tick INTERACTIVE t) \<and> Q (snd (tick INTERACTIVE s)) (snd (tick INTERACTIVE t))"
    and "wait_tick s = Some r" "Q s t"
  shows "\<exists>t'. wait_tick t = Some (fst r, t') \<and> Q (snd r) t'"
proof -
  have "\<forall>t. Q s t \<longrightarrow> (\<exists>t'. wait_tick t = Some (fst r, t') \<and> Q (snd r) t')"
  proof (rule wait_tick.raw_induct [OF _ assms(2)])
    fix f and s :: "'a vm_scheme" and r
    assume IH: "\<And>s r. f s = Some r \<Longrightarrow> \<forall>t. Q s t \<longrightarrow> (\<exists>t'. wait_tick t = Some (fst r, t') \<and> Q (snd r) t')"
      and eq: "(let (current_tick, s1) = tick INTERACTIVE s
        in if current_tick = last_tick s1 then f s1 else Some (current_tick, s1)) = Some r"
    show "\<forall>t. Q s t \<longrightarrow> (\<exists>t'. wait_tick t = Some (fst r, t') \<and> Q (snd r) t')"
    proof (intro allI impI)
      fix t assume "Q s t"
      from step [OF this] have q: "fst (tick INTERACTIVE s) = fst (tick INTERACTIVE t)" "Q (snd (tick INTERACTIVE s)) (snd (tick INTERACTIVE t))"
        by blast+
      have lt: "last_tick (snd (tick INTERACTIVE s)) = last_tick (snd (tick INTERACTIVE t))" using step [OF q(2)] by blast
      have unf: "wait_tick t = (if fst (tick INTERACTIVE t) = last_tick (snd (tick INTERACTIVE t))
          then wait_tick (snd (tick INTERACTIVE t)) else Some (tick INTERACTIVE t))"
        by (subst wait_tick.simps) (simp add: split_beta)
      show "\<exists>t'. wait_tick t = Some (fst r, t') \<and> Q (snd r) t'"
      proof (cases "fst (tick INTERACTIVE s) = last_tick (snd (tick INTERACTIVE s))")
        case True
        then have "f (snd (tick INTERACTIVE s)) = Some r" using eq by (simp add: split_beta del: tick.simps)
        from IH [OF this] q(2) True q(1) lt show ?thesis by (simp add: unf del: tick.simps)
      next
        case False
        then have "r = tick INTERACTIVE s" using eq by (simp add: split_beta del: tick.simps)
        with False q lt show ?thesis by (intro exI [of _ "snd (tick INTERACTIVE t)"]) (simp add: unf del: tick.simps)
      qed
    qed
  qed
  with assms(3) show ?thesis by blast
qed

lemma twin_tick:
  assumes "twin G L s t"
  shows "last_tick s = last_tick t \<and> fst (tick INTERACTIVE s) = fst (tick INTERACTIVE t) \<and>
    twin G L (snd (tick INTERACTIVE s)) (snd (tick INTERACTIVE t))"
  using assms by (simp add: twin_unfold)

lemma twin_frame_sync:
  assumes "twin G L s t"
  shows "rel_option (twin G L) (frame_sync b s) (frame_sync b t)"
proof (cases "wait_tick s")
  case None
  have "wait_tick t = None"
  proof (rule ccontr)
    assume "wait_tick t \<noteq> None"
    then obtain r where "wait_tick t = Some r" by blast
    from wait_tick_related [OF _ this, of "\<lambda>t s. twin G L s t" s] assms twin_tick None show False by fastforce
  qed
  with None assms show ?thesis by (simp add: frame_sync_def)
next
  case (Some r)
  from wait_tick_related [OF twin_tick this assms] obtain t' where
    "wait_tick t = Some (fst r, t')" "twin G L (snd r) t'" by blast
  with Some assms show ?thesis by (cases r) (simp add: frame_sync_def twin_upds)
qed

text \<open>The two states respect every service of the interpreter.\<close>

interpretation tw: vm_congruence b "twin G L" "\<lambda>_. False" for b G L
proof (unfold_locales, goal_cases)
  case (9 s t)
  then show ?case by (simp add: rand_def twin_unfold)
next
  case (10 s t)
  then show ?case
    by (cases b) (simp_all add: twin_sync, simp add: twin_unfold read_keys_ncurses_def Let_def)
next
  case (11 s t)
  then show ?case using twin_sync [of G L s t] twin_vm(8) [of G L s t] twin_vm(8) [of G L "sync_timers s" "sync_timers t"]
    by (simp add: timer_access_def)
next
  case (12 s t d)
  then show ?case using twin_sync [of G L s t] by (simp add: timer_access_def twin_upds)
next
  case (13 s t d)
  then show ?case using twin_sync [of G L s t] by (simp add: timer_access_def twin_upds)
next
  case (14 s t)
  then show ?case
    by (cases b) (simp_all add: twin_unfold bench_keys_now_def bench_roll_tick_def bench_now_def Let_def)
next
  case (15 s t key)
  then show ?case
    by (cases b) (simp_all add: twin_unfold bench_clear_key_def bench_roll_tick_def bench_now_def Let_def)
next
  case (18 s t)
  then show ?case by (cases b) (simp_all add: clearscreen_io_bench_def clearscreen_io_ncurses_def twin_unfold)
next
  case (19 s t x y n mem)
  then show ?case by (cases b) (simp_all add: draw_io_bench_def draw_io_ncurses_def twin_unfold split_beta)
next
  case (20 s t)
  then show ?case by (rule twin_frame_sync)
qed (simp_all add: twin_unfold)

section \<open>Helpers\<close>

text \<open>What the first comes to, the second comes to.\<close>

definition implied :: "('x \<Rightarrow> 'y \<Rightarrow> bool) \<Rightarrow> 'x option \<Rightarrow> 'y option \<Rightarrow> bool" where
  "implied R p q \<longleftrightarrow> (\<forall>x. p = Some x \<longrightarrow> (\<exists>y. q = Some y \<and> R x y))"

lemma implied_simps [simp]:
  "implied R None q" "implied R (Some x) (Some y) = R x y" "implied R (Some x) None = False"
  by (simp_all add: implied_def)

lemma implied_map: "implied R p q \<Longrightarrow> (\<And>x y. R x y \<Longrightarrow> S (f x) (g y)) \<Longrightarrow> implied S (map_option f p) (map_option g q)"
  by (fastforce simp: implied_def)

lemma implied_rel: "rel_option R p q \<Longrightarrow> implied R p q"
  by (cases p; cases q) simp_all

lemma twin_refetch: "twin G L s t \<Longrightarrow> twin G L (refetch s) t"
  by (simp add: twin_unfold refetch_def)

lemma twin_op: "twin G L s t \<Longrightarrow> opcode (refetch s) = l_op t"
  using twin_vm(6,7) [of G L s t] by (simp add: refetch_def l_op_def)

lemma twin_check_interrupt:
  assumes "twin G L s t"
  shows "twin G L (check_interrupt b s) (l_check_interrupt b t)"
proof (cases b)
  case BENCH
  have "twin G L (interrupt BENCH s) (interrupt BENCH t)" by (rule tw.R_interrupt [OF assms])
  then show ?thesis
    using twin_done [of G L "interrupt BENCH s" "interrupt BENCH t"]
    by (simp add: BENCH check_interrupt_def l_check_interrupt_def Let_def twin_upds del: interrupt.simps)
next
  case INTERACTIVE
  define s1 t1 where "s1 = alarm s" "t1 = l_alarm t"
  have st1: "twin G L s1 t1" unfolding s1_t1_def by (rule twin_alarm [OF assms])
  define s2 t2 where "s2 = interrupt INTERACTIVE (s1\<lparr>interrupt_pending := False\<rparr>)"
    "t2 = interrupt INTERACTIVE (t1\<lparr>l_interrupt_pending := False\<rparr>)"
  have st2: "twin G L s2 t2" unfolding s2_t2_def by (rule tw.R_interrupt [OF twin_upds(1) [OF st1]])
  have k: "fst (all_keys_down INTERACTIVE s2) = fst (all_keys_down INTERACTIVE t2)" using tw.R_keys [OF st2] by blast
  have "check_interrupt INTERACTIVE s = (if interrupt_pending s1
      then if fst (all_keys_down INTERACTIVE s2) AND QUIT \<noteq> 0 then s2\<lparr>program_over := True\<rparr> else s2 else s1)"
    by (simp add: check_interrupt_def Let_def s1_t1_def s2_t2_def del: interrupt.simps all_keys_down.simps)
  moreover have "l_check_interrupt INTERACTIVE t = (if l_interrupt_pending t1
      then if fst (all_keys_down INTERACTIVE t2) AND QUIT \<noteq> 0 then t2\<lparr>l_program_over := True\<rparr> else t2 else t1)"
    by (simp add: l_check_interrupt_def Let_def s1_t1_def s2_t2_def del: interrupt.simps all_keys_down.simps)
  ultimately show ?thesis
    using st1 st2 k twin_engine(1) [OF st1] by (simp add: INTERACTIVE twin_upds del: all_keys_down.simps)
qed

lemma twin_bench_safepoint: "twin G L s t \<Longrightarrow> twin G L (bench_safepoint s) (l_bench_safepoint t)"
proof -
  assume "twin G L s t"
  then have "twin G L (check_interrupt BENCH s) (l_check_interrupt BENCH t)" by (rule twin_check_interrupt)
  moreover have "twin G L u v \<Longrightarrow> twin G L (bench_advance_safepoint u) (bench_advance_safepoint v)" for u v
    by (simp add: twin_unfold bench_advance_safepoint_def)
  ultimately show ?thesis by (simp add: bench_safepoint_def l_bench_safepoint_def)
qed

lemma twin_note_store: "twin G L s t \<Longrightarrow> twin G L (note_store a n s) (l_note_store a n t)"
  using twin_engine(5) [of G L s t] by (simp add: note_store_def l_note_store_def twin_upds)

lemma twin_mark_code: "twin G L s t \<Longrightarrow> twin G L (jit_mark_code a n s) (l_mark_code a n t)"
  using twin_engine(5) [of G L s t] by (simp add: jit_mark_code_def l_mark_code_def twin_upds)

lemma twin_retern: "twin G L s t \<Longrightarrow> rel_run (twin G L) (jit_retern b s) (l_retern b t)"
proof -
  assume "twin G L s t"
  then have st: "twin G L (check_interrupt b s) (l_check_interrupt b t)" by (rule twin_check_interrupt)
  show ?thesis
    unfolding jit_retern_def l_retern_def Let_def
    using st twin_vm(3,4) [OF st] by (simp add: errer_def l_errer_def tw.R_upds)
qed

lemma twin_call: "twin G L s t \<Longrightarrow> rel_run (twin G L) (jit_call b s) (l_call b t)"
proof -
  assume "twin G L s t"
  note tw = this
  then have st: "twin G L (check_interrupt b (refetch s)) (l_check_interrupt b t)" by (rule twin_check_interrupt [OF twin_refetch])
  show ?thesis
    unfolding jit_call_def l_call_def Let_def
    using st twin_vm(3,4,6) [OF st] twin_op [OF tw] by (simp add: errer_def l_errer_def tw.R_upds)
qed

lemma twin_random_byte: "twin G L s t \<Longrightarrow> twin G L (jit_random_byte s) (l_random_byte t)"
proof -
  assume st: "twin G L s t"
  note rf = twin_refetch [OF st]
  show ?thesis
    unfolding jit_random_byte_def l_random_byte_def Let_def split_beta twin_op [OF st]
    using tw.R_rand [OF rf] by (simp add: tw.R_upds)
qed

lemma twin_pc_add: "twin G L s t \<Longrightarrow> twin G L (s\<lparr>program_counter := program_counter s + 2\<rparr>) (t\<lparr>program_counter := program_counter t + 2\<rparr>)"
  using twin_vm(6) [of G L s t] by (simp add: tw.R_pc)

lemma twin_pc_add4: "twin G L s t \<Longrightarrow> twin G L (s\<lparr>program_counter := 4 + program_counter s\<rparr>) (t\<lparr>program_counter := 4 + program_counter t\<rparr>)"
  using twin_vm(6) [of G L s t] by (simp add: tw.R_pc)

lemma twin_store_bcd: "twin G L s t \<Longrightarrow> twin G L (jit_store_bcd s) (l_store_bcd t)"
proof -
  assume st: "twin G L s t"
  then have "twin G L (note_store (addr s) 3 (refetch s)) (l_note_store (addr t) 3 t)"
    using twin_note_store [OF twin_refetch] twin_vm(5) [of G L s t] by metis
  note n = this twin_vm [OF this]
  have op: "opcode (note_store (addr s) 3 (refetch s)) = l_op t" using twin_op [OF st] by (simp add: note_store_def)
  show ?thesis
    unfolding jit_store_bcd_def l_store_bcd_def Let_def n(2,6) op
    by (rule twin_pc_add) (simp add: tw.R_upds n(1))
qed

lemma twin_moves:
  assumes "twin G L s t"
  shows "twin G L (fold (\<lambda>i t. mem_set (addr t + of_nat i) (regs t ! i) t) is s)
      (fold (\<lambda>i t. mem_set (addr t + of_nat i) (regs t ! i) t) is t)"
    "twin G L (fold (\<lambda>i t. set_reg i (mem_at t (addr t + of_nat i)) t) is s)
      (fold (\<lambda>i t. set_reg i (mem_at t (addr t + of_nat i)) t) is t)"
  using assms
  by (induction "is" arbitrary: s t) (simp_all add: tw.R_upds twin_vm mem_at_def)

lemma twin_save_registers: "twin G L s t \<Longrightarrow> twin G L (jit_save_registers s) (l_save_registers t)"
proof -
  assume st: "twin G L s t"
  note rf = twin_refetch [OF st]
  show ?thesis
    unfolding jit_save_registers_def l_save_registers_def Let_def twin_vm(5) [OF rf] twin_op [OF st]
    by (rule twin_pc_add, rule twin_moves, rule twin_note_store, rule rf)
qed

lemma twin_restore_registers: "twin G L s t \<Longrightarrow> twin G L (jit_restore_registers s) (l_restore_registers t)"
proof -
  assume st: "twin G L s t"
  note rf = twin_refetch [OF st]
  show ?thesis
    unfolding jit_restore_registers_def l_restore_registers_def Let_def twin_op [OF st]
    by (rule twin_moves, rule rf)
qed

lemma twin_skip_key_x: "twin G L s t \<Longrightarrow> rel_run (twin G L) (jit_skip_key_x b up s) (l_skip_key_x b up t)"
proof -
  assume st: "twin G L s t"
  note rf = twin_refetch [OF st]
  obtain k s1 t1 where e: "all_keys_down b (refetch s) = (k, s1)" "all_keys_down b t = (k, t1)" and r: "twin G L s1 t1"
    using tw.R_keys [OF rf] by (metis prod.collapse)
  have "twin G L (clear_key b v s1) (clear_key b v t1)" for v by (rule tw.R_clear [OF r])
  then show ?thesis
    using r by (simp add: twin_pc_add twin_pc_add4 jit_skip_key_x_def l_skip_key_x_def Let_def e twin_vm(1) [OF rf] twin_op [OF st] del: all_keys_down.simps clear_key.simps)
qed

lemma twin_poll_loop:
  fixes t :: "'c llvm_scheme"
  assumes "jit_poll_loop b s = Some r" "twin G L s t"
  shows "\<exists>t'. l_poll_loop b t = Some (fst r, t') \<and> twin G L (snd r) t'"
proof -
  have "\<forall>t :: 'c llvm_scheme. twin G L s t \<longrightarrow> (\<exists>t'. l_poll_loop b t = Some (fst r, t') \<and> twin G L (snd r) t')"
  proof (rule jit_poll_loop.raw_induct [OF _ assms(1)])
    fix f and b and s :: "'a jit_scheme" and r
    assume IH: "\<And>b s r. f b s = Some r \<Longrightarrow> \<forall>t :: 'c llvm_scheme. twin G L s t \<longrightarrow> (\<exists>t'. l_poll_loop b t = Some (fst r, t') \<and> twin G L (snd r) t')"
      and eq: "(let (all_keys, s1) = read_keys_io b s in
        if b = BENCH \<and> bench_done s1 then Some (all_keys, s1\<lparr>program_over := True\<rparr>)
        else if all_keys = 0 then f b s1 else Some (all_keys, s1)) = Some r"
    show "\<forall>t :: 'c llvm_scheme. twin G L s t \<longrightarrow> (\<exists>t'. l_poll_loop b t = Some (fst r, t') \<and> twin G L (snd r) t')"
    proof (intro allI impI)
      fix t :: "'c llvm_scheme" assume "twin G L s t"
      then obtain k s1 t1 where e: "read_keys_io b s = (k, s1)" "read_keys_io b t = (k, t1)" and st1: "twin G L s1 t1"
        using twin_read_keys [of G L s t b] by (metis prod.collapse)
      have unf: "l_poll_loop b t = (if b = BENCH \<and> bench_done t1 then Some (k, t1\<lparr>l_program_over := True\<rparr>)
          else if k = 0 then l_poll_loop b t1 else Some (k, t1))"
        by (subst l_poll_loop.simps) (simp add: e)
      show "\<exists>t'. l_poll_loop b t = Some (fst r, t') \<and> twin G L (snd r) t'"
        unfolding unf using eq IH [of b s1 r] st1 twin_done [OF st1]
        by (auto simp: e twin_upds split: if_splits)
    qed
  qed
  with assms(2) show ?thesis by blast
qed

lemma twin_load_on_key: "twin G L s t \<Longrightarrow> implied (rel_run (twin G L)) (jit_load_on_key b s) (l_load_on_key b t)"
proof -
  assume st: "twin G L s t"
  note rf = twin_refetch [OF st]
  show ?thesis
  proof (cases "jit_poll_loop b (refetch s)")
    case (Some r)
    from twin_poll_loop [OF this rf] obtain t1 where t1: "l_poll_loop b t = Some (fst r, t1)" "twin G L (snd r) t1" by blast
    have "twin G L (fold (take_key b x k) is (snd r)) (fold (take_key b x k) is t1)" for x k "is"
      by (rule tw.R_fold_take_key [OF t1(2)])
    then show ?thesis
      using Some t1(1) twin_op [OF st]
      by (cases r) (simp add: twin_pc_add jit_load_on_key_def l_load_on_key_def Let_def errer_def l_errer_def)
  qed (simp add: jit_load_on_key_def)
qed

lemma twin_draw: "twin G L s t \<Longrightarrow> implied (twin G L) (jit_draw b s) (l_draw b t)"
proof -
  assume st: "twin G L s t"
  note rf = twin_refetch [OF st]
  define s1 t1 where "s1 = check_interrupt b (refetch s)" "t1 = l_check_interrupt b t"
  have st1: "twin G L s1 t1" unfolding s1_t1_def by (rule twin_check_interrupt [OF rf])
  define v where "v = l_op t"
  let ?d = "\<lambda>u. draw_io b (unat (regs t1 ! op_x v)) (unat (regs t1 ! op_y v)) (unat (imm4 v))
      (map (\<lambda>i. mem_at t1 (addr t1 + of_nat i)) [0..<unat (imm4 v)]) u"
  have m: "mem_at s1 = mem_at t1" using twin_vm(2) [OF st1] by (simp add: mem_at_def fun_eq_iff)
  have "jit_draw b s = frame_sync b (set_reg 15 (of_nat (fst (?d s1))) (snd (?d s1)))"
    by (simp only: jit_draw_def jit_frame_sync_eq Let_def split_beta s1_t1_def(1) [symmetric] twin_vm(1,5) [OF st1] twin_op [OF st] v_def [symmetric] m)
  moreover have "l_draw b t = frame_sync b (set_reg 15 (of_nat (fst (?d t1))) (snd (?d t1)))"
    by (simp only: l_draw_def l_frame_sync_eq Let_def split_beta s1_t1_def(2) [symmetric] v_def [symmetric])
  moreover have "twin G L (set_reg 15 (of_nat (fst (?d s1))) (snd (?d s1))) (set_reg 15 (of_nat (fst (?d t1))) (snd (?d t1)))"
    unfolding tw.R_draw [OF st1, THEN conjunct1] by (rule tw.R_regs [OF tw.R_draw [OF st1, THEN conjunct2]])
  ultimately show ?thesis by (simp only: implied_rel [OF twin_frame_sync])
qed

lemma twin_idle_loop:
  fixes t :: "'c llvm_scheme"
  assumes "jit_idle_loop s = Some s'" "twin G L s t"
  shows "\<exists>t'. l_idle_loop t = Some t' \<and> twin G L s' t'"
proof -
  have "\<forall>t :: 'c llvm_scheme. twin G L s t \<longrightarrow> (\<exists>t'. l_idle_loop t = Some t' \<and> twin G L s' t')"
  proof (rule jit_idle_loop.raw_induct [OF _ assms(1)])
    fix f and s s' :: "'a jit_scheme"
    assume IH: "\<And>s s'. f s = Some s' \<Longrightarrow> \<forall>t :: 'c llvm_scheme. twin G L s t \<longrightarrow> (\<exists>t'. l_idle_loop t = Some t' \<and> twin G L s' t')"
      and eq: "(if delay_timer s \<noteq> 0
        then if fst (jit_all_keys_down INTERACTIVE s) AND QUIT \<noteq> 0 then Some (s\<lparr>program_over := True\<rparr>) else f (jit_interrupt INTERACTIVE s)
        else Some s) = Some s'"
    show "\<forall>t :: 'c llvm_scheme. twin G L s t \<longrightarrow> (\<exists>t'. l_idle_loop t = Some t' \<and> twin G L s' t')"
    proof (intro allI impI)
      fix t :: "'c llvm_scheme" assume st: "twin G L s t"
      have k: "fst (all_keys_down INTERACTIVE s) = fst (all_keys_down INTERACTIVE t)" using tw.R_keys [OF st] by blast
      note i = tw.R_interrupt [OF st, of INTERACTIVE]
      show "\<exists>t'. l_idle_loop t = Some t' \<and> twin G L s' t'"
        unfolding l_idle_loop.simps [of t]
        using eq IH [of "interrupt INTERACTIVE s" s'] i st twin_vm(8) [OF st] k
        by (auto simp: twin_upds simp del: interrupt.simps all_keys_down.simps jit_interrupt.simps jit_all_keys_down.simps l_interrupt.simps l_all_keys_down.simps split: if_splits)
    qed
  qed
  with assms(2) show ?thesis by blast
qed

lemma twin_jit_idle_wait: "twin G L s t \<Longrightarrow> implied (twin G L) (jit_idle_wait s) (l_jit_idle_wait t)"
proof -
  assume st: "twin G L s t"
  have "chip8_idle_delay_loop s (program_counter s) = chip8_idle_delay_loop t (program_counter t)"
    using st by (simp add: chip8_idle_delay_loop_def opcode_at_def mem_at_def twin_vm Let_def)
  moreover have "implied (twin G L) (map_option (set_reg r 0) (jit_idle_loop s)) (map_option (set_reg r 0) (l_idle_loop t))" for r
    using twin_idle_loop [OF _ st] by (fastforce simp: implied_def tw.R_regs)
  ultimately show ?thesis
    using st by (auto simp: jit_idle_wait_def l_jit_idle_wait_def split: option.split)
qed

theorem twin_host:
  assumes "twin G L s t"
  shows "implied (rel_run (twin G L)) (host_call b f s) (l_host b f t)"
  using twin_check_interrupt [OF assms, of b] twin_retern [OF assms, of b] twin_call [OF assms, of b] twin_random_byte [OF assms]
    implied_map [OF twin_draw [OF assms, of b], of "rel_run (twin G L)" Returns Returns] twin_bench_safepoint [OF assms]
    twin_skip_key_x [OF assms, of b] twin_load_on_key [OF assms, of b] twin_store_bcd [OF assms] twin_save_registers [OF assms]
    twin_restore_registers [OF assms] twin_sync [OF assms] tw.R_interrupt [OF assms, of b] tw.R_screen [OF assms, of b]
    implied_map [OF twin_jit_idle_wait [OF assms], of "rel_run (twin G L)" Returns Returns]
  by (cases f) (simp_all del: interrupt.simps clearscreen_io.simps)

end
