(* ===== verification/C8_Llvm_Sim.thy ===== *)
theory C8_Llvm_Sim
  imports C8_Llvm_Twin
begin

text \<open>
  The traces of the two compilers: for the same memory they have the same addresses, and the code
  for an address does the same to the machine, statement by statement on one side and
  instruction by instruction on the other.
\<close>

section \<open>From block to block\<close>

text \<open>The code of one address, executed to its end, as \<open>l_walk\<close> does on the other side.\<close>

primrec walk_block :: "build \<Rightarrow> block \<Rightarrow> (nat \<Rightarrow> u8) \<Rightarrow> 'a jit_scheme \<Rightarrow> (nat \<Rightarrow> u8, 'a jit_scheme) reached option" where
  "walk_block b (Stmt st k) l s =
     (case run_stmt b st (l, s) of None \<Rightarrow> None
      | Some (l1, p) \<Rightarrow> (case p of Returns s1 \<Rightarrow> walk_block b k l1 s1 | _ \<Rightarrow> Some (Ends p)))"
| "walk_block b (Slow_path r f k) l s =
     (let s1 = look b s in
      if eval l s1 r \<noteq> 0
      then (case host_call b f s1 of None \<Rightarrow> None
            | Some p \<Rightarrow> (case p of Returns s2 \<Rightarrow> walk_block b k l s2 | _ \<Rightarrow> Some (Ends p)))
      else walk_block b k l s1)"
| "walk_block b (End_with_conditional r k1 k2) l s =
     (if eval l s r \<noteq> 0 then walk_block b k1 l s else walk_block b k2 l s)"
| "walk_block b (End_with_jump a) l s = Some (Goes a l s)"
| "walk_block b End_with_void_return l s = Some (Ends (Returns s))"

partial_function (option) run_walks ::
  "build \<Rightarrow> (u16 \<times> block) list \<Rightarrow> block \<Rightarrow> (nat \<Rightarrow> u8) \<Rightarrow> 'a jit_scheme \<Rightarrow> 'a jit_scheme run option" where
  "run_walks b bs k l s =
     (case walk_block b k l s of
        None \<Rightarrow> None
      | Some (Ends p) \<Rightarrow> Some p
      | Some (Goes a l1 s1) \<Rightarrow>
          (case map_of bs a of None \<Rightarrow> Some Undef | Some k1 \<Rightarrow> run_walks b bs k1 l1 s1))"

lemma run_walks_eqs:
  "run_walks b bs (Stmt st k) l s =
    (case run_stmt b st (l, s) of None \<Rightarrow> None
     | Some (l1, p) \<Rightarrow> (case p of Returns s1 \<Rightarrow> run_walks b bs k l1 s1 | _ \<Rightarrow> Some p))"
  "run_walks b bs (Slow_path r f k) l s =
    (let s1 = look b s in
     if eval l s1 r \<noteq> 0
     then (case host_call b f s1 of None \<Rightarrow> None
           | Some p \<Rightarrow> (case p of Returns s2 \<Rightarrow> run_walks b bs k l s2 | _ \<Rightarrow> Some p))
     else run_walks b bs k l s1)"
  "run_walks b bs (End_with_conditional r k1 k2) l s = (if eval l s r \<noteq> 0 then run_walks b bs k1 l s else run_walks b bs k2 l s)"
  "run_walks b bs (End_with_jump a) l s = (case map_of bs a of None \<Rightarrow> Some Undef | Some k1 \<Rightarrow> run_walks b bs k1 l s)"
  "run_walks b bs End_with_void_return l s = Some (Returns s)"
      apply (unfold run_walks.simps [of b bs "Stmt st k"] run_walks.simps [of b bs k])
      apply (simp split: option.split run.split)
     apply (unfold run_walks.simps [of b bs "Slow_path r f k"] run_walks.simps [of b bs k])
     apply (simp add: Let_def split: option.split run.split)
    apply (unfold run_walks.simps [of b bs "End_with_conditional r k1 k2"] run_walks.simps [of b bs k1] run_walks.simps [of b bs k2])
    apply simp
   apply (unfold run_walks.simps [of b bs "End_with_jump a"], simp)
  apply (unfold run_walks.simps [of b bs End_with_void_return], simp)
  done

lemma run_block_walks:
  assumes "run_block b bs k l s = Some p"
  shows "run_walks b bs k l s = Some p"
proof (rule run_block.raw_induct [OF _ assms])
  fix f b bs k l and s :: "'a jit_scheme" and p
  assume IH: "\<And>b bs k l s p. f b bs k l s = Some p \<Longrightarrow> run_walks b bs k l s = Some p"
    and eq: "(case k of
        End_with_void_return \<Rightarrow> Some (Returns s)
      | End_with_jump a \<Rightarrow> (case map_of bs a of None \<Rightarrow> Some Undef | Some k1 \<Rightarrow> f b bs k1 l s)
      | End_with_conditional r k1 k2 \<Rightarrow> (if eval l s r \<noteq> 0 then f b bs k1 l s else f b bs k2 l s)
      | Slow_path r h k1 \<Rightarrow>
          (let s1 = look b s in
           if eval l s1 r \<noteq> 0
           then case host_call b h s1 of None \<Rightarrow> None
                | Some (Returns s2) \<Rightarrow> f b bs k1 l s2 | Some p \<Rightarrow> Some p
           else f b bs k1 l s1)
      | Stmt st k1 \<Rightarrow>
          (case run_stmt b st (l, s) of None \<Rightarrow> None
           | Some (l1, p) \<Rightarrow>
               (case p of Returns s1 \<Rightarrow> f b bs k1 l1 s1 | Exits s1 \<Rightarrow> Some (Exits s1) | Undef \<Rightarrow> Some Undef))) = Some p"
  show "run_walks b bs k l s = Some p"
    using eq IH by (cases k) (auto simp: run_walks_eqs Let_def split: option.splits run.splits if_splits)
qed

section \<open>Code that does the same\<close>

fun reach_rel where
  "reach_rel G L (Goes a l s) (Goes a' e t) \<longleftrightarrow> a = a' \<and> twin G L s t"
| "reach_rel G L (Ends p) (Ends q) \<longleftrightarrow> rel_run (twin G L) p q"
| "reach_rel G L _ _ \<longleftrightarrow> False"

definition same_code :: "build \<Rightarrow> block \<Rightarrow> l_block \<Rightarrow> bool" where
  "same_code b k k' \<longleftrightarrow> (\<forall>G L l e. \<forall>s :: jit. \<forall>t :: llvm. twin G L s t \<longrightarrow>
     implied (reach_rel G L) (walk_block b k l s) (l_walk b k' e t))"

definition same_blocks :: "build \<Rightarrow> (u16 \<times> block) list \<Rightarrow> (u16 \<times> l_block) list \<Rightarrow> bool" where
  "same_blocks b = list_all2 (\<lambda>(a, k) (a', k'). a = a' \<and> same_code b k k')"

fun same_trace :: "build \<Rightarrow> trace \<Rightarrow> l_trace \<Rightarrow> bool" where
  "same_trace b (k, bs) (k', bs') \<longleftrightarrow> same_code b k k' \<and> same_blocks b bs bs'"

lemma same_codeI:
  "(\<And>G L l e s t. twin G L (s :: jit) (t :: llvm) \<Longrightarrow> implied (reach_rel G L) (walk_block b k l s) (l_walk b k' e t)) \<Longrightarrow>
    same_code b k k'"
  by (simp add: same_code_def)

lemma same_codeD:
  "same_code b k k' \<Longrightarrow> twin G L (s :: jit) (t :: llvm) \<Longrightarrow> implied (reach_rel G L) (walk_block b k l s) (l_walk b k' e t)"
  by (simp add: same_code_def)

lemma same_blocks_map_of:
  "same_blocks b bs bs' \<Longrightarrow> rel_option (same_code b) (map_of bs a) (map_of bs' a)"
  unfolding same_blocks_def by (induction rule: list_all2_induct) auto

lemma run_walks_same:
  fixes s :: jit and t :: llvm
  assumes "run_walks b bs k l s = Some p" "same_code b k k'" "same_blocks b bs bs'" "twin G L s t"
  shows "\<exists>q. l_run b bs' k' e t = Some q \<and> rel_run (twin G L) p q"
proof -
  have "same_blocks b bs bs' \<longrightarrow> (\<forall>k' e. \<forall>t :: llvm. same_code b k k' \<longrightarrow> twin G L s t \<longrightarrow>
      (\<exists>q. l_run b bs' k' e t = Some q \<and> rel_run (twin G L) p q))"
  proof (rule run_walks.raw_induct [OF _ assms(1)])
    fix f b bs k l and s :: jit and p
    assume IH: "\<And>b bs k l s p. f b bs k l s = Some p \<Longrightarrow> same_blocks b bs bs' \<longrightarrow> (\<forall>k' e. \<forall>t :: llvm. same_code b k k' \<longrightarrow> twin G L s t \<longrightarrow>
      (\<exists>q. l_run b bs' k' e t = Some q \<and> rel_run (twin G L) p q))"
      and eq: "(case walk_block b k l s of None \<Rightarrow> None | Some (Ends p) \<Rightarrow> Some p
        | Some (Goes a l1 s1) \<Rightarrow> (case map_of bs a of None \<Rightarrow> Some Undef | Some k1 \<Rightarrow> f b bs k1 l1 s1)) = Some p"
    show "same_blocks b bs bs' \<longrightarrow> (\<forall>k' e. \<forall>t :: llvm. same_code b k k' \<longrightarrow> twin G L s t \<longrightarrow>
      (\<exists>q. l_run b bs' k' e t = Some q \<and> rel_run (twin G L) p q))"
    proof (intro impI allI)
      fix k' e and t :: llvm assume bs: "same_blocks b bs bs'" and c: "same_code b k k'" and st: "twin G L s t"
      from eq obtain r where r: "walk_block b k l s = Some r" by (cases "walk_block b k l s") auto
      with same_codeD [OF c st, of l e] obtain r' where r': "l_walk b k' e t = Some r'" "reach_rel G L r r'"
        by (auto simp: implied_def)
      show "\<exists>q. l_run b bs' k' e t = Some q \<and> rel_run (twin G L) p q"
      proof (cases r)
        case (Goes a l1 s1)
        with r' obtain e1 t1 where g: "r' = Goes a e1 t1" "twin G L s1 t1" by (cases r') auto
        show ?thesis
        proof (cases "map_of bs a")
          case None
          then have "map_of bs' a = None" using same_blocks_map_of [OF bs, of a] by simp
          then show ?thesis using eq r r'(1) g Goes None by (subst l_run.simps) simp
        next
          case (Some k1)
          then obtain k1' where k1': "map_of bs' a = Some k1'" "same_code b k1 k1'"
            using same_blocks_map_of [OF bs, of a] by (auto simp: option_rel_Some1)
          have "f b bs k1 l1 s1 = Some p" using eq r Goes Some by simp
          from IH [OF this] bs k1'(2) g(2) obtain q where "l_run b bs' k1' e1 t1 = Some q" "rel_run (twin G L) p q" by blast
          then show ?thesis using r'(1) g k1'(1) by (subst l_run.simps) simp
        qed
      next
        case (Ends q)
        with r' obtain q' where "r' = Ends q'" "rel_run (twin G L) q q'" by (cases r') auto
        then show ?thesis using eq r r'(1) Ends by (subst l_run.simps) simp
      qed
    qed
  qed
  with assms(2-4) show ?thesis by blast
qed

lemma run_trace_same:
  fixes s :: jit and t :: llvm
  assumes "same_trace b T U" "twin G L s t"
  shows "implied (rel_run (twin G L)) (run_trace b T s) (l_run_trace b U t)"
proof -
  obtain k bs k' bs' where T: "T = (k, bs)" "U = (k', bs')" by fastforce
  with assms(1) have "same_code b k k'" "same_blocks b bs bs'" by simp_all
  from run_walks_same [OF run_block_walks this assms(2)] show ?thesis
    by (simp add: implied_def run_trace_def l_run_trace_def T)
qed

end
