(* ===== verification/C8_Llvm_Emit.thy ===== *)
theory C8_Llvm_Emit
  imports C8_Llvm_Sim
begin

text \<open>
  Instruction by instruction, the two code generators emit code that does the same, and so they
  make traces of the same addresses that do the same.
\<close>

section \<open>The macros\<close>

lemma same_ret: "same_code b End_with_void_return CreateRet"
  by (rule same_codeI) simp

lemma same_br: "same_code b (End_with_jump a) (CreateBr a)"
  by (rule same_codeI) simp

lemma implied_run:
  assumes "implied (rel_run (twin G L)) p q"
    and "\<And>s t. twin G L s t \<Longrightarrow> implied (reach_rel G L) (f s) (g t)"
  shows "implied (reach_rel G L)
     (case p of None \<Rightarrow> None | Some p \<Rightarrow> (case p of Returns s1 \<Rightarrow> f s1 | _ \<Rightarrow> Some (Ends p)))
     (case q of None \<Rightarrow> None | Some p \<Rightarrow> (case p of Returns s1 \<Rightarrow> g s1 | _ \<Rightarrow> Some (Ends p)))"
proof (cases p)
  case (Some x)
  then obtain y where "q = Some y" "rel_run (twin G L) x y" using assms(1) by (auto simp: implied_def)
  with Some assms(2) show ?thesis by (cases x; cases y) simp_all
qed simp

lemma same_call:
  assumes "same_code b k k'"
  shows "same_code b (CALL_HOST f k) (JIT_CALL f k')"
proof (rule same_codeI)
  fix G L l e and s :: jit and t :: llvm
  assume st: "twin G L s t"
  have "walk_block b (CALL_HOST f k) l s =
      (case host_call b f s of None \<Rightarrow> None | Some p \<Rightarrow> (case p of Returns s1 \<Rightarrow> walk_block b k l s1 | _ \<Rightarrow> Some (Ends p)))"
    by (simp add: CALL_HOST_def split: option.split)
  moreover have "l_walk b (JIT_CALL f k') e t =
      (case l_host b f t of None \<Rightarrow> None | Some p \<Rightarrow> (case p of Returns s1 \<Rightarrow> l_walk b k' e s1 | _ \<Rightarrow> Some (Ends p)))"
    by (simp add: JIT_CALL_def split: option.split)
  ultimately show "implied (reach_rel G L) (walk_block b (CALL_HOST f k) l s) (l_walk b (JIT_CALL f k') e t)"
    using implied_run [OF twin_host [OF st] same_codeD [OF assms]] by (simp only:)
qed

lemma l_wrap_less: "n < 2 ^ l_bits t \<Longrightarrow> l_wrap t n = n"
  by (simp add: l_wrap_def)

lemma unat_8_16 [simp]: "unat (v::u8) mod 256 = unat v" "unat (w::u16) mod 65536 = unat w"
  using unat_u8_less [of v] unsigned_less [of w, where 'a = nat] by simp_all

lemma same_pc:
  assumes "same_code b k k'"
  shows "same_code b (set_pc a k) (store_pc a k')"
  by (rule same_codeI) (simp add: set_pc_def store_pc_def l_num_def l_wrap_def same_codeD [OF assms] tw.R_pc)

lemma same_call_op: "same_code b k k' \<Longrightarrow> same_code b (CALL_HOST_OP f pc k) (JIT_CALL_OP f pc k')"
  by (simp add: CALL_HOST_OP_def JIT_CALL_OP_def same_pc same_call)

lemma same_retire:
  assumes "same_code b k k'"
  shows "same_code b (RETIRE b n k) (JIT_RETIRE b n k')"
proof (cases b)
  case BENCH
  show ?thesis
  proof (rule same_codeI)
    fix G L l e and s :: jit and t :: llvm
    assume st: "twin G L s t"
    have "twin G L (s\<lparr>bench_retired := bench_retired t + n\<rparr>) (t\<lparr>bench_retired := bench_retired t + n\<rparr>)"
      by (rule twin_upds [OF st])
    then show "implied (reach_rel G L) (walk_block b (RETIRE b n k) l s) (l_walk b (JIT_RETIRE b n k') e t)"
      using BENCH by (simp add: RETIRE_def JIT_RETIRE_def insts_def l_num_def l_wrap_def l_look_def twin_vm(11) [OF st]
          same_codeD [OF assms [unfolded BENCH]])
  qed
next
  case INTERACTIVE
  with assms show ?thesis by (simp add: RETIRE_def JIT_RETIRE_def)
qed

lemma same_safepoint:
  assumes "same_code b k k'"
  shows "same_code b (SAFEPOINT b k) (JIT_SAFEPOINT b k')"
proof (rule same_codeI)
  fix G L l e and s :: jit and t :: llvm
  assume st: "twin G L s t"
  show "implied (reach_rel G L) (walk_block b (SAFEPOINT b k) l s) (l_walk b (JIT_SAFEPOINT b k') e t)"
  proof (cases b)
    case BENCH
    let ?e = "e(''retired'' \<mapsto> bench_retired t, ''next'' \<mapsto> bench_next_safepoint t,
        ''pending'' \<mapsto> of_bool (bench_next_safepoint t \<le> bench_retired t))"
    have "walk_block b (SAFEPOINT b k) l s = (if bench_next_safepoint t \<le> bench_retired t
        then (case host_call b H_bench_safepoint s of None \<Rightarrow> None
              | Some p \<Rightarrow> (case p of Returns s1 \<Rightarrow> walk_block b k l s1 | _ \<Rightarrow> Some (Ends p)))
        else walk_block b k l s)"
      by (simp add: BENCH SAFEPOINT_def look_def twin_vm(11,12) [OF st])
    moreover have "l_walk b (JIT_SAFEPOINT b k') e t = (if bench_next_safepoint t \<le> bench_retired t
        then (case l_host b H_bench_safepoint t of None \<Rightarrow> None
              | Some p \<Rightarrow> (case p of Returns s1 \<Rightarrow> l_walk b k' ?e s1 | _ \<Rightarrow> Some (Ends p)))
        else l_walk b k' ?e t)"
      by (simp add: BENCH JIT_SAFEPOINT_def insts_def l_num_def l_look_def l_signed_def)
    ultimately show ?thesis
      using implied_run [OF twin_host [OF st] same_codeD [OF assms]] same_codeD [OF assms st]
      by (cases "bench_next_safepoint t \<le> bench_retired t") (simp_all only: if_True if_False)
  next
    case INTERACTIVE
    define s1 t1 where "s1 = alarm s" "t1 = l_alarm t"
    have st1: "twin G L s1 t1" unfolding s1_t1_def by (rule twin_alarm [OF st])
    let ?e = "e(''flag_value'' \<mapsto> of_bool (l_interrupt_pending t1), ''pending'' \<mapsto> of_bool (l_interrupt_pending t1))"
    have "walk_block b (SAFEPOINT b k) l s = (if l_interrupt_pending t1
        then (case host_call b H_check_interrupt s1 of None \<Rightarrow> None
              | Some p \<Rightarrow> (case p of Returns s2 \<Rightarrow> walk_block b k l s2 | _ \<Rightarrow> Some (Ends p)))
        else walk_block b k l s1)"
      by (simp add: INTERACTIVE SAFEPOINT_def look_def Let_def s1_t1_def(1) [symmetric] twin_engine(1) [OF st1])
    moreover have "l_walk b (JIT_SAFEPOINT b k') e t = (if l_interrupt_pending t1
        then (case l_host b H_check_interrupt t1 of None \<Rightarrow> None
              | Some p \<Rightarrow> (case p of Returns s2 \<Rightarrow> l_walk b k' ?e s2 | _ \<Rightarrow> Some (Ends p)))
        else l_walk b k' ?e t1)"
      by (simp add: INTERACTIVE JIT_SAFEPOINT_def insts_def l_num_def l_look_def l_wrap_def Let_def s1_t1_def(2) [symmetric])
    ultimately show ?thesis
      using implied_run [OF twin_host [OF st1] same_codeD [OF assms]] same_codeD [OF assms st1]
      by (cases "l_interrupt_pending t1") (simp_all only: if_True if_False)
  qed
qed

lemma same_backedge: "same_code b (CLOSE_BACKEDGE a) (JIT_CLOSE_BACKEDGE a)"
  by (rule same_codeI)
    (simp add: CLOSE_BACKEDGE_def JIT_CLOSE_BACKEDGE_def insts_def l_num_def l_wrap_def l_look_def twin_engine(2))

lemma idle_reads: "twin G L s t \<Longrightarrow> chip8_idle_delay_loop s a = chip8_idle_delay_loop t a" "twin G L s t \<Longrightarrow> opcode_at s a = opcode_at t a"
  by (simp_all add: chip8_idle_delay_loop_def opcode_at_def mem_at_def twin_vm Let_def)

lemma same_idle_wait:
  assumes "twin G L s t" "same_code b k k'"
  shows "same_code b (MAYBE_IDLE_WAIT b s a k) (JIT_MAYBE_IDLE_WAIT b t a k')"
proof -
  have "chip8_idle_delay_loop s a = chip8_idle_delay_loop t a" "elide_idle s = l_elide_idle t"
    using assms(1) by (simp_all only: idle_reads twin_engine(4))
  then show ?thesis
    using same_call [OF assms(2)] assms(2) unfolding MAYBE_IDLE_WAIT_def JIT_MAYBE_IDLE_WAIT_def by presburger
qed

lemmas same_macros = same_ret same_br same_call same_pc same_call_op same_retire same_safepoint same_backedge

section \<open>Instructions\<close>

text \<open>Code that runs straight through and comes to states that are twins again.\<close>

definition same_step :: "build \<Rightarrow> (block \<Rightarrow> block) \<Rightarrow> (l_block \<Rightarrow> l_block) \<Rightarrow> bool" where
  "same_step b f f' \<longleftrightarrow> (\<forall>k k'. same_code b k k' \<longrightarrow> same_code b (f k) (f' k'))"

lemma same_stepI: "(\<And>k k'. same_code b k k' \<Longrightarrow> same_code b (f k) (f' k')) \<Longrightarrow> same_step b f f'"
  by (simp add: same_step_def)

text \<open>Both reach the code that follows, in the states shown.\<close>

lemma same_through:
  assumes "\<And>G L l e s t. twin G L (s :: jit) (t :: llvm) \<Longrightarrow> \<exists>l1 e1 s1 t1. twin G L s1 t1 \<and>
      (\<forall>k. walk_block b (f k) l s = walk_block b k l1 s1) \<and> (\<forall>k'. l_walk b (f' k') e t = l_walk b k' e1 t1)"
  shows "same_step b f f'"
proof (rule same_stepI, rule same_codeI)
  fix k k' G L l e and s :: jit and t :: llvm
  assume k: "same_code b k k'" and "twin G L s t"
  from assms [OF this(2)] obtain l1 e1 s1 t1 where "twin G L s1 t1"
    "walk_block b (f k) l s = walk_block b k l1 s1" "l_walk b (f' k') e t = l_walk b k' e1 t1" by metis
  with same_codeD [OF k] show "implied (reach_rel G L) (walk_block b (f k) l s) (l_walk b (f' k') e t)" by simp
qed

lemmas walk_defs = insts_def l_num_def l_wrap_def l_look_def load_reg_def cast_to_def getCastOpcode_def

lemma same_regs:
  assumes "\<And>G L l e s t. twin G L (s :: jit) (t :: llvm) \<Longrightarrow> \<exists>l1 e1 g.
      (\<forall>k. walk_block b (f k) l s = walk_block b k l1 (regs_update g s)) \<and>
      (\<forall>k'. l_walk b (f' k') e t = l_walk b k' e1 (regs_update g t))"
  shows "same_step b f f'"
proof (rule same_through)
  fix G L l e and s :: jit and t :: llvm
  assume st: "twin G L s t"
  from assms [OF this] obtain l1 e1 g where
    "(\<forall>k. walk_block b (f k) l s = walk_block b k l1 (regs_update g s)) \<and>
      (\<forall>k'. l_walk b (f' k') e t = l_walk b k' e1 (regs_update g t))" by blast
  with tw.R_regs [OF st, of g] show "\<exists>l1 e1 s1 t1. twin G L s1 t1 \<and>
      (\<forall>k. walk_block b (f k) l s = walk_block b k l1 s1) \<and> (\<forall>k'. l_walk b (f' k') e t = l_walk b k' e1 t1)" by blast
qed

text \<open>Sums of bytes need no 17th bit, nor the sign.\<close>

lemma l_signed_small: "n < 32768 \<Longrightarrow> l_signed Int16 n = int n"
  by (simp add: l_signed_def)

lemma byte_sums [simp]:
  "unat (v::u8) mod 65536 = unat v" "(unat v + unat (w::u8)) mod 65536 = unat v + unat w"
  "l_signed Int16 255 < l_signed Int16 (unat v + unat w) \<longleftrightarrow> 255 < unat v + unat w"
proof -
  have b: "unat v < 256" "unat w < 256" by (rule unat_u8_less)+
  then show "unat v mod 65536 = unat v" "(unat v + unat (w::u8)) mod 65536 = unat v + unat w" by simp_all
  show "l_signed Int16 255 < l_signed Int16 (unat v + unat w) \<longleftrightarrow> 255 < unat v + unat w"
    using b by (simp add: l_signed_small [of 255] l_signed_small [of "unat v + unat w"] del: of_nat_add)
qed

fun same_emitted :: "build \<Rightarrow> emitted \<Rightarrow> l_emitted \<Rightarrow> bool" where
  "same_emitted b Bail_errer Null_code = True"
| "same_emitted b (Stops m k) (L_stops m' k') \<longleftrightarrow> m = m' \<and> same_code b k k'"
| "same_emitted b (Goes_on m lid a f) (L_goes_on m' a' f') \<longleftrightarrow> m = m' \<and> a = a' \<and> same_step b f f'"
| "same_emitted b _ _ = False"

lemma same_emit_8: "same_emitted b (emit_8 pc lid opc) (l_emit_8 pc opc)"
proof -
  consider "opc AND 15 = 0" | "opc AND 15 = 1" | "opc AND 15 = 2" | "opc AND 15 = 3" | "opc AND 15 = 4" | "opc AND 15 = 5"
    | "opc AND 15 = 6" | "opc AND 15 = 7" | "opc AND 15 = 14" | "opc AND 15 \<notin> {0, 1, 2, 3, 4, 5, 6, 7, 14}" by blast
  then show ?thesis
    apply cases
    apply (simp_all add: emit_8_def l_emit_8_def Let_def)
    apply ((rule same_regs, intro exI conjI allI, simp_all add: walk_defs twin_vm) [])+
    done
qed

lemma same_sync:
  assumes "same_code b k k'"
  shows "same_code b (sync_call b k) (call_sync b k')"
  unfolding sync_call_def call_sync_def using assms same_call [OF assms] by presburger

lemma same_get_timer:
  "same_step b (Stmt (Add_assignment (Reg x) (As_rvalue Delay_timer)))
    (insts [CreateLoad ''delay_timer_value'' Int8 L_delay_timer, CreateStore (Value ''delay_timer_value'') (L_reg x)])"
  by (rule same_regs, intro exI conjI allI, simp_all add: walk_defs twin_vm)

lemma same_sync_call:
  fixes s :: jit and t :: llvm
  assumes st: "twin G L s t"
  shows "\<exists>u v. twin G L u v \<and> regs u = regs s \<and> (\<forall>k. walk_block b (sync_call b k) l s = walk_block b k l u) \<and>
    (\<forall>k'. l_walk b (call_sync b k') e t = l_walk b k' e v)"
proof (cases b)
  case BENCH
  have "regs (sync_timers s) = regs s" by (simp add: sync_timers_def Let_def)
  with twin_sync [OF st] show ?thesis
    by (intro exI [of _ "sync_timers s"] exI [of _ "sync_timers t"] conjI) (simp_all add: BENCH sync_call_def call_sync_def CALL_HOST_def JIT_CALL_def)
next
  case INTERACTIVE
  with st show ?thesis by (intro exI [of _ s] exI [of _ t]) (simp add: sync_call_def call_sync_def)
qed

lemma same_set_timer:
  assumes p: "(p, q) \<in> {(Delay_timer, L_delay_timer), (Sound_timer, L_sound_timer)}"
  shows "same_step b (\<lambda>k. sync_call b (Stmt (Add_assignment p (As_rvalue (Reg x))) k))
    (\<lambda>k. insts [load_reg ''x_value'' x] (call_sync b (insts [CreateStore (Value ''x_value'') q] k)))"
proof (rule same_through)
  fix G L l e and s :: jit and t :: llvm
  assume st: "twin G L s t"
  let ?e = "e(''x_value'' \<mapsto> unat (regs t ! x))"
  obtain u v where uv: "twin G L u v" "regs u = regs s" "\<And>k. walk_block b (sync_call b k) l s = walk_block b k l u"
    "\<And>k'. l_walk b (call_sync b k') ?e t = l_walk b k' ?e v" using same_sync_call [OF st] by blast
  have w: "walk_block b (sync_call b (Stmt (Add_assignment p (As_rvalue (Reg x))) k)) l s =
      walk_block b k l (snd (set_place p (unat (regs s ! x)) (l, u)))" for k
    using p by (auto simp: uv)
  have "l_walk b (insts [load_reg ''x_value'' x] (call_sync b (insts [CreateStore (Value ''x_value'') q] k'))) e t =
      l_walk b (call_sync b (insts [CreateStore (Value ''x_value'') q] k')) ?e t" for k'
    by (simp add: walk_defs)
  then have "l_walk b (insts [load_reg ''x_value'' x] (call_sync b (insts [CreateStore (Value ''x_value'') q] k'))) e t =
      l_walk b k' ?e (l_write q (unat (regs t ! x)) v)" for k'
    by (simp add: uv walk_defs)
  moreover have "twin G L (snd (set_place p (unat (regs s ! x)) (l, u))) (l_write q (unat (regs t ! x)) v)"
    using p twin_upds(7,8) [OF uv(1)] by (auto simp: twin_vm(1) [OF st])
  ultimately show "\<exists>l1 e1 s1 t1. twin G L s1 t1 \<and>
    (\<forall>k. walk_block b (sync_call b (Stmt (Add_assignment p (As_rvalue (Reg x))) k)) l s = walk_block b k l1 s1) \<and>
    (\<forall>k'. l_walk b (insts [load_reg ''x_value'' x] (call_sync b (insts [CreateStore (Value ''x_value'') q] k'))) e t = l_walk b k' e1 t1)"
    using w by blast
qed

lemma same_addr:
  "same_step b (Stmt (Add_assignment_op Addr PLUS (Cast (As_rvalue (Reg x)) U16)))
    (insts [load_reg ''x_value'' x, CreateLoad ''addr_value'' Int16 L_addr,
      CreateCast ''x16_value'' ZExt Int8 (Value ''x_value'') Int16,
      CreateBinary ''sum_value'' LAdd Int16 (Value ''addr_value'') (Value ''x16_value''),
      CreateStore (Value ''sum_value'') L_addr])"
  "same_step b (Stmt (Add_assignment Addr (Binary MULT U16 (Binary BITWISE_AND U16 (Cast (As_rvalue (Reg x)) U16)
        (From_int U16 0x0f)) (From_int U16 5))))
    (insts [load_reg ''x_value'' x, CreateCast ''x16_value'' ZExt Int8 (Value ''x_value'') Int16,
      CreateBinary ''nibble_value'' LAnd Int16 (Value ''x16_value'') (ConstantInt Int16 0x0f),
      CreateBinary ''prod_value'' LMul Int16 (Value ''nibble_value'') (ConstantInt Int16 5),
      CreateStore (Value ''prod_value'') L_addr])"
  by (rule same_through, intro exI conjI allI, rule tw.R_addr, assumption, simp_all add: walk_defs twin_vm)+

lemma same_emit_f: "same_emitted b (emit_f b pc lid opc) (l_emit_f b pc opc)"
proof -
  have comp: "same_step b (\<lambda>k. sync_call b (f k)) (\<lambda>k. call_sync b (f' k))" if "same_step b f f'" for f f'
    using that same_sync by (simp add: same_step_def)
  consider "opc AND 255 = 7" | "opc AND 255 = 0xa" | "opc AND 255 = 0x15" | "opc AND 255 = 0x18" | "opc AND 255 = 0x1e"
    | "opc AND 255 = 0x29" | "opc AND 255 = 0x33" | "opc AND 255 = 0x55" | "opc AND 255 = 0x65"
    | "opc AND 255 \<notin> {7, 0xa, 0x15, 0x18, 0x1e, 0x29, 0x33, 0x55, 0x65}" by blast
  then show ?thesis
    using comp [OF same_get_timer] same_set_timer same_addr
    by cases (simp_all add: emit_f_def l_emit_f_def Let_def same_macros same_stepI)
qed

lemma same_emit_skip:
  assumes "twin G L (s :: jit) (t :: llvm)"
  shows "same_emitted b (emit_skip b s pc lid seen opc) (l_emit_skip b t pc seen opc)"
proof -
  note reads = idle_reads [OF assms]
  let ?f = "opcode_at t (pc + 2)"
  let ?g = "unat (drop_bit 12 (opc AND 0xf000))"
  define n where "n = (if ?f AND 0xf000 = 0x1000
     then RETIRE b 1 (SAFEPOINT b (set_pc (?f AND 0x0fff)
       (if ?f AND 0x0fff \<in> set seen then MAYBE_IDLE_WAIT b s (?f AND 0x0fff) (CLOSE_BACKEDGE (?f AND 0x0fff)) else End_with_void_return)))
     else set_pc (pc + 2) End_with_void_return)"
  define n' where "n' = (if ?f AND 0xf000 = 0x1000
     then JIT_RETIRE b 1 (JIT_SAFEPOINT b (store_pc (?f AND 0x0fff)
       (if ?f AND 0x0fff \<in> set seen then JIT_MAYBE_IDLE_WAIT b t (?f AND 0x0fff) (JIT_CLOSE_BACKEDGE (?f AND 0x0fff)) else CreateRet)))
     else store_pc (pc + 2) CreateRet)"
  have n: "same_code b n n'"
    unfolding n_def n'_def by (simp add: same_macros same_idle_wait [OF assms])
  have c: "same_code b (End_with_conditional (Comparison (if p then Equal else Not_equal) (As_rvalue (Reg x)) r) k n)
      (insts (load_reg ''x_value'' x # c @ [CreateCmp ''cond'' (if p then ICMP_EQ else ICMP_NE) Int8 (Value ''x_value'') v])
        (CreateCondBr (Value ''cond'') k' n'))"
    if k: "same_code b k k'" and r: "(r, c, v) = (From_int U8 (unat w), [], ConstantInt Int8 (unat w)) \<or>
      (r, c, v) = (As_rvalue (Reg y), [load_reg ''y_value'' y], Value ''y_value'')" for x y p r c v k k' and w :: u8
  proof (rule same_codeI)
    fix G L l e and s :: jit and t :: llvm
    assume st: "twin G L s t"
    show "implied (reach_rel G L)
        (walk_block b (End_with_conditional (Comparison (if p then Equal else Not_equal) (As_rvalue (Reg x)) r) k n) l s)
        (l_walk b (insts (load_reg ''x_value'' x # c @ [CreateCmp ''cond'' (if p then ICMP_EQ else ICMP_NE) Int8 (Value ''x_value'') v])
          (CreateCondBr (Value ''cond'') k' n')) e t)"
      using r by (elim disjE) (auto simp: walk_defs twin_vm(1) [OF st] same_codeD [OF k st] same_codeD [OF n st])
  qed
  have cs: "same_code b (End_with_conditional (Comparison Equal (As_rvalue (Reg x)) (From_int U8 (unat w))) k n)
      (insts [load_reg ''x_value'' x, CreateCmp ''cond'' ICMP_EQ Int8 (Value ''x_value'') (ConstantInt Int8 (unat w))]
        (CreateCondBr (Value ''cond'') k' n'))"
    "same_code b (End_with_conditional (Comparison Not_equal (As_rvalue (Reg x)) (From_int U8 (unat w))) k n)
      (insts [load_reg ''x_value'' x, CreateCmp ''cond'' ICMP_NE Int8 (Value ''x_value'') (ConstantInt Int8 (unat w))]
        (CreateCondBr (Value ''cond'') k' n'))"
    "same_code b (End_with_conditional (Comparison Equal (As_rvalue (Reg x)) (As_rvalue (Reg y))) k n)
      (insts [load_reg ''x_value'' x, load_reg ''y_value'' y, CreateCmp ''cond'' ICMP_EQ Int8 (Value ''x_value'') (Value ''y_value'')]
        (CreateCondBr (Value ''cond'') k' n'))"
    "same_code b (End_with_conditional (Comparison Not_equal (As_rvalue (Reg x)) (As_rvalue (Reg y))) k n)
      (insts [load_reg ''x_value'' x, load_reg ''y_value'' y, CreateCmp ''cond'' ICMP_NE Int8 (Value ''x_value'') (Value ''y_value'')]
        (CreateCondBr (Value ''cond'') k' n'))" if "same_code b k k'" for x y k k' and w :: u8
    using c [OF that, where r = "From_int U8 (unat w)" and c = "[]" and v = "ConstantInt Int8 (unat w)" and w = w and x = x and p = True]
      c [OF that, where r = "From_int U8 (unat w)" and c = "[]" and v = "ConstantInt Int8 (unat w)" and w = w and x = x and p = False]
      c [OF that, where r = "As_rvalue (Reg y)" and c = "[load_reg ''y_value'' y]" and v = "Value ''y_value''" and y = y and x = x and p = True]
      c [OF that, where r = "As_rvalue (Reg y)" and c = "[load_reg ''y_value'' y]" and v = "Value ''y_value''" and y = y and x = x and p = False]
    by simp_all
  show ?thesis
    unfolding emit_skip_def l_emit_skip_def Let_def reads n_def [symmetric] n'_def [symmetric]
    by (auto intro!: same_stepI cs [OF same_pc])
qed

lemma same_emit_jump:
  assumes "twin G L (s :: jit) (t :: llvm)"
  shows "same_emitted b (emit_jump b s n lid seen opc) (l_emit_jump b t n seen opc)"
  by (simp add: emit_jump_def l_emit_jump_def Let_def same_macros same_idle_wait [OF assms] same_stepI)

lemma same_emit_e: "same_emitted b (emit_e pc opc) (l_emit_e pc opc)"
  by (simp add: emit_e_def l_emit_e_def Let_def same_macros)

lemma same_emit:
  assumes "twin G L (s :: jit) (t :: llvm)"
  shows "same_emitted b (emit b s pc n lid seen) (l_emit b t pc n seen)"
proof -
  have regs: "same_step b (Stmt (Add_assignment (Reg x) (From_int U8 (unat v)))) (insts [CreateStore (ConstantInt Int8 (unat v)) (L_reg x)])"
    "same_step b (Stmt (Add_assignment_op (Reg x) PLUS (From_int U8 (unat v))))
      (insts [load_reg ''x_value'' x, CreateBinary ''sum_value'' LAdd Int8 (Value ''x_value'') (ConstantInt Int8 (unat v)),
        CreateStore (Value ''sum_value'') (L_reg x)])" for x and v :: u8
    by (rule same_regs, intro exI conjI allI, simp_all add: walk_defs twin_vm)+
  have addr: "same_step b (Stmt (Add_assignment Addr (From_int U16 (unat w)))) (insts [CreateStore (ConstantInt Int16 (unat w)) L_addr])" for w :: u16
    by (rule same_through, intro exI conjI allI, rule tw.R_addr, assumption, simp_all add: walk_defs)
  have branch: "same_code b (Stmt (Add_assignment Pc (Binary PLUS U16 (From_int U16 (unat w)) (Cast (As_rvalue (Reg 0)) U16))) End_with_void_return)
      (insts [load_reg ''z_value'' 0, CreateCast ''z16_value'' ZExt Int8 (Value ''z_value'') Int16,
            CreateBinary ''pc_value'' LAdd Int16 (ConstantInt Int16 (unat w)) (Value ''z16_value''),
            CreateStore (Value ''pc_value'') L_program_counter] CreateRet)" for w :: u16
    by (rule same_codeI) (simp add: walk_defs twin_vm tw.R_pc)
  have k: "unat (drop_bit 12 (opcode_at t pc AND 0xf000)) < 16" by (rule high_nibble_less)
  show ?thesis
    apply (cases "opcode_at t pc = 0xe0 \<or> opcode_at t pc = 0xee")
     apply (auto simp: emit_def l_emit_def Let_def idle_reads [OF assms] same_macros same_stepI) []
    apply (rule less_16_cases [OF k])
    apply (simp_all add: emit_def l_emit_def Let_def idle_reads [OF assms] same_macros same_stepI regs addr branch same_emit_8
      same_emit_e same_emit_f same_emit_skip [OF assms] same_emit_jump [OF assms])
    done
qed

section \<open>Traces\<close>

fun same_generated :: "build \<Rightarrow> generated \<Rightarrow> l_generated \<Rightarrow> bool" where
  "same_generated b (Generated k bs) (L_generated k' bs') \<longleftrightarrow> same_code b k k' \<and> same_blocks b bs bs'"
| "same_generated b Failed Null_trace = True"
| "same_generated b Out_of_bounds L_out_of_bounds = True"
| "same_generated b _ _ = False"

lemma same_head:
  assumes "same_code b k k'"
  shows "same_code b (block_head b n k) (l_block_head b n k')"
  by (simp add: block_head_def l_block_head_def same_macros assms)

lemma same_gen:
  assumes "twin G L (s :: jit) (t :: llvm)"
  shows "fst (gen b s pc n lid seen) = fst (l_gen b t pc n seen) \<and>
    fst (snd (gen b s pc n lid seen)) = fst (snd (l_gen b t pc n seen)) \<and>
    same_generated b (snd (snd (gen b s pc n lid seen))) (snd (snd (l_gen b t pc n seen)))"
  using assms
proof (induction b s pc n lid seen rule: gen.induct)
  case (1 b s pc n lid seen)
  note st = 1(2)
  note o = idle_reads(2) [OF st]
  have e: "same_emitted b (emit b s pc n lid (pc # seen)) (l_emit b t pc n (pc # seen))" by (rule same_emit [OF st])
  consider "MEMORY_SIZE \<le> unat pc" | "\<not> MEMORY_SIZE \<le> unat pc" "pc \<in> set seen"
    | (emit) "\<not> MEMORY_SIZE \<le> unat pc" "pc \<notin> set seen" by blast
  then show ?case
  proof cases
    case emit
    show ?thesis
    proof (cases "emit b s pc n lid (pc # seen)")
      case Bail_errer
      with e have "l_emit b t pc n (pc # seen) = Null_code" by (cases "l_emit b t pc n (pc # seen)") simp_all
      with emit Bail_errer show ?thesis by (simp add: gen.simps [of b s] l_gen.simps [of b t] Let_def o)
    next
      case (Stops m k)
      with e obtain k' where "l_emit b t pc n (pc # seen) = L_stops m k'" "same_code b k k'"
        by (cases "l_emit b t pc n (pc # seen)") auto
      with emit Stops show ?thesis
        by (simp add: gen.simps [of b s] l_gen.simps [of b t] Let_def o same_br same_blocks_def same_head)
    next
      case (Goes_on m lid1 a f)
      with e obtain f' where f': "l_emit b t pc n (pc # seen) = L_goes_on m a f'" "same_step b f f'"
        by (cases "l_emit b t pc n (pc # seen)") auto
      have ih: "fst (gen b s a (n + 1) lid1 (pc # seen)) = fst (l_gen b t a (n + 1) (pc # seen)) \<and>
        fst (snd (gen b s a (n + 1) lid1 (pc # seen))) = fst (snd (l_gen b t a (n + 1) (pc # seen))) \<and>
        same_generated b (snd (snd (gen b s a (n + 1) lid1 (pc # seen)))) (snd (snd (l_gen b t a (n + 1) (pc # seen))))"
        by (rule 1(1) [OF refl emit Goes_on st])
      have add: "same_generated b (add_block pc (\<lambda>k. block_head b n (f k)) g) (l_add_block pc (\<lambda>k. l_block_head b n (f' k)) g')"
        if "same_generated b g g'" for g g'
        using that f'(2) by (cases g; cases g') (auto simp: same_br same_head same_blocks_def same_step_def)
      show ?thesis
        using emit Goes_on f'(1) ih add by (simp add: gen.simps [of b s pc] l_gen.simps [of b t pc] Let_def o split_beta)
    qed
  qed (simp_all add: gen.simps [of b s] l_gen.simps [of b t] Let_def o same_blocks_def fall_back_def l_fall_back_def
      same_macros same_idle_wait [OF st])
qed

lemma same_codegen:
  assumes "twin G L (s :: jit) (t :: llvm)"
  shows "same_generated b (fst (codegen b s)) (fst (l_codegen b t))" "twin G L (snd (codegen b s)) (snd (l_codegen b t))"
proof -
  obtain ms opc g ms' opc' g' where e: "gen b s (program_counter s) 0 0 [] = (ms, opc, g)" "l_gen b t (program_counter t) 0 [] = (ms', opc', g')"
    by (metis prod_cases3)
  with same_gen [OF assms, of b "program_counter s" 0 0 "[]"] have eq: "ms' = ms" "opc' = opc" "same_generated b g g'"
    by (simp_all add: twin_vm(6) [OF assms])
  then show "same_generated b (fst (codegen b s)) (fst (l_codegen b t))"
    by (simp add: codegen_def l_codegen_def e)
  have "twin G L u v \<Longrightarrow> twin G L (fold (\<lambda>a. jit_mark_code a 2) ms u) (fold (\<lambda>a. l_mark_code a 2) ms v)" for u :: jit and v :: llvm
    by (induction ms arbitrary: u v) (simp_all add: twin_mark_code)
  then show "twin G L (snd (codegen b s)) (snd (l_codegen b t))"
    by (simp add: codegen_def l_codegen_def e eq tw.R_opcode assms)
qed

end
