(* ===== verification/C8_Llvm_Thms.thy ===== *)
theory C8_Llvm_Thms
  imports C8_Llvm_Emit C8_Jit_Thms
begin

text \<open>
  The properties of the LLVM trace compiler: a run of it is a run of the libgccjit one, and so a
  run of the interpreter.
\<close>

section \<open>The dispatch loop\<close>

text \<open>The two compilers, as documented: what they return for a trace runs it.\<close>

definition gcc_total :: "build \<Rightarrow> (trace \<Rightarrow> (jit \<Rightarrow> jit run option) option) \<Rightarrow> bool" where
  "gcc_total b gcc \<longleftrightarrow> (\<forall>T. gcc T = Some (run_trace b T))"

definition orc_total :: "build \<Rightarrow> (l_trace \<Rightarrow> (llvm \<Rightarrow> llvm run option) option) \<Rightarrow> bool" where
  "orc_total b orc \<longleftrightarrow> (\<forall>T. orc T = Some (l_run_trace b T))"

text \<open>Between passes, the caches hold traces of the same addresses that do the same.\<close>

definition engines :: "build \<Rightarrow> jit \<Rightarrow> llvm \<Rightarrow> bool" where
  "engines b s t \<longleftrightarrow> (\<exists>G L. twin G L s t \<and> (\<forall>a. rel_option (same_trace b) (G a) (L a)))"

lemma enginesI:
  "twin (trace_cache s) (l_trace_cache t) s t \<Longrightarrow> (\<And>a. rel_option (same_trace b) (trace_cache s a) (l_trace_cache t a)) \<Longrightarrow> engines b s t"
  unfolding engines_def by blast

lemma enginesD:
  assumes "engines b s t"
  shows "twin (trace_cache s) (l_trace_cache t) s t" "rel_option (same_trace b) (trace_cache s a) (l_trace_cache t a)"
proof -
  from assms obtain G L where g: "twin G L s t" "\<forall>a. rel_option (same_trace b) (G a) (L a)" unfolding engines_def by blast
  have "G = trace_cache s" "L = l_trace_cache t" using twin_engine(10,11) [OF g(1)] by simp_all
  with g show "twin (trace_cache s) (l_trace_cache t) s t" "rel_option (same_trace b) (trace_cache s a) (l_trace_cache t a)" by simp_all
qed

lemma twin_engines: "twin G L s t \<Longrightarrow> (\<And>a. rel_option (same_trace b) (G a) (L a)) \<Longrightarrow> engines b s t"
  unfolding engines_def by blast

lemma flush_same:
  assumes "twin G L s t" "\<And>a. rel_option (same_trace b) (G a) (L a)"
  shows "engines b (flush b s) (if l_smc_pending t then invalidate_traces b t else t)"
proof (cases "smc_pending s")
  case True
  have "twin (\<lambda>_. None) (\<lambda>_. None) (flush b s) (invalidate_traces b t)"
    using assms(1) True by (simp add: flush_def invalidate_traces_def twin_unfold)
  then have "engines b (flush b s) (invalidate_traces b t)" by (rule twin_engines) simp
  with True twin_engine(3) [OF assms(1)] show ?thesis by simp
next
  case False
  with twin_engine(3) [OF assms(1)] twin_engines [OF assms] show ?thesis by (simp add: flush_def)
qed

lemma after_trace_same:
  assumes "twin G L s t" "\<And>a. rel_option (same_trace b) (G a) (L a)"
  shows "rel_jit_pass (engines b) (after_trace b s c) (l_after_trace b t c)"
proof -
  have st: "twin G L (check_interrupt b s) (l_check_interrupt b t)" by (rule twin_check_interrupt [OF assms(1)])
  define s1 t1 where "s1 = flush b (check_interrupt b s)"
    "t1 = (if l_smc_pending (l_check_interrupt b t) then invalidate_traces b (l_check_interrupt b t) else l_check_interrupt b t)"
  have "engines b s1 t1" unfolding s1_t1_def by (rule flush_same [OF st assms(2)])
  then obtain G1 L1 where g: "twin G1 L1 s1 t1" "\<And>a. rel_option (same_trace b) (G1 a) (L1 a)" unfolding engines_def by blast
  obtain k s2 t2 where e: "all_keys_down b s1 = (k, s2)" "all_keys_down b t1 = (k, t2)" "twin G1 L1 s2 t2"
    using tw.R_keys [OF g(1)] by (metis prod.collapse)
  have a: "after_trace b s c = (if k AND QUIT \<noteq> 0 \<or> program_over s2 then Report s2 c else Go_on s2 (c + 1))"
    by (simp add: after_trace_def Let_def s1_t1_def(1) [symmetric] e(1))
  have l: "l_after_trace b t c = (if k AND QUIT \<noteq> 0 \<or> l_program_over t2 then Report t2 c else Go_on t2 (c + 1))"
    by (simp only: l_after_trace_def Let_def s1_t1_def(2) [symmetric] l_all_keys_down_eq e(2) prod.case)
  show ?thesis unfolding a l using twin_engines [OF e(3) g(2)] twin_engine(2) [OF e(3)] by simp
qed

lemma compile_same:
  assumes ok: "gcc_total b gcc" "orc_total b orc" and st: "engines b s t"
  shows "rel_jit_pass (engines b) (compile_pass gcc b s c) (l_compile_pass orc b t c)"
proof -
  note tw = enginesD(1) [OF st] and caches = enginesD(2) [OF st]
  obtain g s1 g' t1 where e: "codegen b s = (g, s1)" "l_codegen b t = (g', t1)" by fastforce
  with same_codegen [OF tw, of b] have g: "same_generated b g g'" "twin (trace_cache s) (l_trace_cache t) s1 t1" by simp_all
  show ?thesis
  proof (cases g)
    case (Generated k bs)
    with g(1) obtain k' bs' where g': "g' = L_generated k' bs'" "same_trace b (k, bs) (k', bs')" by (cases g') auto
    have pc1: "program_counter s1 = program_counter t1" by (rule twin_vm(6) [OF g(2)])
    let ?s = "s1\<lparr>trace_cache := (trace_cache s1)(program_counter s1 \<mapsto> (k, bs)),
      bench_compiled := (if b = BENCH then bench_compiled s1 + 1 else bench_compiled s1)\<rparr>"
    let ?t = "t1\<lparr>l_trace_cache := (l_trace_cache t1)(program_counter t1 \<mapsto> (k', bs')),
      l_bench_compiled := (if b = BENCH then l_bench_compiled t1 + 1 else l_bench_compiled t1)\<rparr>"
    have "twin (trace_cache ?s) (l_trace_cache ?t) ?s ?t" using g(2) by (simp add: twin_unfold)
    then have "engines b ?s ?t"
      using twin_engine(10,11) [OF g(2)] caches g'(2) pc1 by (intro enginesI) (auto simp del: same_trace.simps)
    then show ?thesis
      using ok Generated g'(1) by (simp add: compile_pass_def l_compile_pass_def e gcc_total_def orc_total_def)
  next
    case Failed
    with g have "g' = Null_trace" by (cases g') simp_all
    with Failed show ?thesis using twin_engines [OF g(2) caches] by (simp add: compile_pass_def l_compile_pass_def e)
  next
    case Out_of_bounds
    with g have "g' = L_out_of_bounds" by (cases g') simp_all
    with Out_of_bounds show ?thesis by (simp add: compile_pass_def l_compile_pass_def e)
  qed
qed

lemma pass_same:
  assumes ok: "gcc_total b gcc" "orc_total b orc" and st: "engines b s t" and p: "jit_pass gcc b s c \<noteq> Never"
  shows "rel_jit_pass (engines b) (jit_pass gcc b s c) (l_pass orc b t c)"
proof -
  note tw = enginesD(1) [OF st] and caches = enginesD(2) [OF st]
  have pc: "program_counter s = program_counter t" by (rule twin_vm(6) [OF tw])
  show ?thesis
  proof (cases "trace_cache s (program_counter s)")
    case None
    then have none: "l_trace_cache t (program_counter t) = None" using caches [of "program_counter s"] pc by simp
    with None compile_same [OF ok st] show ?thesis by (simp add: jit_pass_def l_pass_def)
  next
    case (Some T)
    then obtain U where U: "l_trace_cache t (program_counter t) = Some U" "same_trace b T U"
      using caches [of "program_counter s"] pc by (auto simp: option_rel_Some1)
    have g: "gcc T = Some (run_trace b T)" "orc U = Some (l_run_trace b U)" using ok unfolding gcc_total_def orc_total_def by blast+
    then obtain r where r: "run_trace b T s = Some r" using p Some by (cases "run_trace b T s") (auto simp: jit_pass_def)
    with run_trace_same [OF U(2) tw] obtain r' where r': "l_run_trace b U t = Some r'" "rel_run (twin (trace_cache s) (l_trace_cache t)) r r'"
      by (auto simp: implied_def)
    show ?thesis
    proof (cases r)
      case (Returns s1)
      with r'(2) obtain t1 where t1: "r' = Returns t1" "twin (trace_cache s) (l_trace_cache t) s1 t1" by (cases r') auto
      then show ?thesis using Some U(1) g r r'(1) Returns after_trace_same [OF t1(2) caches]
        by (simp add: jit_pass_def l_pass_def)
    next
      case (Exits s1)
      with r'(2) obtain t1 where t1: "r' = Exits t1" "twin (trace_cache s) (l_trace_cache t) s1 t1" by (cases r') auto
      then show ?thesis using Some U(1) g r r'(1) Exits twin_engines [OF t1(2) caches]
        by (simp add: jit_pass_def l_pass_def)
    next
      case Undef
      with r'(2) have "r' = Undef" by (cases r') auto
      then show ?thesis using Some U(1) g r r'(1) Undef by (simp add: jit_pass_def l_pass_def)
    qed
  qed
qed

lemma loop_same:
  assumes ok: "gcc_total b gcc" "orc_total b orc" and "jit_loop gcc b s c = Some p" "p \<noteq> Never" "engines b s t"
  shows "\<exists>q. l_loop orc b t c = Some q \<and> rel_jit_pass (engines b) p q"
proof -
  have "gcc_total b gcc \<longrightarrow> orc_total b orc \<longrightarrow> p \<noteq> Never \<longrightarrow>
      (\<forall>t. engines b s t \<longrightarrow> (\<exists>q. l_loop orc b t c = Some q \<and> rel_jit_pass (engines b) p q))"
  proof (rule jit_loop.raw_induct [OF _ assms(3)])
    fix f gcc b and s :: jit and c p
    assume IH: "\<And>gcc b s c p. f gcc b s c = Some p \<Longrightarrow> gcc_total b gcc \<longrightarrow> orc_total b orc \<longrightarrow> p \<noteq> Never \<longrightarrow>
        (\<forall>t. engines b s t \<longrightarrow> (\<exists>q. l_loop orc b t c = Some q \<and> rel_jit_pass (engines b) p q))"
      and eq: "(case jit_pass gcc b s c of Go_on s1 c1 \<Rightarrow> f gcc b s1 c1 | p \<Rightarrow> Some p) = Some p"
    show "gcc_total b gcc \<longrightarrow> orc_total b orc \<longrightarrow> p \<noteq> Never \<longrightarrow>
        (\<forall>t. engines b s t \<longrightarrow> (\<exists>q. l_loop orc b t c = Some q \<and> rel_jit_pass (engines b) p q))"
    proof (intro impI allI)
      fix t assume ok: "gcc_total b gcc" "orc_total b orc" and "p \<noteq> Never" "engines b s t"
      then have "jit_pass gcc b s c \<noteq> Never" using eq by auto
      note same = pass_same [OF ok \<open>engines b s t\<close> this]
      show "\<exists>q. l_loop orc b t c = Some q \<and> rel_jit_pass (engines b) p q"
      proof (cases "jit_pass gcc b s c")
        case (Go_on s1 c1)
        with same obtain t1 where t1: "l_pass orc b t c = Go_on t1 c1" "engines b s1 t1" by (cases "l_pass orc b t c") auto
        have "f gcc b s1 c1 = Some p" using eq Go_on by simp
        from IH [OF this] ok \<open>p \<noteq> Never\<close> t1(2) obtain q where "l_loop orc b t1 c1 = Some q" "rel_jit_pass (engines b) p q" by blast
        then show ?thesis using t1(1) by (subst l_loop.simps) simp
      next
        case (Report s1 c1)
        with same obtain t1 where t1: "l_pass orc b t c = Report t1 c1" "engines b s1 t1" by (cases "l_pass orc b t c") auto
        have "p = Report s1 c1" using Report eq by simp
        then show ?thesis using t1 by (subst l_loop.simps) simp
      next
        case (Exit_error s1)
        with same obtain t1 where t1: "l_pass orc b t c = Exit_error t1" "engines b s1 t1" by (cases "l_pass orc b t c") auto
        have "p = Exit_error s1" using Exit_error eq by simp
        then show ?thesis using t1 by (subst l_loop.simps) simp
      next
        case Never
        with \<open>jit_pass gcc b s c \<noteq> Never\<close> show ?thesis by blast
      next
        case Undefined_run
        with same have t1: "l_pass orc b t c = Undefined_run" by (cases "l_pass orc b t c") auto
        have "p = Undefined_run" using Undefined_run eq by simp
        then show ?thesis using t1 by (subst l_loop.simps) simp
      qed
    qed
  qed
  with assms show ?thesis by blast
qed

section \<open>A run\<close>

lemma started: "twin (\<lambda>_. None) (\<lambda>_. None) (jit_start al e s) (llvm_start al e s)"
  by (simp add: twin_unfold jit_start_def llvm_start_def vm.defs)

lemma twin_boot: "twin G L s t \<Longrightarrow> twin G L (boot b rom s) (boot b rom t)"
  by (cases b)
    (simp_all add: twin_unfold boot_def bench_tick_def bench_now_def Let_def)

lemma booted_engines: "engines b (boot b rom (jit_start al e s)) (boot b rom (llvm_start al e s))"
  by (rule twin_engines [OF twin_boot [OF started]]) simp

text \<open>
  The ends of the two engines' runs that look the same from outside, but for the opcode in an error
  message: only the helpers of \<^verbatim>\<open>libgccjit_jit.c\<close> store the one they execute.
\<close>

fun same_end :: "'a jit_scheme jit_pass \<Rightarrow> 'c llvm_scheme jit_pass \<Rightarrow> bool" where
  "same_end (Report s c) p \<longleftrightarrow>
     (\<exists>t. p = Report t c \<and> machine s = machine t \<and>
        bench_compiled s = l_bench_compiled t \<and> bench_flushes s = l_bench_flushes t)"
| "same_end (Exit_error s) p \<longleftrightarrow> (\<exists>t. p = Exit_error t \<and> machine s = machine t)"
| "same_end Undefined_run p \<longleftrightarrow> p = Undefined_run"
| "same_end (Go_on s c) p \<longleftrightarrow> False"
| "same_end Never p \<longleftrightarrow> False"

lemma engines_outside:
  assumes "engines b s t"
  shows "machine s = machine t" "bench_compiled s = l_bench_compiled t" "bench_flushes s = l_bench_flushes t"
  using enginesD(1) [OF assms] by (simp_all add: twin_def)

lemma jit_loop_ends: "jit_loop gcc b s c \<noteq> Some (Go_on t d)"
proof
  assume "jit_loop gcc b s c = Some (Go_on t d)"
  then have "Go_on t d \<noteq> Go_on t d"
    by (rule jit_loop.raw_induct [rotated]) (auto split: jit_pass.splits)
  then show False by simp
qed

lemma end_same:
  assumes "rel_jit_pass (engines b) p q" "jit_loop gcc b s c = Some p" "p \<noteq> Never"
  shows "same_end p q"
  using assms jit_loop_ends [of gcc b s c] by (cases p; cases q) (auto dest: engines_outside)

text \<open>
  C3: The two trace compilers are interchangeable: in either build, for every ROM, every input and
  every sequence of clock readings and alarms, whatever a run of the libgccjit engine comes to, its
  report, its error or undefined behaviour, the run of the LLVM engine comes to as well, with the
  same registers, memory, display, timers, retired instructions, traces compiled and cache flushes.
  Each compiler is only taken to run what it is given.
\<close>

theorem engines_equivalent:
  assumes "gcc_total b gcc" "orc_total b orc" "jit_main gcc b rom (jit_start al e s) = Inr (Some p)" "p \<noteq> Never"
  shows "\<exists>q. llvm_main orc b rom (llvm_start al e s) = Inr (Some q) \<and> same_end p q"
proof -
  have p: "rom \<noteq> []" "jit_loop gcc b (boot b rom (jit_start al e s)) 0 = Some p"
    using assms(3) by (auto simp: jit_main_def split: if_splits)
  from loop_same [OF assms(1,2) p(2) assms(4) booted_engines] end_same [OF _ p(2) assms(4)] p(1)
  show ?thesis by (auto simp: llvm_main_def)
qed

text \<open>The LLVM engine with a compiler that runs every trace as it is.\<close>

definition orc_demo :: "l_trace \<Rightarrow> (llvm \<Rightarrow> llvm run option) option" where
  "orc_demo T = Some (l_run_trace BENCH T)"

lemma orc_demo_total: "orc_total BENCH orc_demo"
  by (simp add: orc_total_def orc_demo_def)

lemma gcc_demo_total: "gcc_total BENCH gcc_demo"
  by (simp add: gcc_total_def gcc_demo_def)

lemma engines_equivalent_witness:
  "\<exists>u c q. jit_main gcc_demo BENCH [0x12, 0x00] (jit_start (\<lambda>_. False) False spin_vm) = Inr (Some (Report u c)) \<and>
     llvm_main orc_demo BENCH [0x12, 0x00] (llvm_start (\<lambda>_. False) False spin_vm) = Inr (Some q) \<and> same_end (Report u c) q"
proof -
  obtain u c where u: "jit_main gcc_demo BENCH [0x12, 0x00] (jit_start (\<lambda>_. False) False spin_vm) = Inr (Some (Report u c))"
    by (rule spin_jit)
  from engines_equivalent [OF gcc_demo_total orc_demo_total this] u show ?thesis by blast
qed

section \<open>The LLVM engine and the interpreter\<close>

text \<open>
  How the interpreter accounts for an end of the LLVM engine's run: a report is of a state the
  interpreter reaches, with the run over or an opcode next that is not compiled; an exit is an error
  of the interpreter; undefined behaviour is the interpreter's, or a trace that leaves the memory.
\<close>

fun l_explains :: "'a vm_scheme \<Rightarrow> 'c llvm_scheme jit_pass \<Rightarrow> bool" where
  "l_explains s (Report u c) \<longleftrightarrow>
     (\<exists>s'. interp_run (bench_retired u) s = Done 0 s' \<and> uncut (bench_retired u - 1) s \<and> agree s' u \<and>
        (bench_done u \<or> fst (l_codegen BENCH u) = Null_trace) \<and>
        bench_retired u \<le> bench_budget u + BENCH_SAFEPOINT_INTERVAL + MEMORY_SIZE + 1)"
| "l_explains s (Exit_error u) \<longleftrightarrow>
     (\<exists>k r s'. interp_run k s = Done r s' \<and> r \<noteq> 0 \<and> agree s' (u\<lparr>program_counter := program_counter s'\<rparr>))"
| "l_explains s Undefined_run \<longleftrightarrow>
     (\<exists>k. interp_run k s = UB \<or>
       (\<exists>s' u. interp_run k s = Done 0 s' \<and> agree s' (u :: 'c llvm_scheme) \<and> fst (l_codegen BENCH u) = L_out_of_bounds))"
| "l_explains s (Go_on u c) \<longleftrightarrow> False"
| "l_explains s Never \<longleftrightarrow> False"

lemma agree_twin:
  assumes "twin G L u t"
  shows "agree s u = agree s t" "agree s (u\<lparr>program_counter := a\<rparr>) = agree s (t\<lparr>program_counter := a\<rparr>)"
    "bench_done u = bench_done t"
  using assms by (simp_all add: twin_unfold agree_defs bench_done_def)

lemma a_twin: "\<exists>t :: llvm. twin (trace_cache u) (\<lambda>_. None) (u :: jit) t"
proof -
  let ?t = "vm.extend (vm.truncate u)
    \<lparr>l_alarm_seq = alarm_seq u, l_alarm_pos = alarm_pos u, l_interrupt_pending = interrupt_pending u, l_program_over = program_over u,
     l_smc_pending = smc_pending u, l_elide_idle = elide_idle u, l_code_bytes = code_bytes u,
     l_trace_cache = (\<lambda>_. None :: l_trace option), l_bench_compiled = bench_compiled u, l_bench_flushes = bench_flushes u\<rparr> :: llvm"
  have "twin (trace_cache u) (\<lambda>_. None) u ?t" by (simp add: twin_unfold vm.defs)
  then show ?thesis by blast
qed

lemma twin_uncompilable:
  assumes "twin G L (u :: jit) (t :: llvm)" "gcc_total BENCH gcc" "uncompilable gcc u"
  shows "fst (l_codegen BENCH t) = Null_trace"
  using same_codegen(1) [OF assms(1), of BENCH] assms(2,3)
  by (cases "fst (codegen BENCH u)"; cases "fst (l_codegen BENCH t)")
    (simp_all add: uncompilable_def gcc_total_def)

lemma twin_out_of_bounds:
  assumes "twin G L (u :: jit) (t :: llvm)" "fst (codegen BENCH u) = Out_of_bounds"
  shows "fst (l_codegen BENCH t) = L_out_of_bounds"
  using same_codegen(1) [OF assms(1), of BENCH] assms(2) by (cases "fst (l_codegen BENCH t)") simp_all

lemma l_explained:
  fixes s :: vm and p :: "jit jit_pass" and q :: "llvm jit_pass"
  assumes "explains gcc s p" "gcc_total BENCH gcc" "rel_jit_pass (engines BENCH) p q" "bench_retired s = 0"
  shows "l_explains s q"
proof (cases p)
  case (Report u c)
  with assms(3) obtain t where q: "q = Report t c" and ut: "engines BENCH u t" by (cases q) auto
  note tw = enginesD(1) [OF ut]
  from assms(1) Report obtain k s' where
    s': "interp_run k s = Done 0 s'" "agree s' u" "bench_done u \<or> uncompilable gcc u" "uncut (k - 1) s"
    "bench_retired u \<le> bench_budget u + BENCH_SAFEPOINT_INTERVAL + MEMORY_SIZE + 1" by auto
  have "bench_retired t = k"
    using interp_run_retired [OF s'(1)] assms(4) s'(2) twin_vm(11) [OF tw] by (simp add: agree_def)
  then show ?thesis
    using s' agree_twin [OF tw] twin_uncompilable [OF tw assms(2)] twin_vm(11,13) [OF tw] by (auto simp: q)
next
  case (Exit_error u)
  with assms(3) obtain t where q: "q = Exit_error t" and ut: "engines BENCH u t" by (cases q) auto
  from assms(1) Exit_error obtain k r s' where
    s': "interp_run k s = Done r s'" "r \<noteq> 0" "agree s' (u\<lparr>program_counter := program_counter s'\<rparr>)" by auto
  have "agree s' (t\<lparr>program_counter := program_counter s'\<rparr>)" using s'(3) agree_twin(2) [OF enginesD(1) [OF ut]] by blast
  with s'(1,2) show ?thesis by (auto simp: q simp del: interp_run.simps)
next
  case Undefined_run
  with assms(3) have q: "q = Undefined_run" by (cases q) auto
  from assms(1) Undefined_run obtain k where k: "interp_run k s = UB \<or>
    (\<exists>s' u. interp_run k s = Done 0 s' \<and> agree s' (u :: jit) \<and> fst (codegen BENCH u) = Out_of_bounds)" by auto
  have "\<exists>t :: llvm. agree s' t \<and> fst (l_codegen BENCH t) = L_out_of_bounds"
    if u: "agree s' (u :: jit)" "fst (codegen BENCH u) = Out_of_bounds" for s' :: vm and u
  proof -
    obtain t :: llvm where t: "twin (trace_cache u) (\<lambda>_. None) u t" using a_twin by blast
    from twin_out_of_bounds [OF this u(2)] u(1) agree_twin(1) [OF t] show ?thesis by blast
  qed
  with k have "interp_run k s = UB \<or>
    (\<exists>s' u. interp_run k s = Done 0 s' \<and> agree s' (u :: llvm) \<and> fst (l_codegen BENCH u) = L_out_of_bounds)" by blast
  then show ?thesis unfolding q l_explains.simps by blast
qed (use assms(1) in simp_all)

lemma llvm_explained:
  assumes "orc_total BENCH orc" "rom \<noteq> []" "0 < budget" "65 * budget + 8192 < CLOCK_LIMIT"
  shows "\<exists>q. llvm_main orc BENCH rom (llvm_start al e (initial_vm rnd clk polls budget km)) = Inr (Some q) \<and>
    l_explains (boot BENCH rom (initial_vm rnd clk polls budget km)) q"
proof -
  let ?s = "initial_vm rnd clk polls budget km"
  obtain p where p: "jit_main gcc_demo BENCH rom (jit_start al e ?s) = Inr (Some p)" "explains gcc_demo (boot BENCH rom ?s) p"
    using jit_explained [OF gcc_demo_ok assms(2-4)] by blast
  have loop: "jit_loop gcc_demo BENCH (boot BENCH rom (jit_start al e ?s)) 0 = Some p" "p \<noteq> Never"
    using p assms(2) by (auto simp: jit_main_def)
  from loop_same [OF gcc_demo_total assms(1) this booted_engines] obtain q where
    q: "l_loop orc BENCH (boot BENCH rom (llvm_start al e ?s)) 0 = Some q" "rel_jit_pass (engines BENCH) p q" by blast
  have "bench_retired (boot BENCH rom ?s) = 0" by (simp add: boot_BENCH initial_vm_def)
  from l_explained [OF p(2) gcc_demo_total q(2) this] q(1) assms(2) show ?thesis by (simp add: llvm_main_def)
qed

text \<open>
  C4: A \<^verbatim>\<open>BENCH\<close> run of the LLVM engine ends, for every ROM, and the interpreter explains its end,
  as it does for the libgccjit engine: a report counts the instructions it says it retired, and is
  of the state the interpreter has after as many.
\<close>

theorem llvm_run_explained:
  assumes "orc_total BENCH orc" "rom \<noteq> []" "0 < budget" "65 * budget + 8192 < CLOCK_LIMIT"
  shows "\<exists>q. llvm_main orc BENCH rom (llvm_start al e (initial_vm rnd clk polls budget km)) = Inr (Some q) \<and>
    l_explains (boot BENCH rom (initial_vm rnd clk polls budget km)) q"
  by (rule llvm_explained [OF assms])

lemma llvm_run_explained_witness:
  "\<exists>q. llvm_main orc_demo BENCH [0x12, 0x00] (llvm_start (\<lambda>_. False) False (initial_vm (\<lambda>_. 0) (\<lambda>_. 0) (\<lambda>_. []) 100 BENCH_KEYS_NONE)) =
      Inr (Some q) \<and> l_explains (demo_vm [0x12, 0x00]) q"
  unfolding demo_vm_def
  by (rule llvm_run_explained [OF orc_demo_total]) (simp_all add: CLOCK_LIMIT_def BENCH_INSTR_PER_TICK_def)

section \<open>Error messages\<close>

text \<open>
  Where the stack overflows, \<^verbatim>\<open>errer\<close> prints the global \<^verbatim>\<open>op\<close>: the call itself in the libgccjit engine,
  whatever word the code generator read last in the LLVM one.
\<close>

lemma interrupt_opcode: "opcode (interrupt b s) = opcode s"
  by (cases b) (simp_all add: sync_timers_def Let_def split_beta read_keys_ncurses_def)

lemma error_opcodes:
  fixes s :: "'a jit_scheme" and t :: "'c llvm_scheme"
  shows "(l_call b t = Exits v \<longrightarrow> opcode v = opcode t) \<and> (jit_call b s = Exits u \<longrightarrow> opcode u = opcode_at s (program_counter s))"
proof -
  have k: "opcode (check_interrupt b s) = opcode s" for s :: "'a jit_scheme"
    by (simp add: check_interrupt_def Let_def alarm_def interrupt_opcode del: interrupt.simps)
  have l: "opcode (l_check_interrupt b s) = opcode s" for s :: "'c llvm_scheme"
    by (simp add: l_check_interrupt_def Let_def l_alarm_def interrupt_opcode del: interrupt.simps)
  show ?thesis by (auto simp: l_call_def jit_call_def Let_def l_errer_def errer_def k l refetch_def split: if_splits)
qed

end
