(* ===== verification/C8_Bench_Diff.thy ===== *)
theory C8_Bench_Diff
  imports C8_Process C8_Rerun C8_Llvm_Thms C8_Text
begin

text \<open>
  The differential test \<^verbatim>\<open>scripts/bench_diff.py\<close>: an engine is run, the interpreter is run, and run
  again for as many instructions as the engine retired, and the states they report are compared.
\<close>

section \<open>The script\<close>

text \<open>Python's \<^verbatim>\<open>str.isspace\<close>, of a character below 256.\<close>

definition py_space :: "char \<Rightarrow> bool" where
  "py_space c \<longleftrightarrow> code c \<in> {9..13} \<union> {28..32} \<union> {0x85, 0xA0}"

definition strip :: "string \<Rightarrow> string" where
  "strip s = rev (dropWhile py_space (rev (dropWhile py_space s)))"

text \<open>One line of \<^verbatim>\<open>stderr\<close>, and the dictionary \<^verbatim>\<open>state\<close>: a later line overrides an earlier one.\<close>

definition parse_line :: "string \<Rightarrow> (string \<times> string) option" where
  "parse_line line =
     (if CHR ''='' \<in> set line
      then Some (strip (takeWhile (\<lambda>c. c \<noteq> CHR ''='') line), strip (tl (dropWhile (\<lambda>c. c \<noteq> CHR ''='') line)))
      else if take 11 line = ''stack depth'' then Some (''stack depth'', strip line)
      else None)"

fun report_state :: "string list \<Rightarrow> string \<Rightarrow> string option" where
  "report_state [] = Map.empty"
| "report_state (line # lines) =
     (case parse_line line of None \<Rightarrow> report_state lines | Some (k, v) \<Rightarrow> [k \<mapsto> v] ++ report_state lines)"

definition STATE_FIELDS :: "string list" where
  "STATE_FIELDS = map (\<lambda>i. ''V'' @ hex i) [0..<16] @
     [''$pc'', ''$addr'', ''stack depth'', ''delay'', ''sound'', ''display'', ''retired'']"

definition compare :: "(string \<Rightarrow> string option) \<Rightarrow> (string \<Rightarrow> string option) \<Rightarrow> string list" where
  "compare ref other = filter (\<lambda>f. ref f \<noteq> None \<and> other f \<noteq> None \<and> ref f \<noteq> other f) STATE_FIELDS"

text \<open>\<^verbatim>\<open>run\<close>; \<open>None\<close> is the exit when a program produced no report.\<close>

definition bench_args :: "string \<Rightarrow> string \<Rightarrow> string \<Rightarrow> string \<Rightarrow> string list" where
  "bench_args rom instructions seed keys = [rom, ''--instructions'', instructions, ''--seed'', seed, ''--keys'', keys]"

definition run_program :: "(string list \<Rightarrow> process) \<Rightarrow> string list \<Rightarrow> (string \<Rightarrow> string option) option" where
  "run_program exe args =
     (case exe args of
        Exited status lines \<Rightarrow>
          if report_state lines ''retired'' = None then None else Some (report_state lines)
      | _ \<Rightarrow> None)"

text \<open>
  The body of the loop of \<^verbatim>\<open>main\<close>, for one ROM and one engine: the fields that differ. The count
  goes through \<^verbatim>\<open>int\<close> and \<^verbatim>\<open>str\<close>, which give the printed decimal back.
\<close>

definition bench_diff :: "(string list \<Rightarrow> process) \<Rightarrow> (string list \<Rightarrow> process) \<Rightarrow> string \<Rightarrow> string \<Rightarrow> string \<Rightarrow> string \<Rightarrow> string list option" where
  "bench_diff interp engine rom instructions seed keys =
     (case (run_program interp (bench_args rom instructions seed keys), run_program engine (bench_args rom instructions seed keys)) of
        (Some base, Some got) \<Rightarrow>
          map_option (\<lambda>ref. compare ref got)
            (if got ''retired'' \<noteq> base ''retired''
             then run_program interp (bench_args rom (the (got ''retired'')) seed keys)
             else Some base)
      | _ \<Rightarrow> None)"

section \<open>Decimal numbers\<close>

lemma digit_chars: "d < 10 \<Longrightarrow> code (hexd d) = 48 + d"
  by (simp add: code_hexd)

lemma dec_chars: "c \<in> set (dec n) \<Longrightarrow> 48 \<le> code c \<and> code c \<le> 57"
proof (induction n rule: less_induct)
  case (less n)
  show ?case
  proof (cases "n < 10")
    case True
    then show ?thesis using less.prems digit_chars [of n] by (simp add: numeral_of.simps [of 10 n])
  next
    case False
    then show ?thesis using less.prems less.IH [of "n div 10"] digit_chars [of "n mod 10"]
      by (auto simp: numeral_of.simps [of 10 n])
  qed
qed

lemma dec_nonempty [simp]: "dec n \<noteq> []"
  by (subst numeral_of.simps) simp

lemma read_dec: "read_digits 10 0 (dec n) = (n, [])"
proof (induction n rule: less_induct)
  case (less n)
  have val: "digit_val (hexd d) = d" if "d < 10" for d
    using digit_chars [OF that] that by (simp add: digit_val_def isdigit_def)
  show ?case
  proof (cases "n < 10")
    case True
    then show ?thesis by (simp add: numeral_of.simps [of 10 n] val)
  next
    case False
    have "read_digits 10 0 (dec (n div 10) @ [hexd (n mod 10)]) =
        read_digits 10 (fst (read_digits 10 0 (dec (n div 10)))) [hexd (n mod 10)]"
      by (rule read_digits_append) (use dec_chars in \<open>fastforce simp: digit_val_def isdigit_def\<close>)
    then show ?thesis using less [of "n div 10"] False val [of "n mod 10"] by (simp add: numeral_of.simps [of 10 n])
  qed
qed

lemma dec_eq: "dec m = dec n \<longleftrightarrow> m = n"
  by (metis read_dec fst_conv)

lemma not_space_dec: "c \<in> set (dec n) \<Longrightarrow> \<not> isspace c"
  using dec_chars by (fastforce simp: isspace_def)

lemma atoll_dec: "int n < 2 ^ 63 \<Longrightarrow> atoll (dec n) = Some (int n)"
proof -
  assume n: "int n < 2 ^ 63"
  obtain c cs where d: "dec n = c # cs" using dec_nonempty by (cases "dec n") auto
  have "c \<noteq> CHR ''-''" "c \<noteq> CHR ''+''" "\<not> isspace c"
    using dec_chars [of c n] d not_space_dec [of c n] by (auto simp: code_def)
  then have "read_sign (dropWhile isspace (dec n)) = (False, dec n)" by (simp add: d read_sign_def)
  then show ?thesis using n by (simp add: atoll_def read_dec)
qed

lemma strip_dec: "strip (CHR '' '' # dec n) = dec n"
proof -
  have "\<not> py_space c" if "c \<in> set (dec n)" for c using dec_chars [OF that] by (auto simp: py_space_def)
  then have ns: "dropWhile py_space (dec n) = dec n" "dropWhile py_space (rev (dec n)) = rev (dec n)"
    using hd_in_set [OF dec_nonempty [of n]] last_in_set [OF dec_nonempty [of n]]
    by (simp_all add: dropWhile_eq_self_iff hd_rev)
  show ?thesis by (simp add: strip_def py_space_def [of "CHR '' ''"] code_def ns)
qed

section \<open>Reports of one machine\<close>

lemma report_state_append: "report_state (xs @ ys) = report_state xs ++ report_state ys"
  by (induction xs) (simp_all split: option.split)

lemma parse_assignment:
  assumes "CHR ''='' \<notin> set k"
  shows "parse_line (k @ CHR ''='' # v) = Some (strip k, strip v)"
proof -
  have "\<forall>c\<in>set k. c \<noteq> CHR ''=''" using assms by auto
  then show ?thesis by (simp add: parse_line_def takeWhile_append dropWhile_append)
qed

text \<open>Lines the comparison does not see.\<close>

definition unseen :: "string \<Rightarrow> bool" where
  "unseen line \<longleftrightarrow> (\<forall>k v. parse_line line = Some (k, v) \<longrightarrow> k \<notin> set STATE_FIELDS)"

lemma report_state_unseen:
  assumes "f \<in> set STATE_FIELDS" "\<forall>line\<in>set xs. unseen line"
  shows "report_state xs f = None"
  using assms by (induction xs) (auto simp: unseen_def split: option.split)

lemma unseen_executed:
  assumes "label \<in> {''traces'', ''chip-8 instructions''}"
  shows "unseen (dec n @ '' '' @ label @ '' executed'')"
proof -
  have "CHR ''='' \<notin> set (dec n)" using dec_chars [of "CHR ''=''" n] by (auto simp: code_def)
  then have "parse_line (dec n @ '' '' @ label @ '' executed'') = None"
    using assms dec_chars [of "hd (dec n)" n] by (auto simp: parse_line_def) (cases "dec n"; auto simp: code_def)+
  then show ?thesis by (simp add: unseen_def)
qed

lemma unseen_counters: "unseen (''engine = '' @ v)" "unseen (''compiled = '' @ v)" "unseen (''flushes = '' @ v)"
proof -
  have "parse_line (''engine = '' @ v) = Some (''engine'', strip ('' '' @ v))"
    "parse_line (''compiled = '' @ v) = Some (''compiled'', strip ('' '' @ v))"
    "parse_line (''flushes = '' @ v) = Some (''flushes'', strip ('' '' @ v))"
    using parse_assignment [of "''engine ''" "'' '' @ v"] parse_assignment [of "''compiled ''" "'' '' @ v"]
      parse_assignment [of "''flushes ''" "'' '' @ v"] by (simp_all add: strip_def py_space_def code_def)
  moreover have "''engine'' \<notin> set STATE_FIELDS" "''compiled'' \<notin> set STATE_FIELDS" "''flushes'' \<notin> set STATE_FIELDS"
    by (auto simp: STATE_FIELDS_def)
  ultimately show "unseen (''engine = '' @ v)" "unseen (''compiled = '' @ v)" "unseen (''flushes = '' @ v)"
    by (simp_all add: unseen_def)
qed

lemma bench_report_parts:
  fixes s :: "'a vm_scheme"
  shows "\<exists>a b c d. \<forall>e l n i j. bench_report e l n sd i j s =
    a @ [dec n @ '' '' @ l @ '' executed''] @ b @ [''engine = '' @ e] @
    (c @ [''retired = '' @ dec (bench_retired s)]) @ [''compiled = '' @ dec i] @ [''flushes = '' @ dec j] @ d"
proof -
  define u where "u = sync_timers s"
  have r: "bench_retired s = bench_retired u" by (simp add: u_def sync_timers_def Let_def)
  have "\<forall>e l n i j. bench_report e l n sd i j s =
    map (\<lambda>i. ''V'' @ hex i @ '' = 0x'' @ hexp 2 (unat (regs u ! i))) [0..<REGFILE_SIZE] @ [dec n @ '' '' @ l @ '' executed''] @
    ([''$pc = 0x'' @ hexp 4 (unat (program_counter u)), ''$addr = 0x'' @ hexp 4 (unat (addr u)),
      ''stack depth = '' @ sdec (sint (stack_pointer u))] @
     (if sint (stack_pointer u) > 0
      then [''stack['' @ sdec (sint (stack_pointer u) - 1) @ ''] = 0x'' @
            hexp 4 (unat (stack u ! nat (sint (stack_pointer u) - 1)))]
      else []) @
     [''delay = '' @ dec (unat (delay_timer u)), ''sound = '' @ dec (unat (sound_timer u))]) @
    [''engine = '' @ e] @
    ([''seed = '' @ dec sd, ''keys = '' @ (if bench_key_mode u = BENCH_KEYS_NONE then ''none'' else ''rotate'')] @
     [''retired = '' @ dec (bench_retired s)]) @ [''compiled = '' @ dec i] @ [''flushes = '' @ dec j] @
    [''clock = '' @ dec (bench_now u), ''display = 0x'' @ map tolower (hexp 16 (unat (bench_display_hash u)))]"
    unfolding bench_report_def dump_chip8_state_def Let_def u_def [symmetric] r
    by (simp only: append.simps append_assoc simp_thms)
  then show ?thesis by blast
qed

lemma report_state_same:
  assumes "f \<in> set STATE_FIELDS" "{l1, l2} \<subseteq> {''traces'', ''chip-8 instructions''}"
  shows "report_state (bench_report e1 l1 n1 sd i1 j1 s) f = report_state (bench_report e2 l2 n2 sd i2 j2 s) f"
proof -
  have drop: "report_state (xs @ [line] @ ys) f = report_state (xs @ ys) f" if "unseen line" for xs ys line
    using assms(1) that by (auto simp: report_state_append unseen_def map_add_def split: option.split)
  obtain a b c d where r: "\<forall>e l n i j. bench_report e l n sd i j s =
      a @ [dec n @ '' '' @ l @ '' executed''] @ b @ [''engine = '' @ e] @
      (c @ [''retired = '' @ dec (bench_retired s)]) @ [''compiled = '' @ dec i] @ [''flushes = '' @ dec j] @ d"
    using bench_report_parts [of sd s] by blast
  let ?c = "c @ [''retired = '' @ dec (bench_retired s)]"
  have "report_state (bench_report e l n sd i j s) f = report_state (a @ b @ ?c @ d) f"
    if "l \<in> {''traces'', ''chip-8 instructions''}" for e l n i j
    unfolding r [rule_format]
    using drop [OF unseen_executed [OF that], of a n "b @ [''engine = '' @ e] @ ?c @ [''compiled = '' @ dec i] @ [''flushes = '' @ dec j] @ d"]
      drop [OF unseen_counters(1), of "a @ b" e "?c @ [''compiled = '' @ dec i] @ [''flushes = '' @ dec j] @ d"]
      drop [OF unseen_counters(2), of "a @ b @ ?c" "dec i" "[''flushes = '' @ dec j] @ d"]
      drop [OF unseen_counters(3), of "a @ b @ ?c" "dec j" d]
    by (simp only: append_assoc)
  then show ?thesis using assms(2) by simp
qed

lemma parse_assignments:
  "parse_line (''retired = '' @ v) = Some (''retired'', strip (CHR '' '' # v))"
  "parse_line (''clock = '' @ v) = Some (''clock'', strip (CHR '' '' # v))"
  "parse_line (''display = '' @ v) = Some (''display'', strip (CHR '' '' # v))"
  "parse_line (''compiled = '' @ v) = Some (''compiled'', strip (CHR '' '' # v))"
  "parse_line (''flushes = '' @ v) = Some (''flushes'', strip (CHR '' '' # v))"
  using parse_assignment [of "''retired ''" "'' '' @ v"] parse_assignment [of "''clock ''" "'' '' @ v"]
    parse_assignment [of "''display ''" "'' '' @ v"] parse_assignment [of "''compiled ''" "'' '' @ v"]
    parse_assignment [of "''flushes ''" "'' '' @ v"]
  by (simp_all add: strip_def py_space_def code_def)

lemma report_state_retired: "report_state (bench_report e l n sd i j s) ''retired'' = Some (dec (bench_retired s))"
proof -
  define u where "u = sync_timers s"
  have r: "bench_retired u = bench_retired s" by (simp add: u_def sync_timers_def Let_def)
  have "\<exists>xs. bench_report e l n sd i j s = xs @ [''retired = '' @ dec (bench_retired u)] @ [''compiled = '' @ dec i] @
      [''flushes = '' @ dec j] @ [''clock = '' @ dec (bench_now u)] @
      [''display = '' @ ''0x'' @ map tolower (hexp 16 (unat (bench_display_hash u)))]"
    unfolding bench_report_def Let_def u_def [symmetric]
    by (rule exI [of _ "dump_chip8_state l n u @ [''engine = '' @ e, ''seed = '' @ dec sd,
        ''keys = '' @ (if bench_key_mode u = BENCH_KEYS_NONE then ''none'' else ''rotate'')]"])
      (simp only: append.simps append_assoc simp_thms)
  then obtain xs where xs: "bench_report e l n sd i j s = xs @ [''retired = '' @ dec (bench_retired u)] @ [''compiled = '' @ dec i] @
      [''flushes = '' @ dec j] @ [''clock = '' @ dec (bench_now u)] @
      [''display = '' @ ''0x'' @ map tolower (hexp 16 (unat (bench_display_hash u)))]" by blast
  show ?thesis
    unfolding xs report_state_append report_state.simps parse_assignments option.case prod.case
    by (simp add: map_add_def strip_dec r)
qed

lemma compare_same: "(\<And>f. f \<in> set STATE_FIELDS \<Longrightarrow> r1 f = r2 f) \<Longrightarrow> compare r1 r2 = []"
  by (simp add: compare_def filter_empty_conv)

lemma bench_report_rebudget: "bench_report e l n sd i j (rebudget k m s) = bench_report e l n sd i j s"
  by (simp add: bench_report_def dump_chip8_state_def rebudget_sync Let_def)
    (simp add: rebudget_def bench_display_hash_def)

section \<open>The runs of the interpreter\<close>

lemma first_stop:
  assumes "interp_run k s = Done 0 s'" "bench_done s'" "\<not> bench_done s"
  obtains j sj where "j \<le> k" "interp_run j s = Done 0 sj" "interp_loop BENCH e s 0 = Some (Stop sj j)"
proof -
  let ?P = "\<lambda>j. \<exists>sj. interp_run j s = Done 0 sj \<and> bench_done sj"
  have k: "?P k" using assms(1,2) by blast
  define j where "j = (LEAST j. ?P j)"
  have j: "?P j" "j \<le> k" "\<And>i. i < j \<Longrightarrow> \<not> ?P i"
    unfolding j_def by (rule LeastI [of ?P, OF k], rule Least_le [of ?P, OF k], rule not_less_Least)
  then obtain sj where sj: "interp_run j s = Done 0 sj" "bench_done sj" by blast
  have "j \<noteq> 0" using sj assms(3) by (intro notI) simp
  then obtain i where i: "j = Suc i" by (cases j) auto
  have "interp_loop BENCH e s 0 = Some (Stop sj (0 + Suc i))"
    by (rule loop_of_run [OF sj(1) [unfolded i] sj(2)]) (use j(3) i less_Suc_eq_le in blast)
  then show thesis using that [of j sj] i j(2) sj(1) by simp
qed

text \<open>Where an engine reports a machine the interpreter reaches, so does the interpreter.\<close>

lemma reruns:
  fixes u :: "'c vm_scheme"
  assumes run: "interp_run k s0 = Done 0 s'" "uncut (k - 1) s0" "agree s' u"
    and s0: "s0 = boot BENCH bytes (initial_vm rnd clk polls budget km)" "0 < budget" "bytes \<noteq> []"
    and u: "bench_done u" "bench_now u < bench_clock_cap u"
  shows "bench_retired u = k" "budget \<le> k"
    and "\<exists>v. interp_main BENCH e bytes (initial_vm rnd clk polls k km) = Inr (Some (Stop v k)) \<and>
      (\<forall>en la n sd i j. bench_report en la n sd i j v = bench_report en la n sd i j u)"
    and "\<exists>v j. interp_main BENCH e bytes (initial_vm rnd clk polls budget km) = Inr (Some (Stop v j)) \<and> bench_retired v = j \<and>
      (j = k \<longrightarrow> (\<forall>en la n sd i j. bench_report en la n sd i j v = bench_report en la n sd i j u))"
proof -
  have init: "bench_retired s0 = 0" "bench_budget s0 = budget" "bench_clock_cap s0 = budget * BENCH_CLOCK_CAP_FACTOR" "bench_now s0 = 0"
    by (simp_all add: s0(1) boot_BENCH bench_now_def) (simp_all add: initial_vm_def)
  have s': "bench_retired s' = k" "bench_budget s' = budget" "bench_clock_cap s' = budget * BENCH_CLOCK_CAP_FACTOR"
    using interp_run_retired [OF run(1)] interp_run_budget [OF run(1)] interp_run_cap [OF run(1)] init by simp_all
  have eq: "bench_retired s' = bench_retired u" "bench_now s' = bench_now u" "bench_budget s' = bench_budget u"
    "bench_clock_cap s' = bench_clock_cap u"
    using run(3) by (simp_all add: agree_def bench_now_def)
  show k: "bench_retired u = k" using s'(1) eq(1) by simp
  show b: "budget \<le> k" using u s' eq by (auto simp: bench_done_def)
  have rep: "bench_report en la n sd i j s' = bench_report en la n sd i j u" for en la n sd i j by (rule bench_report_agree [OF run(3)])
  let ?m = "k * BENCH_CLOCK_CAP_FACTOR"
  have cap: "bench_clock_cap s0 \<le> ?m" "bench_now s' < ?m"
    using init(3) b u(2) eq s'(3) by (simp_all add: BENCH_CLOCK_CAP_FACTOR_def)
  have "interp_loop BENCH e (rebudget k ?m s0) 0 = Some (Stop (rebudget k ?m s') k)"
    by (rule rerun [OF run(1,2) init(1) _ _ cap]) (use b s0(2) init(2) in auto)
  moreover have "boot BENCH bytes (initial_vm rnd clk polls k km) = rebudget k ?m s0"
    by (simp add: s0(1) boot_BENCH rebudget_def) (simp add: initial_vm_def bench_tick_def bench_now_def)
  ultimately show "\<exists>v. interp_main BENCH e bytes (initial_vm rnd clk polls k km) = Inr (Some (Stop v k)) \<and>
      (\<forall>en la n sd i j. bench_report en la n sd i j v = bench_report en la n sd i j u)"
    using s0(3) rep by (auto simp: interp_main_def bench_report_rebudget)
  have over: "bench_done s'" using u(1) agree_done [OF run(3)] by simp
  have "\<not> bench_done s0" using init s0(2) by (simp add: bench_done_def BENCH_CLOCK_CAP_FACTOR_def)
  from first_stop [OF run(1) over this] obtain j sj where j: "interp_run j s0 = Done 0 sj" "interp_loop BENCH e s0 0 = Some (Stop sj j)" by metis
  have "bench_retired sj = j" using interp_run_retired [OF j(1)] init(1) by simp
  moreover have "j = k \<Longrightarrow> sj = s'" using j(1) run(1) by simp
  ultimately show "\<exists>v j. interp_main BENCH e bytes (initial_vm rnd clk polls budget km) = Inr (Some (Stop v j)) \<and> bench_retired v = j \<and>
      (j = k \<longrightarrow> (\<forall>en la n sd i j. bench_report en la n sd i j v = bench_report en la n sd i j u))"
    using j(2) s0(1,3) rep by (auto simp: interp_main_def)
qed

section \<open>The script accepts the engines\<close>

lemma parse_bench_args:
  assumes "take 1 rom \<noteq> ''-''" "atoll n = Some (int budget)" "0 < budget" "int budget * int BENCH_CLOCK_CAP_FACTOR < 2 ^ 63"
  shows "bench_parse_args (bench_args rom n seed (if km = BENCH_KEYS_NONE then ''none'' else ''rotate'')) =
    Parsed \<lparr>opt_budget = int budget, opt_seed = fst (strtoul seed) mod 2 ^ 32, opt_keys = km, opt_rom = Some rom\<rparr>
      (int budget * int BENCH_CLOCK_CAP_FACTOR)"
proof -
  have "rom \<noteq> ''--instructions''" "rom \<noteq> ''--seed''" "rom \<noteq> ''--keys''" "rom = [] \<or> hd rom \<noteq> CHR ''-''"
    using assms(1) by (cases rom; auto)+
  then show ?thesis
    using assms(2-4) by (cases km) (auto simp: bench_parse_args_def bench_args_def default_options_def Let_def)
qed

definition keys_name :: "key_mode \<Rightarrow> string" where
  "keys_name km = (if km = BENCH_KEYS_NONE then ''none'' else ''rotate'')"

text \<open>The machine a program starts from, given the script's arguments.\<close>

definition started :: "outside \<Rightarrow> string \<Rightarrow> nat \<Rightarrow> key_mode \<Rightarrow> vm" where
  "started w seed budget km = initial_vm (srand w (fst (strtoul seed) mod 2 ^ 32)) (nanoseconds w) (terminal w) budget km"

lemma started_process:
  assumes "take 1 rom \<noteq> ''-''" "atoll n = Some (int budget)" "0 < budget" "int budget * int BENCH_CLOCK_CAP_FACTOR < 2 ^ 63"
    "opened w rom = Some bytes"
  shows "engine_process BENCH w (bench_args rom n seed (keys_name km)) go =
    go False (fst (strtoul seed) mod 2 ^ 32) bytes (started w seed budget km)"
  unfolding engine_process_def keys_name_def parse_bench_args [OF assms(1-4)]
  by (simp add: assms(5) init_chip8_def started_def)

lemma run_program_report:
  assumes "exe args = Exited status (bench_report en la n sd i j s)"
  shows "\<exists>r. run_program exe args = Some r \<and> r ''retired'' = Some (dec (bench_retired s)) \<and>
    r = report_state (bench_report en la n sd i j s)"
  using assms by (simp add: run_program_def report_state_retired)

lemma bench_diff_none:
  assumes "run_program interp (bench_args rom n seed keys) = Some base" "base ''retired'' = Some (dec j)"
    "run_program engine (bench_args rom n seed keys) = Some got" "got ''retired'' = Some (dec k)"
    "run_program interp (bench_args rom (dec k) seed keys) = Some ref" "compare ref got = []" "j = k \<Longrightarrow> compare base got = []"
  shows "bench_diff interp engine rom n seed keys = Some []"
  using assms by (simp add: bench_diff_def dec_eq)

lemma interp_process_report:
  assumes "take 1 rom \<noteq> ''-''" "atoll n = Some (int budget)" "0 < budget" "int budget * int BENCH_CLOCK_CAP_FACTOR < 2 ^ 63"
    "opened w rom = Some bytes" "interp_main BENCH False bytes (started w seed budget km) = Inr (Some (Stop v c))"
  shows "interp_process BENCH w (bench_args rom n seed (keys_name km)) =
    Exited 0 (bench_report ''interp'' ''chip-8 instructions'' c (fst (strtoul seed) mod 2 ^ 32) 0 0 v)"
  by (simp add: interp_process_def started_process [OF assms(1-5)] final_report_def assms(6))

lemma script_passes:
  fixes u :: "'c vm_scheme"
  assumes run: "interp_run k s0 = Done 0 s'" "uncut (k - 1) s0" "agree s' u" "s0 = boot BENCH bytes (started w seed budget km)" "bytes \<noteq> []"
    and cl: "take 1 rom \<noteq> ''-''" "atoll n = Some (int budget)" "0 < budget" "65 * budget + 8192 < CLOCK_LIMIT" "opened w rom = Some bytes"
    and u: "bench_done u" "bench_now u < bench_clock_cap u" "k \<le> budget + BENCH_SAFEPOINT_INTERVAL + MEMORY_SIZE + 1"
    and engine: "engine (bench_args rom n seed (keys_name km)) = Exited 0 (bench_report en ''traces'' c (fst (strtoul seed) mod 2 ^ 32) i j u)"
  shows "bench_diff (interp_process BENCH w) engine rom n seed (keys_name km) = Some []"
proof -
  let ?P = "interp_process BENCH w" and ?seed = "fst (strtoul seed) mod 2 ^ 32"
  have s0: "s0 = boot BENCH bytes (initial_vm (srand w ?seed) (nanoseconds w) (terminal w) budget km)"
    using run(4) by (simp add: started_def)
  note again = reruns [OF run(1-3) s0 cl(3) run(5) u(1,2)]
  have lim: "int budget * int BENCH_CLOCK_CAP_FACTOR < 2 ^ 63" "int k < 2 ^ 63" "int k * int BENCH_CLOCK_CAP_FACTOR < 2 ^ 63" "0 < k"
    using cl(3,4) u(3) again(2) by (simp_all add: CLOCK_LIMIT_def BENCH_INSTR_PER_TICK_def BENCH_CLOCK_CAP_FACTOR_def
      BENCH_SAFEPOINT_INTERVAL_def MEMORY_SIZE_def)
  let ?lines = "\<lambda>n v. bench_report ''interp'' ''chip-8 instructions'' n ?seed 0 0 v"
  obtain v j' where vj: "interp_main BENCH False bytes (started w seed budget km) = Inr (Some (Stop v j'))" "bench_retired v = j'"
    "j' = k \<longrightarrow> (\<forall>en la n sd i j. bench_report en la n sd i j v = bench_report en la n sd i j u)"
    using again(4) [of False] unfolding started_def by blast
  obtain v2 where v2: "interp_main BENCH False bytes (started w seed k km) = Inr (Some (Stop v2 k))"
    "\<forall>en la n sd i j. bench_report en la n sd i j v2 = bench_report en la n sd i j u"
    using again(3) [of False] unfolding started_def by blast
  note first = interp_process_report [OF cl(1-3) lim(1) cl(5) vj(1)]
    and rerun = interp_process_report [OF cl(1) atoll_dec [OF lim(2)] lim(4,3) cl(5) v2(1)]
  have same: "compare (report_state (?lines k u)) (report_state (bench_report en ''traces'' c ?seed i j u)) = []"
    by (intro compare_same report_state_same) auto
  have base: "run_program ?P (bench_args rom n seed (keys_name km)) = Some (report_state (?lines j' v))"
    "report_state (?lines j' v) ''retired'' = Some (dec j')"
    using run_program_report [of ?P, OF first] vj(2) by simp_all
  have got: "run_program engine (bench_args rom n seed (keys_name km)) = Some (report_state (bench_report en ''traces'' c ?seed i j u))"
    "report_state (bench_report en ''traces'' c ?seed i j u) ''retired'' = Some (dec k)"
    using run_program_report [of engine, OF engine] again(1) by simp_all
  have second: "run_program ?P (bench_args rom (dec k) seed (keys_name km)) = Some (report_state (?lines k u))"
    using run_program_report [of ?P, OF rerun] v2(2) by simp
  show ?thesis by (rule bench_diff_none [OF base got second same]) (use same vj(3) in metis)
qed

lemma twin_report:
  assumes "gcc_total BENCH gcc" "orc_total BENCH orc" "jit_main gcc BENCH rom (jit_start al e s) = Inr (Some (Report u c))"
    "bench_done u" "bench_now u < bench_clock_cap u"
  obtains t where "llvm_main orc BENCH rom (llvm_start al e s) = Inr (Some (Report t c))" "bench_done t" "bench_now t < bench_clock_cap t"
proof -
  have rom: "rom \<noteq> []" "jit_loop gcc BENCH (boot BENCH rom (jit_start al e s)) 0 = Some (Report u c)"
    using assms(3) by (auto simp: jit_main_def split: if_splits)
  from loop_same [OF assms(1,2) rom(2) _ booted_engines] obtain q where
    q: "l_loop orc BENCH (boot BENCH rom (llvm_start al e s)) 0 = Some q" "rel_jit_pass (engines BENCH) (Report u c) q" by blast
  then obtain t where t: "q = Report t c" "engines BENCH u t" by (cases q) auto
  note tw = enginesD(1) [OF t(2)]
  show thesis
    by (rule that [of t])
      (use q(1) t(1) rom(1) assms(4,5) agree_twin(3) [OF tw] tw in
        \<open>simp_all add: llvm_main_def twin_unfold bench_now_def\<close>)
qed



section \<open>A run of the script\<close>

definition spin_host :: outside where
  "spin_host = \<lparr>opened = (\<lambda>f. if f = ''SPIN'' then Some [0x12, 0x00] else None), writable = (\<lambda>_. True), srand = (\<lambda>_ _. 0),
     wall_time = 0, nanoseconds = (\<lambda>_. 0), terminal = (\<lambda>_. [])\<rparr>"

lemma spin_arguments: "take 1 ''SPIN'' \<noteq> ''-''" "atoll ''100'' = Some (int 100)" "opened spin_host ''SPIN'' = Some [0x12, 0x00]"
  "65 * 100 + 8192 < CLOCK_LIMIT" "(0::nat) < 100"
  by (simp_all add: spin_host_def atoll_def read_sign_def isspace_def digit_val_def isdigit_def code_def CLOCK_LIMIT_def BENCH_INSTR_PER_TICK_def)

lemma host_spin_report:
  obtains u c where "jit_main gcc_demo BENCH [0x12, 0x00] (jit_start (\<lambda>_. False) False (started spin_host ''1'' 100 BENCH_KEYS_NONE)) =
      Inr (Some (Report u c))" "bench_done u" "bench_now u < bench_clock_cap u"
proof -
  obtain u c where u: "jit_main gcc_demo BENCH [0x12, 0x00] (jit_start (\<lambda>_. False) False (started spin_host ''1'' 100 BENCH_KEYS_NONE)) =
      Inr (Some (Report u c))" "bench_done u" "bench_poll_clock u = 0" "bench_clock_cap u = 100 * BENCH_CLOCK_CAP_FACTOR"
    "bench_retired u \<le> 100 + BENCH_SAFEPOINT_INTERVAL + MEMORY_SIZE + 1"
    unfolding started_def by (rule spin_report [OF spin_arguments(5,4), where al = "\<lambda>_. False" and e = False]) blast
  have "bench_now u < bench_clock_cap u"
    using u(3-5) by (simp add: bench_now_def BENCH_CLOCK_CAP_FACTOR_def BENCH_SAFEPOINT_INTERVAL_def MEMORY_SIZE_def)
  with u(1,2) show thesis by (rule that)
qed



end
