(* ===== verification/Spec2Isabelle.thy ===== *)
theory Spec2Isabelle
  imports C8_Asm_Thms C8_Roundtrip C8_Flow C8_Aot_Thms C8_Bench_Diff
begin

text \<open>
  A verification of the CHIP-8 engines and tools of this repository, directory \<^verbatim>\<open>src/\<close>.

  \<^bold>\<open>The program.\<close> \<^verbatim>\<open>chip8.c\<close> and \<^verbatim>\<open>chip8.h\<close> hold the machine state (4 KiB of memory, sixteen
  registers, stack, address register, program counter). Behind \<^verbatim>\<open>io.h\<close> stand two I/O layers:
  the terminal (\<^verbatim>\<open>ncurses_io.c\<close>) and a headless one for benchmarks (\<^verbatim>\<open>bench_io.c\<close>,
  \<^verbatim>\<open>bench.h\<close>), whose virtual clock and synthetic keyboard make runs reproducible. The engines
  execute a ROM: an interpreter (\<^verbatim>\<open>interp.c\<close>), trace compilers (\<^verbatim>\<open>libgccjit_jit.c\<close>,
  \<^verbatim>\<open>llvm_jit.cpp\<close>) and an ahead-of-time compiler with its runtime (\<^verbatim>\<open>aot.c\<close>,
  \<^verbatim>\<open>aot_runtime.c\<close>). Two tools work on ROM files: the assembler \<^verbatim>\<open>asm.c\<close> and the disassembler
  \<^verbatim>\<open>disas.c\<close>. The macro \<^verbatim>\<open>BENCH\<close> selects the headless build; the model has both builds, as
  the first argument \<open>b\<close> of a definition where they differ.

  \<^bold>\<open>Theories.\<close>
  \<^item> \<open>C8_Prelude\<close>: word types and facts on words shared by all theories.
  \<^item> \<open>C8_State\<close>: \<^verbatim>\<open>chip8.h\<close>, \<^verbatim>\<open>chip8.c\<close> and the loop recogniser of \<^verbatim>\<open>idle.h\<close>.
  \<^item> \<open>C8_Io\<close>, \<open>C8_Io_Props\<close>: framebuffer, blitters, virtual clock and keys; facts on drawing.
  \<^item> \<open>C8_Interp\<close>: the interpreter, one definition per C function, and its main loop.
    \<open>C8_Interp_Inv\<close> (what every handler keeps), \<open>C8_Interp_Bench\<close> (the deterministic build stops),
    \<open>C8_Interp_Spec\<close>, \<open>C8_Interp_Moves\<close> (arithmetic, calls, memory moves), \<open>C8_Interp_Rel\<close> (relations
    every instruction respects), \<open>C8_Interp_Time\<close> (lazy timers, consumable keys, the elided delay
    loop), \<open>C8_Repro\<close>, \<open>C8_Interp_Total\<close> and \<open>C8_Interp_Thms\<close> (whole instructions and runs),
    \<open>C8_Interp_Live\<close> (the terminal build never hangs in an instruction).
  \<^item> \<open>C8_Asm\<close>, \<open>C8_Asm_Props\<close>, \<open>C8_Asm_Thms\<close>: the assembler and its two passes.
  \<^item> \<open>C8_Disas\<close>, \<open>C8_Disas_Props\<close>, \<open>C8_Disas_Thms\<close>: leaders, descent, gluing, report and text.
  \<^item> \<open>C8_Text\<close>, \<open>C8_Roundtrip\<close>: the assembler reads back what the disassembler prints.
  \<^item> \<open>C8_Flow\<close>: the disassembler's map is sound for the interpreter.
  \<^item> \<open>C8_Jit\<close>: \<^verbatim>\<open>libgccjit_jit.c\<close>, its host helpers, code generator, trace cache and dispatch loop.
    \<open>C8_Agree\<close> (when a JIT state stands for an interpreter state), \<open>C8_Jit_Run\<close> (how a block
    runs), \<open>C8_Jit_Emit\<close> (what is emitted for each opcode does what the interpreter does),
    \<open>C8_Jit_Step\<close> and \<open>C8_Jit_Sim\<close> (a trace runs instructions of the interpreter and ends),
    \<open>C8_Jit_Main\<close> (the cache and the dispatch loop), \<open>C8_Jit_Thms\<close> (whole runs).
  \<^item> \<open>C8_Aot\<close>, \<open>C8_Aot_Run\<close>: \<^verbatim>\<open>aot.c\<close>, its module as data and as text; \<^verbatim>\<open>aot_runtime.c\<close> and
    the execution of a module. \<open>C8_Aot_Code\<close> (what a block computes; the function is well-formed),
    \<open>C8_Aot_Sim\<close> (a word against the interpreter's instruction), \<open>C8_Aot_Thms\<close> (runs and errors).
  \<^item> \<open>C8_Llvm\<close>: \<^verbatim>\<open>llvm_jit.cpp\<close>, its host helpers, the IR its code generator builds, trace cache
    and dispatch loop. \<open>C8_Llvm_Twin\<close> (the helpers against those of libgccjit), \<open>C8_Llvm_Sim\<close> (how
    two traces with the same blocks run), \<open>C8_Llvm_Emit\<close> (what is emitted for each opcode does the
    same in both), \<open>C8_Llvm_Thms\<close> (whole runs).
  \<^item> \<open>C8_Report\<close>: the command line and the report of the benchmark build. \<open>C8_Process\<close>: every
    \<^verbatim>\<open>main\<close> as a process, from its arguments and its files to its exit status and its output.
  \<^item> \<open>C8_Rerun\<close> (a run of the interpreter under another budget), \<open>C8_Bench_Diff\<close>: the test
    \<^verbatim>\<open>scripts/bench_diff.py\<close>, and that it accepts both trace compilers.

  \<^bold>\<open>Correspondence.\<close> A C global is a field of a record: \<open>chip8\<close> (\<^verbatim>\<open>chip8.c\<close>), \<open>host\<close> (the values
  the host returns, as streams), \<open>io\<close> (\<^verbatim>\<open>bench_io.c\<close> and \<^verbatim>\<open>ncurses_io.c\<close>), \<open>vm\<close> (the engine), each
  extending the one before. Machine integers are words of their width; the \<^verbatim>\<open>long long\<close>
  counters of the clock are naturals, they only grow from 0. A handler returns \<open>Done status state\<close>,
  \<open>Hangs\<close> if a polling loop never sees its event, \<open>UB\<close> for an undefined shift. The main loop
  and the polling loops are \<open>partial_function (option)\<close>, so that not returning is \<open>None\<close>; the
  theorems on the \<^verbatim>\<open>BENCH\<close> build prove that they return. The tools map file contents to
  output text; failures carry the line and reason.

  \<^bold>\<open>Interfaces.\<close> \<open>vm_stable\<close>: a predicate kept by the elementary updates and services is kept by
  every instruction (well-formedness, the clock's constants). \<open>vm_congruence\<close>: a relation kept by
  them is kept by every instruction, between states of any two engines (another host's clock and
  terminal; another budget).
  \<open>run_loop\<close>: a main loop whose passes come closer to the end returns. \<open>key_source\<close>: keys that are
  consumed when seen. Each is interpreted on the model's own definitions.

  \<^bold>\<open>The JIT.\<close> libgccjit is a parameter \<open>gcc\<close> of the dispatch loop. \<open>gcc_ok\<close> is its documented
  interface: the executable it returns for a trace behaves as the blocks handed to it
  (\<open>run_trace\<close>); it may fail on any trace. The signal of the POSIX timer is a stream. The proofs
  are about the \<^verbatim>\<open>BENCH\<close> build, the one whose engines are meant to agree. A trace overruns the budget by at
  most one safepoint interval and one pass through its at most 4096 blocks, so a report's count is at most
  \<open>budget + 64 + 4096 + 1\<close>; \<open>CLOCK_LIMIT\<close> keeps \<^verbatim>\<open>last_tick\<close> below \<open>2 ^ 31\<close>, the runs of
  hours excluded by it would overflow an \<^verbatim>\<open>int\<close>.

  \<^bold>\<open>The LLVM engine.\<close> LLVM is a parameter \<open>orc\<close> of the dispatch loop, and \<open>orc_total\<close> its documented
  interface: the function looked up for a trace behaves as the IR handed over, which \<open>l_walk\<close>
  executes as the language reference says. Each trace compiler has its own copy of the timer and key services, shown equal to the interpreter's. The engine is compared with
  the libgccjit one, in either build: from \<open>twin\<close> states, helpers and traces come to twin states, and the caches
  hold traces of the same addresses that do the same (\<open>engines\<close>). The comparison goes from libgccjit
  to LLVM, for every run that does not wait forever; with the \<^verbatim>\<open>BENCH\<close> runs that all end it gives
  the LLVM engine's runs as runs of the interpreter.

  \<^bold>\<open>The differential test.\<close> A trace compiler overshoots its budget, so \<^verbatim>\<open>bench_diff.py\<close> reads the
  count an engine retired from its report, runs the interpreter again with that budget, and compares
  the two reports. \<open>bench_diff\<close> is that, between two processes. That it prints nothing rests on the
  engines being explained by the interpreter (\<open>explains\<close>) and on a run being the same under another
  budget as long as no wait for a key is cut short by either (\<open>uncut\<close>, \<open>run_rebudget\<close>). Runs ended by the clock cap,
  those that spend their time waiting for keys, are excluded: their second run has another cap.

  \<^bold>\<open>Liveness.\<close> \<open>lively\<close>: the host's clock shows other ticks again and again, and the terminal delivers
  one of the program's keys again and again. Then no instruction of the interactive interpreter waits forever.

  \<^bold>\<open>The ahead-of-time compiler.\<close> One \<open>inst\<close> is one instruction \<^verbatim>\<open>block\<close> prints; \<open>aot_text\<close> is the file.
  \<open>ir_step\<close> is the LLVM language reference on the few instructions that occur; a call of the runtime is one step.
  Compiled programs exist only for the terminal, so they are compared with the interactive
  interpreter and on what a program computes (\<open>core\<close>): registers, memory, stack, program counter, screen and
  random numbers. The hosts' clocks and keys may differ; the compiled program's clock is to tick and its user not to quit, and the words
  compared ask for neither key nor time. The emitted code is the ROM's: a word the program
  has overwritten is where the engines part, so \<open>at_rom\<close> excludes it.

  \<^bold>\<open>Not modelled.\<close> Terminal and signal set-up, the lines of a report with the
  elapsed time, the texts of usage and error messages: pure I/O. The lists of compilation results and
  resource trackers the JITs keep for freeing them, the pass manager and the dump of LLVM IR. The other
  Python scripts and the tests are not part of the C programs.
\<close>

section \<open>Disassembler and assembler\<close>

text \<open>
  C1: For every file, \<^verbatim>\<open>disas --asm\<close> (with or without \<^verbatim>\<open>--decode-unreachable\<close>) succeeds,
  and assembling its output gives back the ROM, without an error: the file's bytes, up to
  the 3584 that fit the memory.
\<close>

theorem disassemble_assemble:
  "\<exists>out. disas_main True decode file = Some out \<and> asm_main out = (take 0xE00 file, None)"
proof -
  obtain out where "disas_main True decode file = Some out"
    using analysis_total [of "take 0xE00 file" decode] by (auto simp: disas_main_def Let_def)
  with roundtrip show ?thesis by blast
qed

text \<open>The same of the two programs, the assembler given the disassembler's standard output.\<close>

lemma text_bytes: "text_of (bytes_of s) = s"
  by (induction s) (simp_all add: text_of_def bytes_of_def unat_of_nat)

lemma disas_process_asm:
  assumes "take 1 rom \<noteq> ''-''" "opened w rom = Some file"
  shows "\<exists>out. disas_process w [''--asm'', rom] = Some (0, bytes_of out, []) \<and> asm_main out = (take 0xE00 file, None)"
proof -
  have rom: "rom \<noteq> ''-a''" "rom \<noteq> ''--asm''" "rom \<noteq> ''-r''" "rom \<noteq> ''--report''" "rom \<noteq> ''--assume-no-smc''"
    "rom \<noteq> ''--decode-unreachable''" "rom \<noteq> ''-h''" "rom \<noteq> ''--help''"
    using assms(1) by (cases rom; auto)+
  obtain out where out: "disas_main True False file = Some out"
    using analysis_total [of "take 0xE00 file" False] by (auto simp: disas_main_def Let_def)
  have "disas_process w [''--asm'', rom] = Some (0, bytes_of out, [])"
    using out by (simp add: disas_process_def rom assms(2) disas_main_def Let_def) auto
  with roundtrip [OF out] show ?thesis by blast
qed

lemma disas_then_asm:
  assumes "take 1 rom \<noteq> ''-''" "opened w rom = Some file"
  obtains out where "disas_process w [''--asm'', rom] = Some (0, out, [])"
    "\<And>w' source. opened w' source = Some out \<Longrightarrow> asm_process w' [source] = (0, take 0xE00 file)"
  using disas_process_asm [OF assms] that by (auto simp: asm_process_def text_bytes)

end
